(* ===== verification/KV_Prelude.thy ===== *)
theory KV_Prelude
  imports
    Complex_Main
    "HOL-Library.AList"
    "HOL-Library.Char_ord"
    "HOL-Library.List_Lexorder"
    "HOL-Library.Product_Lexorder"
    "HOL-Library.Multiset"
    "HOL-Library.Log_Nat"
begin

text \<open>
  Shared vocabulary of the development: Python floats with their IEEE comparisons
  (\<open>pyfloat\<close>), Python exceptions and HTTP errors as values, the values a YAML document can hold
  (\<open>pyval\<close>), Python's \<open>int()\<close>, \<open>float()\<close> and \<open>str.strip()\<close>, and the generic list lemmas
  the components share. Python's \<open>str\<close> is HOL's \<open>string\<close>: a list of characters whose code
  points are 0 to 255, compared lexicographically by code point as Python does.
\<close>

section \<open>Collections used by the proof methods\<close>

named_theorems lww_simps \<open>rewrite rules for last-write-wins comparison\<close>
named_theorems store_simps \<open>rewrite rules for the operations of the key-value store\<close>
named_theorems cluster_inv \<open>preservation facts of the cluster invariants\<close>

section \<open>Python floats\<close>

text \<open>
  A finite double is the rational number it denotes; both zeros are \<open>Fin 0\<close>, which Python's
  comparisons do not distinguish either. Infinities and NaN are values of their own, because JSON
  and YAML input can carry them into the program.
\<close>

datatype pyfloat = MInf | Fin rat | PInf | NaN

text \<open>
  The library order on \<open>pyfloat\<close> places NaN on top. It is a linear order, so the library's
  automation applies; the comparisons the program performs (\<open>flt\<close>, \<open>fle\<close>, \<open>feq\<close>) are defined
  separately below, and agree with it exactly when no NaN is involved.
\<close>

instantiation pyfloat :: linorder
begin

fun less_eq_pyfloat :: "pyfloat \<Rightarrow> pyfloat \<Rightarrow> bool" where
  "less_eq_pyfloat MInf _ = True"
| "less_eq_pyfloat (Fin a) MInf = False"
| "less_eq_pyfloat (Fin a) (Fin b) = (a \<le> b)"
| "less_eq_pyfloat (Fin a) PInf = True"
| "less_eq_pyfloat (Fin a) NaN = True"
| "less_eq_pyfloat PInf MInf = False"
| "less_eq_pyfloat PInf (Fin b) = False"
| "less_eq_pyfloat PInf PInf = True"
| "less_eq_pyfloat PInf NaN = True"
| "less_eq_pyfloat NaN MInf = False"
| "less_eq_pyfloat NaN (Fin b) = False"
| "less_eq_pyfloat NaN PInf = False"
| "less_eq_pyfloat NaN NaN = True"

definition less_pyfloat :: "pyfloat \<Rightarrow> pyfloat \<Rightarrow> bool" where
  "less_pyfloat a b \<longleftrightarrow> a \<le> b \<and> \<not> b \<le> a"

instance
proof
  fix x y z :: pyfloat
  show "x < y \<longleftrightarrow> x \<le> y \<and> \<not> y \<le> x"
    by (simp add: less_pyfloat_def)
  show "x \<le> x"
    by (cases x) auto
  show "x \<le> y \<Longrightarrow> y \<le> z \<Longrightarrow> x \<le> z"
    by (cases x; cases y; cases z) auto
  show "x \<le> y \<Longrightarrow> y \<le> x \<Longrightarrow> x = y"
    by (cases x; cases y) auto
  show "x \<le> y \<or> y \<le> x"
    by (cases x; cases y) auto
qed

end

lemma less_pyfloat_simps [simp]:
  "Fin a < Fin b \<longleftrightarrow> a < b"
  "Fin a < PInf" "Fin a < NaN" "MInf < Fin a" "MInf < PInf" "MInf < NaN" "PInf < NaN"
  "\<not> Fin a < MInf" "\<not> PInf < Fin a" "\<not> NaN < x" "\<not> PInf < MInf"
  by (cases x; auto simp: less_pyfloat_def)+

text \<open>Python's \<open>==\<close>, \<open><\<close> and \<open><=\<close> on floats: every comparison with a NaN is false.\<close>

definition feq :: "pyfloat \<Rightarrow> pyfloat \<Rightarrow> bool" where
  "feq a b \<longleftrightarrow> a \<noteq> NaN \<and> a = b"

definition flt :: "pyfloat \<Rightarrow> pyfloat \<Rightarrow> bool" where
  "flt a b \<longleftrightarrow> b \<noteq> NaN \<and> a < b"

definition fle :: "pyfloat \<Rightarrow> pyfloat \<Rightarrow> bool" where
  "fle a b \<longleftrightarrow> a \<noteq> NaN \<and> b \<noteq> NaN \<and> a \<le> b"

lemma py_compare_Fin [simp]:
  "feq (Fin a) (Fin b) \<longleftrightarrow> a = b"
  "flt (Fin a) (Fin b) \<longleftrightarrow> a < b"
  "fle (Fin a) (Fin b) \<longleftrightarrow> a \<le> b"
  by (simp_all add: feq_def flt_def fle_def)

lemma py_compare_NaN [simp]:
  "\<not> feq NaN x" "\<not> feq x NaN" "\<not> flt NaN x" "\<not> flt x NaN" "\<not> fle NaN x" "\<not> fle x NaN"
  by (auto simp: feq_def flt_def fle_def)

text \<open>
  Addition and subtraction, exact on finite values (the rounding of the last bit is not
  modelled), with IEEE's rules for infinities and NaN.
\<close>

fun fneg :: "pyfloat \<Rightarrow> pyfloat" where
  "fneg MInf = PInf"
| "fneg (Fin a) = Fin (- a)"
| "fneg PInf = MInf"
| "fneg NaN = NaN"

fun fadd :: "pyfloat \<Rightarrow> pyfloat \<Rightarrow> pyfloat" where
  "fadd NaN _ = NaN"
| "fadd _ NaN = NaN"
| "fadd (Fin a) (Fin b) = Fin (a + b)"
| "fadd (Fin a) PInf = PInf"
| "fadd (Fin a) MInf = MInf"
| "fadd PInf MInf = NaN"
| "fadd PInf _ = PInf"
| "fadd MInf PInf = NaN"
| "fadd MInf _ = MInf"

definition fsub :: "pyfloat \<Rightarrow> pyfloat \<Rightarrow> pyfloat" where
  "fsub a b = fadd a (fneg b)"

lemma fsub_Fin [simp]: "fsub (Fin a) (Fin b) = Fin (a - b)"
  by (simp add: fsub_def)

section \<open>Exceptions\<close>

text \<open>
  The exceptions the modelled code raises, catches or lets through. The exceptions of
  configuration loading carry the data of their messages.
\<close>

datatype exn =
    NotPositive string pyfloat
  | NotInRange string int int int string
  | EmptyStr string
  | NotAtLeastOne string int
  | ValueErr string
  | TypeErr string
  | KeyErr string
  | AttributeErr string
  | OverflowErr
  | ZeroDivisionErr
  | IndexErr
  | UnicodeDecodeErr
  | RuntimeErr string
  | TimeoutErr string
  | CancelledErr
  | NodeStartupErr string
  | TimeoutExpiredErr
  | SystemExitErr string
  | OtherErr string

text \<open>What \<open>except Exception\<close> catches.\<close>

definition is_exception :: "exn \<Rightarrow> bool" where
  "is_exception e \<longleftrightarrow> (case e of CancelledErr \<Rightarrow> False | SystemExitErr _ \<Rightarrow> False | _ \<Rightarrow> True)"

text \<open>Sequencing of computations that may raise.\<close>

definition bind_exn :: "'e + 'a \<Rightarrow> ('a \<Rightarrow> 'e + 'b) \<Rightarrow> 'e + 'b" where
  "bind_exn m f = (case m of Inl e \<Rightarrow> Inl e | Inr a \<Rightarrow> f a)"

lemma bind_exn_simps [simp]:
  "bind_exn (Inl e) f = Inl e"
  "bind_exn (Inr a) f = f a"
  by (simp_all add: bind_exn_def)

lemma bind_exn_Inr_iff:
  "bind_exn m f = Inr b \<longleftrightarrow> (\<exists>a. m = Inr a \<and> f a = Inr b)"
  by (cases m) auto

text \<open>A list comprehension whose body may raise: the first exception wins.\<close>

fun map_exn :: "('a \<Rightarrow> 'e + 'b) \<Rightarrow> 'a list \<Rightarrow> 'e + 'b list" where
  "map_exn f [] = Inr []"
| "map_exn f (x # xs) = bind_exn (f x) (\<lambda>y. bind_exn (map_exn f xs) (\<lambda>ys. Inr (y # ys)))"

lemma map_exn_length: "map_exn f xs = Inr ys \<Longrightarrow> length ys = length xs"
  by (induction xs arbitrary: ys) (auto simp: bind_exn_Inr_iff)

section \<open>Python values read from YAML, and Python's conversions\<close>

text \<open>
  What \<open>yaml.safe_load\<close> can hand to \<open>from_dict\<close>. A mapping keeps its string keys only, since the
  program looks up nothing else.
\<close>

datatype pyval =
    PNone
  | PBool bool
  | PInt int
  | PFloat pyfloat
  | PStr string
  | PList "pyval list"
  | PDict "(string \<times> pyval) list"

text \<open>\<open>str.isspace\<close> on code points below 256, and \<open>str.strip()\<close>.\<close>

definition py_isspace :: "char \<Rightarrow> bool" where
  "py_isspace c =
     (let n = (of_char c :: nat)
      in (9 \<le> n \<and> n \<le> 13) \<or> (28 \<le> n \<and> n \<le> 32) \<or> n = 133 \<or> n = 160)"

definition py_strip :: "string \<Rightarrow> string" where
  "py_strip s = rev (dropWhile py_isspace (rev (dropWhile py_isspace s)))"

text \<open>
  \<open>int(x)\<close>: a string is stripped and read as an optionally signed decimal literal with single
  underscores between digits; a float is truncated towards zero.
\<close>

definition py_digit :: "char \<Rightarrow> int option" where
  "py_digit c =
     (let n = (of_char c :: nat) in if 48 \<le> n \<and> n \<le> 57 then Some (int n - 48) else None)"

fun py_digits :: "bool \<Rightarrow> int \<Rightarrow> string \<Rightarrow> int option" where
  "py_digits after_digit acc [] = (if after_digit then Some acc else None)"
| "py_digits after_digit acc (c # cs) =
     (case py_digit c of
        Some d \<Rightarrow> py_digits True (acc * 10 + d) cs
      | None \<Rightarrow> if c = CHR ''_'' \<and> after_digit then py_digits False acc cs else None)"

definition py_int_of_str :: "string \<Rightarrow> exn + int" where
  "py_int_of_str s =
     (let t = py_strip s;
          r = (case t of
                 [] \<Rightarrow> None
               | c # cs \<Rightarrow>
                   if c = CHR ''-'' then map_option uminus (py_digits False 0 cs)
                   else if c = CHR ''+'' then py_digits False 0 cs
                   else py_digits False 0 t)
      in case r of None \<Rightarrow> Inl (ValueErr s) | Some n \<Rightarrow> Inr n)"

definition py_trunc :: "rat \<Rightarrow> int" where
  "py_trunc q = (if 0 \<le> q then \<lfloor>q\<rfloor> else \<lceil>q\<rceil>)"

fun py_int :: "pyval \<Rightarrow> exn + int" where
  "py_int (PBool b) = Inr (if b then 1 else 0)"
| "py_int (PInt n) = Inr n"
| "py_int (PFloat (Fin q)) = Inr (py_trunc q)"
| "py_int (PFloat PInf) = Inl OverflowErr"
| "py_int (PFloat MInf) = Inl OverflowErr"
| "py_int (PFloat NaN) = Inl (ValueErr ''nan'')"
| "py_int (PStr s) = py_int_of_str s"
| "py_int PNone = Inl (TypeErr ''int'')"
| "py_int (PList xs) = Inl (TypeErr ''int'')"
| "py_int (PDict d) = Inl (TypeErr ''int'')"

text \<open>
  \<open>float(n)\<close> of an unbounded integer: exact up to \<open>2 ^ 53\<close>, rounded half to even above, an
  OverflowError beyond the largest double.
\<close>

definition py_float_of_int :: "int \<Rightarrow> exn + pyfloat" where
  "py_float_of_int n =
     (let a = abs n in
      if a \<le> 2 ^ 53 then Inr (Fin (of_int n))
      else
        let e = floorlog 2 (nat a) - 53;
            q = a div 2 ^ e;
            r = a mod 2 ^ e;
            q' = (if 2 ^ e < 2 * r \<or> (2 * r = 2 ^ e \<and> odd q) then q + 1 else q);
            m = q' * 2 ^ e
        in if 2 ^ 1024 \<le> m then Inl OverflowErr else Inr (Fin (of_int (sgn n * m))))"

text \<open>
  \<open>float(x)\<close>. The reading of a decimal literal held in a YAML string is the parameter
  \<open>float_of_str\<close> (\<open>None\<close> where CPython raises ValueError).
\<close>

fun py_float :: "(string \<Rightarrow> pyfloat option) \<Rightarrow> pyval \<Rightarrow> exn + pyfloat" where
  "py_float float_of_str (PBool b) = Inr (Fin (if b then 1 else 0))"
| "py_float float_of_str (PInt n) = py_float_of_int n"
| "py_float float_of_str (PFloat x) = Inr x"
| "py_float float_of_str (PStr s) =
     (case float_of_str s of None \<Rightarrow> Inl (ValueErr s) | Some x \<Rightarrow> Inr x)"
| "py_float float_of_str PNone = Inl (TypeErr ''float'')"
| "py_float float_of_str (PList xs) = Inl (TypeErr ''float'')"
| "py_float float_of_str (PDict d) = Inl (TypeErr ''float'')"

text \<open>\<open>raw.get(key, default)\<close>, \<open>raw[key]\<close> and iteration, on a value that may not be a dict or list.\<close>

definition py_dict_get :: "pyval \<Rightarrow> string \<Rightarrow> pyval \<Rightarrow> exn + pyval" where
  "py_dict_get d k dflt =
     (case d of
        PDict m \<Rightarrow> Inr (case map_of m k of None \<Rightarrow> dflt | Some v \<Rightarrow> v)
      | _ \<Rightarrow> Inl (AttributeErr ''get''))"

definition py_dict_item :: "pyval \<Rightarrow> string \<Rightarrow> exn + pyval" where
  "py_dict_item d k =
     (case d of
        PDict m \<Rightarrow> (case map_of m k of None \<Rightarrow> Inl (KeyErr k) | Some v \<Rightarrow> Inr v)
      | _ \<Rightarrow> Inl (TypeErr ''subscript''))"

definition py_iter :: "pyval \<Rightarrow> exn + pyval list" where
  "py_iter v =
     (case v of
        PList xs \<Rightarrow> Inr xs
      | PDict m \<Rightarrow> Inr (map (PStr \<circ> fst) m)
      | PStr s \<Rightarrow> Inr (map (\<lambda>c. PStr [c]) s)
      | _ \<Rightarrow> Inl (TypeErr ''iter''))"

text \<open>\<open>str(n)\<close> of an integer.\<close>

fun dec_of_nat :: "nat \<Rightarrow> string" where
  "dec_of_nat n =
     (if n < 10 then [char_of (n + 48)] else dec_of_nat (n div 10) @ [char_of (n mod 10 + 48)])"

definition py_str_of_int :: "int \<Rightarrow> string" where
  "py_str_of_int n = (if n < 0 then CHR ''-'' # dec_of_nat (nat (- n)) else dec_of_nat (nat n))"

declare dec_of_nat.simps [simp del]

text \<open>Reading back what \<open>str(n)\<close> printed gives \<open>n\<close>, so different integers print differently.\<close>

lemma py_digit_char_of: "d < 10 \<Longrightarrow> py_digit (char_of (d + 48)) = Some (int d)"
  by (simp add: py_digit_def Let_def)

lemma py_digits_dec_of_nat:
  "py_digits b acc (dec_of_nat n @ rest) = py_digits True (acc * 10 ^ length (dec_of_nat n) + int n) rest"
proof (induction n arbitrary: b acc rest rule: dec_of_nat.induct)
  case (1 n)
  show ?case
  proof (cases "n < 10")
    case True
    then show ?thesis by (simp add: dec_of_nat.simps [of n] py_digit_char_of)
  next
    case False
    have int_n: "int n = int (n div 10) * 10 + int (n mod 10)"
      using div_mult_mod_eq [of n 10] by presburger
    have "py_digits b acc (dec_of_nat n @ rest) =
        py_digits b acc (dec_of_nat (n div 10) @ char_of (n mod 10 + 48) # rest)"
      using False by (simp add: dec_of_nat.simps [of n])
    also have "\<dots> = py_digits True ((acc * 10 ^ length (dec_of_nat (n div 10)) + int (n div 10)) * 10 + int (n mod 10)) rest"
      unfolding 1 [OF False] by (simp only: py_digits.simps py_digit_char_of [of "n mod 10"] pos_mod_bound option.case mod_less_divisor zero_less_numeral)
    also have "(acc * 10 ^ length (dec_of_nat (n div 10)) + int (n div 10)) * 10 + int (n mod 10) =
        acc * 10 ^ length (dec_of_nat n) + int n"
      using False by (simp add: dec_of_nat.simps [of n] int_n distrib_right)
    finally show ?thesis .
  qed
qed

lemma dec_of_nat_digits: "c \<in> set (dec_of_nat n) \<Longrightarrow> \<exists>d < (10 :: nat). c = char_of (d + 48)"
proof (induction n rule: dec_of_nat.induct)
  case (1 n)
  show ?case
  proof (cases "n < 10")
    case True
    then show ?thesis using 1(2) by (auto simp: dec_of_nat.simps [of n])
  next
    case False
    then show ?thesis using 1 by (auto simp: dec_of_nat.simps [of n] intro: exI [of _ "n mod 10"])
  qed
qed

lemma dec_of_nat_nonempty [simp]: "dec_of_nat n \<noteq> []"
  by (simp add: dec_of_nat.simps [of n])

lemma py_isspace_digit: "d < (10 :: nat) \<Longrightarrow> \<not> py_isspace (char_of (d + 48))"
  by (simp add: py_isspace_def Let_def)

lemma py_strip_no_space: "\<forall>c \<in> set s. \<not> py_isspace c \<Longrightarrow> py_strip s = s"
proof -
  have drop: "dropWhile py_isspace t = t" if "\<forall>c \<in> set t. \<not> py_isspace c" for t
    using that by (cases t) auto
  assume "\<forall>c \<in> set s. \<not> py_isspace c"
  then show ?thesis using drop [of s] drop [of "rev s"] by (simp add: py_strip_def)
qed

lemma digit_char_not_sign: "d < (10 :: nat) \<Longrightarrow> char_of (d + 48) \<noteq> CHR ''-'' \<and> char_of (d + 48) \<noteq> CHR ''+''"
proof -
  assume "d < 10"
  then have "py_digit (char_of (d + 48)) \<noteq> None" by (simp add: py_digit_char_of)
  moreover have "py_digit CHR ''-'' = None" "py_digit CHR ''+'' = None" by (simp_all add: py_digit_def)
  ultimately show ?thesis by metis
qed

lemma py_int_of_str_of_int [simp]: "py_int_of_str (py_str_of_int n) = Inr n"
proof -
  have digits: "py_digits False 0 (dec_of_nat m) = Some (int m)" for m
    using py_digits_dec_of_nat [of False 0 m "[]"] by simp
  have no_space: "\<forall>c \<in> set (dec_of_nat m). \<not> py_isspace c" for m
    using dec_of_nat_digits py_isspace_digit by blast
  show ?thesis
  proof (cases "n < 0")
    case True
    have "py_strip (py_str_of_int n) = CHR ''-'' # dec_of_nat (nat (- n))"
      using True no_space by (simp add: py_str_of_int_def py_strip_no_space py_isspace_def)
    then show ?thesis using True digits by (simp add: py_int_of_str_def)
  next
    case False
    obtain c cs where cs: "dec_of_nat (nat n) = c # cs" by (cases "dec_of_nat (nat n)") simp_all
    then have "c \<noteq> CHR ''-''" "c \<noteq> CHR ''+''"
      using dec_of_nat_digits [of c "nat n"] digit_char_not_sign by auto
    moreover have "py_strip (py_str_of_int n) = c # cs"
      using False no_space [of "nat n"] cs by (simp add: py_str_of_int_def py_strip_no_space)
    ultimately show ?thesis using False digits [of "nat n"] cs by (simp add: py_int_of_str_def)
  qed
qed

lemma py_str_of_int_eq [simp]: "py_str_of_int m = py_str_of_int n \<longleftrightarrow> m = n"
  by (metis py_int_of_str_of_int sum.inject(2))

text \<open>\<open>yaml.safe_load(f) or {}\<close>: an empty document, or any other falsy one, reads as an empty dict.\<close>

definition py_falsy :: "pyval \<Rightarrow> bool" where
  "py_falsy v \<longleftrightarrow>
     v = PNone \<or> v = PBool False \<or> v = PInt 0 \<or> v = PFloat (Fin 0) \<or> v = PStr [] \<or>
     v = PList [] \<or> v = PDict []"

definition yaml_or_empty :: "pyval \<Rightarrow> pyval" where
  "yaml_or_empty v = (if py_falsy v then PDict [] else v)"

section \<open>Generic lemmas\<close>

lemma dropWhile_hd: "xs \<noteq> [] \<Longrightarrow> \<not> P (hd xs) \<Longrightarrow> dropWhile P xs = xs"
  by (cases xs) auto

lemma strip_ends:
  assumes "rev (dropWhile P (rev (dropWhile P s))) \<noteq> []"
  shows "\<not> P (hd (rev (dropWhile P (rev (dropWhile P s)))))"
    and "\<not> P (last (rev (dropWhile P (rev (dropWhile P s)))))"
proof -
  let ?d = "dropWhile P s"
  let ?r = "dropWhile P (rev ?d)"
  have r: "?r \<noteq> []" using assms by simp
  then show "\<not> P (last (rev ?r))"
    by (simp add: last_rev hd_dropWhile)
  have d: "?d \<noteq> []"
  proof
    assume e: "?d = []"
    have "?r = []" unfolding e by simp
    with r show False by blast
  qed
  obtain ys where ys: "rev ?d = ys @ ?r"
    using takeWhile_dropWhile_id [of P "rev ?d"] by metis
  then have "?d = rev ?r @ rev ys"
    by (metis rev_append rev_rev_ident)
  then have "hd ?d = hd (rev ?r)" using r by (metis hd_append2 rev_is_Nil_conv)
  then show "\<not> P (hd (rev ?r))"
    using hd_dropWhile [OF d] by simp
qed

lemma py_strip_ends:
  assumes "py_strip s \<noteq> []"
  shows "\<not> py_isspace (hd (py_strip s))" and "\<not> py_isspace (last (py_strip s))"
  using strip_ends [of py_isspace s] assms by (simp_all add: py_strip_def)

lemma notin_image: "(\<And>t. t \<in> A \<Longrightarrow> f t \<in> B) \<Longrightarrow> x \<notin> B \<Longrightarrow> x \<notin> f ` A"
  by auto

text \<open>Two large enough subsets of a finite set share an element: quorum intersection.\<close>

lemma quorums_intersect:
  assumes "finite S" "Q \<subseteq> S" "R \<subseteq> S" "card S < card Q + card R"
  shows "Q \<inter> R \<noteq> {}"
proof
  assume "Q \<inter> R = {}"
  then have "card Q + card R = card (Q \<union> R)"
    using assms finite_subset by (metis card_Un_disjoint)
  also have "\<dots> \<le> card S" using assms by (intro card_mono) auto
  finally show False using assms(4) by simp
qed

end
