(* ===== verification/KV_Models.thy ===== *)
theory KV_Models
  imports KV_Prelude
begin

text \<open>
  \<open>common/models.py\<close>: the versioned value and its last-write-wins comparison. The interface
  \<open>lww_order\<close> states what the rest of the program relies on (a strict weak order on the entries
  that carry a real time), and \<open>is_newer_than\<close> is shown to provide it.
\<close>

section \<open>VersionedValue\<close>

text \<open>The dataclass; \<open>vv_value\<close>, \<open>vv_timestamp\<close> and \<open>vv_node_id\<close> are its three fields.\<close>

record 'v versioned_value =
  vv_value :: 'v
  vv_timestamp :: pyfloat
  vv_node_id :: string

lemma versioned_value_eta [simp]:
  "\<lparr>vv_value = vv_value e, vv_timestamp = vv_timestamp e, vv_node_id = vv_node_id e\<rparr> = e"
  by simp

text \<open>The comparison rule: higher timestamp wins, an exact tie goes to the higher node id.\<close>

definition is_newer_than :: "'v versioned_value \<Rightarrow> 'v versioned_value \<Rightarrow> bool" where
  "is_newer_than self other =
     (if \<not> feq (vv_timestamp self) (vv_timestamp other)
      then flt (vv_timestamp other) (vv_timestamp self)
      else vv_node_id other < vv_node_id self)"

text \<open>An entry whose timestamp is an actual number, as every \<open>time.time()\<close> stamp is.\<close>

definition stamped :: "'v versioned_value \<Rightarrow> bool" where
  "stamped e \<longleftrightarrow> vv_timestamp e \<noteq> NaN"

definition stamp :: "'v versioned_value \<Rightarrow> pyfloat \<times> string" where
  "stamp e = (vv_timestamp e, vv_node_id e)"

lemma is_newer_than_stamp [lww_simps]:
  "stamped a \<Longrightarrow> stamped b \<Longrightarrow> is_newer_than a b \<longleftrightarrow> stamp b < stamp a"
  by (auto simp: is_newer_than_def stamped_def stamp_def feq_def flt_def)

section \<open>The interface: a strict weak order on entries\<close>

text \<open>
  \<open>newer\<close> is the comparison, \<open>ok\<close> the entries it behaves on. Negative transitivity makes "not
  newer" transitive, which is what a store and a quorum read need to keep the latest write.
\<close>

locale lww_order =
  fixes newer :: "'e \<Rightarrow> 'e \<Rightarrow> bool"
    and ok :: "'e \<Rightarrow> bool"
  assumes newer_asym: "ok a \<Longrightarrow> ok b \<Longrightarrow> newer a b \<Longrightarrow> \<not> newer b a"
    and not_newer_trans:
      "ok a \<Longrightarrow> ok b \<Longrightarrow> ok c \<Longrightarrow> \<not> newer a b \<Longrightarrow> \<not> newer b c \<Longrightarrow> \<not> newer a c"
begin

lemma not_newer_self: "ok a \<Longrightarrow> \<not> newer a a"
  using newer_asym by blast

lemma newer_trans:
  "ok a \<Longrightarrow> ok b \<Longrightarrow> ok c \<Longrightarrow> newer a b \<Longrightarrow> newer b c \<Longrightarrow> newer a c"
  by (meson newer_asym not_newer_trans)

text \<open>Keeping the newer of two entries, left to right: the fold both a store and a read perform.\<close>

lemma fold_winner_mem:
  "fold (\<lambda>e w. if newer e w then e else w) es w0 \<in> insert w0 (set es)"
proof (induction es arbitrary: w0)
  case Nil
  then show ?case by simp
next
  case (Cons e es)
  from Cons.IH [of "if newer e w0 then e else w0"] show ?case
    by (auto split: if_splits)
qed

lemma fold_winner_max:
  assumes "ok w0" "\<And>e. e \<in> set es \<Longrightarrow> ok e" "e \<in> insert w0 (set es)"
  shows "\<not> newer e (fold (\<lambda>e w. if newer e w then e else w) es w0)"
  using assms
proof (induction es arbitrary: w0 e)
  case Nil
  then show ?case by (simp add: not_newer_self)
next
  case (Cons x xs)
  define w1 where "w1 = (if newer x w0 then x else w0)"
  define w where "w = fold (\<lambda>e w. if newer e w then e else w) xs w1"
  have ok1: "ok w1" using Cons.prems by (simp add: w1_def)
  have okw: "ok w"
    using fold_winner_mem [of xs w1] Cons.prems(2) ok1 by (auto simp: w_def)
  have max: "\<not> newer y w" if "y \<in> insert w1 (set xs)" for y
    using Cons.IH [OF ok1 _ that] Cons.prems(2) by (simp add: w_def)
  have "\<not> newer w0 w1" "\<not> newer x w1"
    using Cons.prems newer_asym not_newer_self by (auto simp: w1_def)
  then have "\<not> newer w0 w" "\<not> newer x w"
    using max [of w1] not_newer_trans Cons.prems ok1 okw by (metis insertI1 list.set_intros(1))+
  then show ?case
    using Cons.prems(3) max by (auto simp: w_def w1_def)
qed

end

interpretation lww: lww_order is_newer_than stamped
  by unfold_locales (auto simp: lww_simps)

lemma not_newer_stamp [lww_simps]:
  "stamped a \<Longrightarrow> stamped b \<Longrightarrow> \<not> is_newer_than a b \<longleftrightarrow> stamp a \<le> stamp b"
  by (simp add: is_newer_than_stamp not_less)

section \<open>Properties\<close>

text \<open>
  Determinism of conflict resolution: for two versions with real timestamps, either exactly
  one of them is newer than the other, or their timestamps and node ids coincide. So every node
  comparing the same two versions lands on the same winner.
\<close>

theorem is_newer_than_decides:
  assumes "stamped a" "stamped b" "stamp a \<noteq> stamp b"
  shows "is_newer_than a b \<noteq> is_newer_than b a"
  using assms by (auto simp: is_newer_than_stamp)

theorem is_newer_than_decides_witness:
  "is_newer_than \<lparr>vv_value = (1::int), vv_timestamp = Fin 1, vv_node_id = ''node-2''\<rparr>
     \<lparr>vv_value = 2, vv_timestamp = Fin 1, vv_node_id = ''node-1''\<rparr> \<noteq>
   is_newer_than \<lparr>vv_value = (2::int), vv_timestamp = Fin 1, vv_node_id = ''node-1''\<rparr>
     \<lparr>vv_value = 1, vv_timestamp = Fin 1, vv_node_id = ''node-2''\<rparr>"
  by (rule is_newer_than_decides) (simp_all add: stamped_def stamp_def)

end
