(* ===== verification/KV_Storage.thy ===== *)
theory KV_Storage
  imports KV_Models
begin

text \<open>
  \<open>common/storage.py\<close>: the in-memory store \<open>KVStore\<close>. Its dict is an association list in insertion
  order with distinct keys (\<open>kv_wf\<close>); every method runs under the one lock, so a method is one
  atomic step of a state-passing function. The interface \<open>replica_store\<close> states what the rest of
  the program may assume of a store, and holds the lemmas on sequences of writes; \<open>KVStore\<close>
  provides it.
\<close>

section \<open>KVStore\<close>

type_synonym 'v kvstore = "(string \<times> 'v versioned_value) list"

definition kv_init :: "'v kvstore" where
  "kv_init = []"

definition kv_get :: "'v kvstore \<Rightarrow> string \<Rightarrow> 'v versioned_value option" where
  "kv_get data key = map_of data key"

definition kv_put :: "'v kvstore \<Rightarrow> string \<Rightarrow> 'v \<Rightarrow> pyfloat \<Rightarrow> string \<Rightarrow> bool \<times> 'v kvstore" where
  "kv_put data key v timestamp node_id =
     (let incoming = \<lparr>vv_value = v, vv_timestamp = timestamp, vv_node_id = node_id\<rparr>
      in case map_of data key of
           Some current \<Rightarrow>
             if \<not> is_newer_than incoming current then (False, data)
             else (True, AList.update key incoming data)
         | None \<Rightarrow> (True, AList.update key incoming data))"

definition kv_delete :: "'v kvstore \<Rightarrow> string \<Rightarrow> bool \<times> 'v kvstore" where
  "kv_delete data key =
     (if key \<in> fst ` set data then (True, AList.delete key data) else (False, data))"

definition kv_key_count :: "'v kvstore \<Rightarrow> nat" where
  "kv_key_count data = length data"

text \<open>A write whose versioned value is already built: what \<open>put\<close> receives from a replicate call.\<close>

definition kv_put_entry :: "'v kvstore \<Rightarrow> string \<Rightarrow> 'v versioned_value \<Rightarrow> bool \<times> 'v kvstore" where
  "kv_put_entry data key e = kv_put data key (vv_value e) (vv_timestamp e) (vv_node_id e)"

section \<open>Representation invariant and characteristic equations\<close>

definition kv_wf :: "'v kvstore \<Rightarrow> bool" where
  "kv_wf data \<longleftrightarrow> distinct (map fst data)"

lemma kv_wf_init [simp]: "kv_wf kv_init"
  by (simp add: kv_wf_def kv_init_def)

lemma kv_wf_put [simp]: "kv_wf data \<Longrightarrow> kv_wf (snd (kv_put data key v ts n))"
  by (simp add: kv_wf_def kv_put_def Let_def distinct_update split: option.split)

lemma kv_wf_put_entry [simp]: "kv_wf data \<Longrightarrow> kv_wf (snd (kv_put_entry data key e))"
  by (simp add: kv_put_entry_def)

lemma kv_wf_delete [simp]: "kv_wf data \<Longrightarrow> kv_wf (snd (kv_delete data key))"
  by (simp add: kv_wf_def kv_delete_def distinct_delete)

lemma kv_get_init [store_simps]: "kv_get kv_init key = None"
  by (simp add: kv_get_def kv_init_def)

lemma kv_put_entry_applied [store_simps]:
  "fst (kv_put_entry data key e) \<longleftrightarrow>
     (\<forall>current. kv_get data key = Some current \<longrightarrow> is_newer_than e current)"
  by (cases "map_of data key") (simp_all add: kv_put_entry_def kv_put_def kv_get_def Let_def)

lemma kv_get_put_entry [store_simps]:
  "kv_get (snd (kv_put_entry data key e)) key' =
     (if key' = key \<and> fst (kv_put_entry data key e) then Some e else kv_get data key')"
  by (cases "map_of data key")
    (simp_all add: kv_put_entry_def kv_put_def kv_get_def Let_def update_conv')

lemma kv_put_as_entry:
  "kv_put data key v ts n =
     kv_put_entry data key \<lparr>vv_value = v, vv_timestamp = ts, vv_node_id = n\<rparr>"
  by (simp add: kv_put_entry_def)

lemma kv_get_delete [store_simps]:
  "kv_get (snd (kv_delete data key)) key' = (if key' = key then None else kv_get data key')"
proof (cases "key \<in> fst ` set data")
  case True
  then show ?thesis by (simp add: kv_delete_def kv_get_def delete_conv')
next
  case False
  then have "map_of data key = None" by (simp add: map_of_eq_None_iff)
  with False show ?thesis by (simp add: kv_delete_def kv_get_def)
qed

lemma kv_delete_found [store_simps]:
  "fst (kv_delete data key) \<longleftrightarrow> kv_get data key \<noteq> None"
  by (auto simp: kv_delete_def kv_get_def map_of_eq_None_iff)

lemma kv_key_count_dom:
  "kv_wf data \<Longrightarrow> kv_key_count data = card {key. kv_get data key \<noteq> None}"
proof -
  assume "kv_wf data"
  then have "length data = card (fst ` set data)"
    unfolding kv_wf_def by (metis distinct_card length_map set_map)
  moreover have "{key. kv_get data key \<noteq> None} = fst ` set data"
    by (auto simp: kv_get_def map_of_eq_None_iff)
  ultimately show ?thesis by (simp add: kv_key_count_def)
qed

section \<open>The interface: a replicated last-write-wins store\<close>

text \<open>The entries a sequence of writes carries for one key, in order.\<close>

definition entries_for :: "'k \<Rightarrow> ('k \<times> 'e) list \<Rightarrow> 'e list" where
  "entries_for k ws = map snd (filter (\<lambda>w. fst w = k) ws)"

lemma entries_for_simps [simp]:
  "entries_for k [] = []"
  "entries_for k (w # ws) = (if fst w = k then snd w # entries_for k ws else entries_for k ws)"
  by (simp_all add: entries_for_def)

lemma set_entries_for: "set (entries_for k ws) = {e. (k, e) \<in> set ws}"
  by (force simp: entries_for_def)

locale replica_store = lww_order newer ok
  for newer :: "'e \<Rightarrow> 'e \<Rightarrow> bool" and ok :: "'e \<Rightarrow> bool" +
  fixes empty :: 's
    and get :: "'s \<Rightarrow> 'k \<Rightarrow> 'e option"
    and put :: "'s \<Rightarrow> 'k \<Rightarrow> 'e \<Rightarrow> bool \<times> 's"
    and inv :: "'s \<Rightarrow> bool"
  assumes get_empty: "get empty k = None"
    and inv_empty: "inv empty"
    and inv_put: "inv s \<Longrightarrow> inv (snd (put s k e))"
    and put_applied: "inv s \<Longrightarrow> fst (put s k e) \<longleftrightarrow> (\<forall>c. get s k = Some c \<longrightarrow> newer e c)"
    and get_put: "inv s \<Longrightarrow>
      get (snd (put s k e)) k' = (if k' = k \<and> fst (put s k e) then Some e else get s k')"
begin

text \<open>After a write the key holds an entry that the written one does not beat.\<close>

lemma put_holds:
  assumes "inv s" "ok e"
  shows "\<exists>c. get (snd (put s k e)) k = Some c \<and> \<not> newer e c"
proof (cases "fst (put s k e)")
  case True
  with assms show ?thesis by (auto simp: get_put not_newer_self)
next
  case False
  with assms show ?thesis by (auto simp: get_put put_applied)
qed

text \<open>A write to any key never makes an entry older.\<close>

lemma put_monotone:
  assumes "inv s" "ok e" "ok c" "get s k' = Some c"
  shows "\<exists>c'. get (snd (put s k e)) k' = Some c' \<and> \<not> newer c c'"
  using assms by (auto simp: get_put put_applied newer_asym not_newer_self)

lemma puts_inv: "inv s \<Longrightarrow> inv (fold (\<lambda>w s. snd (put s (fst w) (snd w))) ws s)"
  by (induction ws arbitrary: s) (auto simp: inv_put)

text \<open>What a sequence of writes leaves at a key: the fold of the winners, in order.\<close>

lemma puts_get:
  assumes "inv s"
  shows "get (fold (\<lambda>w s. snd (put s (fst w) (snd w))) ws s) k =
    fold (\<lambda>e c. Some (case c of None \<Rightarrow> e | Some w \<Rightarrow> if newer e w then e else w))
      (entries_for k ws) (get s k)"
  using assms
proof (induction ws arbitrary: s)
  case Nil
  then show ?case by simp
next
  case (Cons w ws)
  have "get (snd (put s (fst w) (snd w))) k =
    (if fst w = k
     then Some (case get s k of None \<Rightarrow> snd w | Some c \<Rightarrow> if newer (snd w) c then snd w else c)
     else get s k)"
    using Cons.prems by (auto simp: get_put put_applied split: option.split)
  then show ?case
    using Cons.IH [of "snd (put s (fst w) (snd w))"] Cons.prems by (simp add: inv_put)
qed

lemma fold_Some_winner:
  "fold (\<lambda>e c. Some (case c of None \<Rightarrow> e | Some w \<Rightarrow> if newer e w then e else w)) es (Some w) =
     Some (fold (\<lambda>e w. if newer e w then e else w) es w)"
  by (induction es arbitrary: w) simp_all

lemma puts_get_empty:
  "get (fold (\<lambda>w s. snd (put s (fst w) (snd w))) ws empty) k =
     (case entries_for k ws of
        [] \<Rightarrow> None
      | e # es \<Rightarrow> Some (fold (\<lambda>e w. if newer e w then e else w) es e))"
  by (auto simp: puts_get inv_empty get_empty fold_Some_winner split: list.split)

text \<open>
  Convergence: two replicas that received the same writes, in whatever order and however often,
  hold the same entry at every key, provided no two different writes tie.
\<close>

lemma puts_converge:
  assumes same: "set ws = set ws'"
    and ok: "\<And>e. (k, e) \<in> set ws \<Longrightarrow> ok e"
    and no_tie: "\<And>a b. (k, a) \<in> set ws \<Longrightarrow> (k, b) \<in> set ws \<Longrightarrow>
      \<not> newer a b \<Longrightarrow> \<not> newer b a \<Longrightarrow> a = b"
  shows "get (fold (\<lambda>w s. snd (put s (fst w) (snd w))) ws empty) k =
    get (fold (\<lambda>w s. snd (put s (fst w) (snd w))) ws' empty) k"
proof -
  have sets: "set (entries_for k ws) = set (entries_for k ws')"
    using same by (simp add: set_entries_for)
  show ?thesis
  proof (cases "entries_for k ws")
    case Nil
    with sets have "entries_for k ws' = []" by simp
    with Nil show ?thesis by (simp add: puts_get_empty)
  next
    case (Cons e es)
    with sets obtain e' es' where Cons': "entries_for k ws' = e' # es'"
      by (cases "entries_for k ws'") auto
    let ?win = "\<lambda>e w. if newer e w then e else w"
    have all: "insert e (set es) = {e. (k, e) \<in> set ws}" "insert e' (set es') = {e. (k, e) \<in> set ws}"
      using Cons Cons' sets set_entries_for [of k ws] by auto
    let ?w = "fold ?win es e" and ?w' = "fold ?win es' e'"
    have mem: "(k, ?w) \<in> set ws" "(k, ?w') \<in> set ws"
      using fold_winner_mem [of es e] fold_winner_mem [of es' e'] all by auto
    have "\<not> newer ?w' ?w"
      by (rule fold_winner_max) (use all mem ok in auto)
    moreover have "\<not> newer ?w ?w'"
      by (rule fold_winner_max) (use all mem ok in auto)
    ultimately have "?w = ?w'" using mem no_tie by blast
    then show ?thesis using Cons Cons' by (simp add: puts_get_empty)
  qed
qed

end

interpretation kvs: replica_store is_newer_than stamped kv_init kv_get kv_put_entry kv_wf
  by unfold_locales (auto simp: store_simps)

section \<open>What stays in a store that is only written to\<close>

text \<open>\<open>holds st key e\<close>: the store has an entry at the key that is not older than \<open>e\<close>.\<close>

definition holds :: "'v kvstore \<Rightarrow> string \<Rightarrow> 'v versioned_value \<Rightarrow> bool" where
  "holds st key e \<longleftrightarrow> (\<exists>c. kv_get st key = Some c \<and> stamp e \<le> stamp c)"

text \<open>
  \<open>store_ok W key st\<close>: the store is well formed and what it has at the key is in \<open>W\<close>. \<open>evolves\<close>: a store
  became another one without losing, at the key, anything of \<open>W\<close> it had.
\<close>

definition store_ok :: "'v versioned_value set \<Rightarrow> string \<Rightarrow> 'v kvstore \<Rightarrow> bool" where
  "store_ok W key st \<longleftrightarrow> kv_wf st \<and> (\<forall>c. kv_get st key = Some c \<longrightarrow> c \<in> W)"

definition evolves :: "'v versioned_value set \<Rightarrow> string \<Rightarrow> 'v kvstore \<Rightarrow> 'v kvstore \<Rightarrow> bool" where
  "evolves W key st st' \<longleftrightarrow>
     store_ok W key st' \<and> (\<forall>e \<in> W. holds st key e \<longrightarrow> holds st' key e)"

lemma evolves_refl [cluster_inv]: "store_ok W key st \<Longrightarrow> evolves W key st st"
  by (simp add: evolves_def)

lemma evolves_put [cluster_inv]:
  assumes "store_ok W key st" "\<forall>e \<in> W. stamped e" "k = key \<Longrightarrow> e \<in> W"
  shows "evolves W key st (snd (kv_put_entry st k e))"
proof (cases "k = key")
  case True
  have "holds (snd (kv_put_entry st k e)) key e'" if "e' \<in> W" "holds st key e'" for e'
  proof -
    obtain c where c: "kv_get st key = Some c" "stamp e' \<le> stamp c"
      using \<open>holds st key e'\<close> by (auto simp: holds_def)
    then have "stamped c" "stamped e" using assms True by (auto simp: store_ok_def)
    then show ?thesis
      using c True by (auto simp: holds_def store_simps lww_simps)
  qed
  then show ?thesis
    using assms True by (auto simp: evolves_def store_ok_def store_simps)
next
  case False
  then show ?thesis using assms(1) by (simp add: evolves_def store_ok_def holds_def store_simps)
qed

lemma evolves_delete [cluster_inv]:
  "store_ok W key st \<Longrightarrow> k \<noteq> key \<Longrightarrow> evolves W key st (snd (kv_delete st k))"
  by (simp add: evolves_def store_ok_def holds_def store_simps)

lemma put_entry_holds:
  assumes "store_ok W key st" "\<forall>e \<in> W. stamped e" "e \<in> W"
  shows "holds (snd (kv_put_entry st key e)) key e"
proof -
  obtain c where c: "kv_get (snd (kv_put_entry st key e)) key = Some c" "\<not> is_newer_than e c"
    using kvs.put_holds [of st e key] assms by (auto simp: store_ok_def)
  then have "stamped c" using assms by (auto simp: store_ok_def store_simps split: if_splits)
  with c assms show ?thesis by (auto simp: holds_def lww_simps)
qed

section \<open>Runs of the store against a map\<close>

text \<open>One call of a method, and what it returns.\<close>

datatype 'v kv_op =
    Op_get string
  | Op_put string 'v pyfloat string
  | Op_delete string
  | Op_key_count

datatype 'v kv_ret =
    Ret_entry "'v versioned_value option"
  | Ret_bool bool
  | Ret_count nat

fun kv_exec :: "'v kv_op \<Rightarrow> 'v kvstore \<Rightarrow> 'v kv_ret \<times> 'v kvstore" where
  "kv_exec (Op_get key) data = (Ret_entry (kv_get data key), data)"
| "kv_exec (Op_put key v ts n) data = (let (b, data') = kv_put data key v ts n in (Ret_bool b, data'))"
| "kv_exec (Op_delete key) data = (let (b, data') = kv_delete data key in (Ret_bool b, data'))"
| "kv_exec Op_key_count data = (Ret_count (kv_key_count data), data)"

fun kv_run :: "'v kv_op list \<Rightarrow> 'v kvstore \<Rightarrow> 'v kv_ret list \<times> 'v kvstore" where
  "kv_run [] data = ([], data)"
| "kv_run (c # cs) data =
     (let (r, data') = kv_exec c data; (rs, data'') = kv_run cs data' in (r # rs, data''))"

text \<open>The abstract store: a partial map whose writes keep the entry with the larger stamp.\<close>

fun map_exec :: "'v kv_op \<Rightarrow> (string \<rightharpoonup> 'v versioned_value) \<Rightarrow>
    'v kv_ret \<times> (string \<rightharpoonup> 'v versioned_value)" where
  "map_exec (Op_get key) m = (Ret_entry (m key), m)"
| "map_exec (Op_put key v ts n) m =
     (let e = \<lparr>vv_value = v, vv_timestamp = ts, vv_node_id = n\<rparr>;
          wins = (case m key of None \<Rightarrow> True | Some c \<Rightarrow> is_newer_than e c)
      in (Ret_bool wins, if wins then m(key \<mapsto> e) else m))"
| "map_exec (Op_delete key) m = (Ret_bool (m key \<noteq> None), m(key := None))"
| "map_exec Op_key_count m = (Ret_count (card (dom m)), m)"

fun map_run :: "'v kv_op list \<Rightarrow> (string \<rightharpoonup> 'v versioned_value) \<Rightarrow>
    'v kv_ret list \<times> (string \<rightharpoonup> 'v versioned_value)" where
  "map_run [] m = ([], m)"
| "map_run (c # cs) m =
     (let (r, m') = map_exec c m; (rs, m'') = map_run cs m' in (r # rs, m''))"

lemma kv_exec_wf: "kv_wf data \<Longrightarrow> kv_wf (snd (kv_exec c data))"
  using kv_wf_put kv_wf_delete by (cases c) (auto simp: case_prod_beta)

lemma kv_exec_refines:
  assumes "kv_wf data"
  shows "map_exec c (kv_get data) = (fst (kv_exec c data), kv_get (snd (kv_exec c data)))"
proof (cases c)
  case (Op_get key)
  then show ?thesis by simp
next
  case (Op_put key v ts n)
  let ?e = "\<lparr>vv_value = v, vv_timestamp = ts, vv_node_id = n\<rparr>"
  show ?thesis
    unfolding Op_put kv_exec.simps map_exec.simps kv_put_as_entry
    by (auto simp: Let_def case_prod_beta store_simps fun_eq_iff split: option.splits)
next
  case (Op_delete key)
  then show ?thesis by (auto simp: case_prod_beta store_simps fun_eq_iff)
next
  case Op_key_count
  then show ?thesis using assms by (simp add: kv_key_count_dom dom_def)
qed

section \<open>Properties\<close>

text \<open>
  C5. The store implements the abstract last-write-wins map: from an empty store, any sequence of
  \<open>get\<close>, \<open>put\<close>, \<open>delete\<close> and \<open>key_count\<close> calls returns the same results as the map, ends in a
  store with the map's contents, and keeps one entry per key.
\<close>

theorem kv_run_refines_map:
  "map_run cs Map.empty = (fst (kv_run cs kv_init), kv_get (snd (kv_run cs kv_init))) \<and>
   kv_wf (snd (kv_run cs kv_init))"
proof -
  have "map_run cs (kv_get data) = (fst (kv_run cs data), kv_get (snd (kv_run cs data))) \<and>
    kv_wf (snd (kv_run cs data))" if "kv_wf data" for data :: "'a kvstore"
    using that
    by (induction cs arbitrary: data)
      (simp_all add: Let_def case_prod_beta kv_exec_refines kv_exec_wf)
  moreover have "kv_get kv_init = (Map.empty :: string \<Rightarrow> 'a versioned_value option)"
    by (simp add: fun_eq_iff store_simps)
  ultimately show ?thesis by (metis kv_wf_init)
qed

text \<open>A sequence of writes, each with the version it was stamped with.\<close>

definition kv_puts :: "(string \<times> 'v versioned_value) list \<Rightarrow> 'v kvstore \<Rightarrow> 'v kvstore" where
  "kv_puts ws data = fold (\<lambda>w s. snd (kv_put_entry s (fst w) (snd w))) ws data"

text \<open>
  C10. Convergence of replicas: two stores that received the same set of writes, in any order (any
  schedule of threads, any network reordering) and with any repetition, answer every \<open>get\<close> alike,
  provided the writes carry real timestamps and no two different writes to the key share both
  timestamp and node id.
\<close>

theorem kv_replicas_converge:
  assumes "set ws = set ws'"
    and "\<And>e. (key, e) \<in> set ws \<Longrightarrow> stamped e"
    and "\<And>a b. (key, a) \<in> set ws \<Longrightarrow> (key, b) \<in> set ws \<Longrightarrow> stamp a = stamp b \<Longrightarrow> a = b"
  shows "kv_get (kv_puts ws kv_init) key = kv_get (kv_puts ws' kv_init) key"
  unfolding kv_puts_def
  by (rule kvs.puts_converge [OF assms(1)])
    (use assms(2,3) in \<open>force simp: lww_simps\<close>)+

definition example_entry :: "nat \<Rightarrow> rat \<Rightarrow> string \<Rightarrow> nat versioned_value" where
  "example_entry v t n = \<lparr>vv_value = v, vv_timestamp = Fin t, vv_node_id = n\<rparr>"

lemma example_entry_simps [simp]:
  "vv_value (example_entry v t n) = v" "vv_timestamp (example_entry v t n) = Fin t"
  "vv_node_id (example_entry v t n) = n" "stamped (example_entry v t n)"
  "stamp (example_entry v t n) = (Fin t, n)"
  by (simp_all add: example_entry_def stamped_def stamp_def)

theorem kv_replicas_converge_witness:
  "kv_get (kv_puts [(''k'', example_entry 1 1 ''n1''), (''k'', example_entry 2 1 ''n2'')] kv_init) ''k'' =
   kv_get (kv_puts [(''k'', example_entry 2 1 ''n2''), (''k'', example_entry 1 1 ''n1''),
     (''k'', example_entry 2 1 ''n2'')] kv_init) ''k''"
  by (rule kv_replicas_converge) auto

text \<open>
  The store never regresses while nothing is deleted: whatever writes arrive, a key that held
  an entry still holds one, and that one is not older.
\<close>

theorem kv_puts_never_regress:
  assumes "kv_wf data" "kv_get data key = Some c" "stamped c" "\<forall>w \<in> set ws. stamped (snd w)"
  shows "\<exists>c'. kv_get (kv_puts ws data) key = Some c' \<and> stamped c' \<and> stamp c \<le> stamp c'"
  using assms
proof (induction ws arbitrary: data c)
  case Nil
  then show ?case by (simp add: kv_puts_def)
next
  case (Cons w ws)
  let ?data' = "snd (kv_put_entry data (fst w) (snd w))"
  obtain c' where c': "kv_get ?data' key = Some c'" "\<not> is_newer_than c c'"
    using kvs.put_monotone Cons.prems by (metis list.set_intros(1))
  moreover have "stamped c'"
    using c'(1) Cons.prems by (auto simp: store_simps split: if_splits)
  ultimately obtain d where "kv_get (kv_puts ws ?data') key = Some d" "stamped d" "stamp c' \<le> stamp d"
    using Cons.IH [of ?data' c'] Cons.prems by auto
  moreover have "stamp c \<le> stamp c'"
    using c' \<open>stamped c'\<close> Cons.prems(3) by (simp add: lww_simps)
  ultimately show ?case by (auto simp: kv_puts_def)
qed

theorem kv_puts_never_regress_witness:
  "\<exists>c'. kv_get (kv_puts [(''k'', example_entry 2 1 ''n1'')] [(''k'', example_entry 1 5 ''n1'')]) ''k'' = Some c' \<and>
     stamped c' \<and> stamp (example_entry 1 5 ''n1'') \<le> stamp c'"
  by (rule kv_puts_never_regress) (simp_all add: kv_wf_def kv_get_def)

text \<open>
  \<open>delete\<close> leaves no trace of the deleted version: afterwards any write to the key is
  accepted, however old, so a late replicate of an earlier write brings the key back.
\<close>

theorem kv_delete_allows_resurrection:
  "let data' = snd (kv_delete data key) in
     fst (kv_put data' key v ts n) \<and>
     kv_get (snd (kv_put data' key v ts n)) key =
       Some \<lparr>vv_value = v, vv_timestamp = ts, vv_node_id = n\<rparr>"
  by (simp add: Let_def kv_put_as_entry store_simps)

text \<open>
  A NaN timestamp freezes its key: once an entry with a NaN timestamp is stored (the replicate
  endpoint passes the caller's timestamp through), every later write to the key is rejected as
  stale and the store is unchanged.
\<close>

theorem kv_put_nan_frozen:
  assumes "kv_get data key = Some c" "vv_timestamp c = NaN"
  shows "kv_put data key v ts n = (False, data)"
  using assms by (simp add: kv_put_def kv_get_def is_newer_than_def)

theorem kv_put_nan_frozen_witness:
  "kv_put (snd (kv_put kv_init ''k'' (1::nat) NaN ''n1'')) ''k'' 2 (Fin 5) ''n2'' =
     (False, snd (kv_put kv_init ''k'' 1 NaN ''n1''))"
  by (rule kv_put_nan_frozen [where c = "\<lparr>vv_value = 1, vv_timestamp = NaN, vv_node_id = ''n1''\<rparr>"])
    (simp_all add: kv_put_def kv_get_def kv_init_def)

end
