(* ===== verification/KV_Server.thy ===== *)
theory KV_Server
  imports KV_Storage
begin

text \<open>
  \<open>common/server.py\<close> and \<open>leader_follower/follower.py\<close>: the generic HTTP layer every node has.
  Request and response bodies are records, a handler is a function of the node's store, an
  HTTPException is a value, and the app's routes are a table searched in registration order, which
  \<open>replace_route\<close> edits. A follower is this app unchanged.
\<close>

section \<open>Errors a handler raises\<close>

datatype detail =
    Key_not_found string
  | Route_not_found
  | Follower_acks_short int int pyfloat
  | Node_acks_short int int pyfloat
  | Node_responses_short int int pyfloat
  | Quorum_out_of_range string int int
  | Kafka_not_confirmed string
  | Consumer_not_started

record http_exception =
  status_code :: int
  http_detail :: detail

definition http_error :: "int \<Rightarrow> detail \<Rightarrow> http_exception" where
  "http_error code d = \<lparr>status_code = code, http_detail = d\<rparr>"

text \<open>
  What a request comes back with: an HTTPException, an uncaught exception (the framework's bare
  500), or the handler's result with status 200.
\<close>

datatype 'a http_result = Http_error http_exception | Http_crash exn | Http_ok 'a

fun http_status :: "'a http_result \<Rightarrow> int" where
  "http_status (Http_error e) = status_code e"
| "http_status (Http_crash x) = 500"
| "http_status (Http_ok a) = 200"

section \<open>Request and response bodies\<close>

record 'v put_request =
  preq_value :: 'v

record put_response =
  pres_applied :: bool
  pres_timestamp :: pyfloat

record 'v kv_response =
  kres_key :: string
  kres_value :: 'v
  kres_timestamp :: pyfloat
  kres_node_id :: string

record delete_response =
  dres_deleted :: bool

record 'v replicate_request =
  rreq_key :: string
  rreq_value :: 'v
  rreq_timestamp :: pyfloat
  rreq_node_id :: string

record replicate_response =
  rres_applied :: bool

record health_response =
  hres_node_id :: string
  hres_key_count :: nat

section \<open>Handlers\<close>

definition get_key :: "'v kvstore \<Rightarrow> string \<Rightarrow> 'v kv_response http_result" where
  "get_key storage key =
     (case kv_get storage key of
        None \<Rightarrow> Http_error (http_error 404 (Key_not_found key))
      | Some entry \<Rightarrow>
          Http_ok \<lparr>kres_key = key, kres_value = vv_value entry,
            kres_timestamp = vv_timestamp entry, kres_node_id = vv_node_id entry\<rparr>)"

text \<open>\<open>now\<close> is what \<open>time.time()\<close> returned inside the handler.\<close>

definition put_key ::
    "string \<Rightarrow> pyfloat \<Rightarrow> 'v kvstore \<Rightarrow> string \<Rightarrow> 'v put_request \<Rightarrow>
     put_response http_result \<times> 'v kvstore" where
  "put_key node_id now storage key body =
     (let timestamp = now;
          (applied, storage') = kv_put storage key (preq_value body) timestamp node_id
      in (Http_ok \<lparr>pres_applied = applied, pres_timestamp = timestamp\<rparr>, storage'))"

definition delete_key :: "'v kvstore \<Rightarrow> string \<Rightarrow> delete_response http_result \<times> 'v kvstore" where
  "delete_key storage key =
     (let (deleted, storage') = kv_delete storage key
      in (Http_ok \<lparr>dres_deleted = deleted\<rparr>, storage'))"

definition replicate_key ::
    "'v kvstore \<Rightarrow> 'v replicate_request \<Rightarrow> replicate_response http_result \<times> 'v kvstore" where
  "replicate_key storage body =
     (let (applied, storage') =
        kv_put storage (rreq_key body) (rreq_value body) (rreq_timestamp body) (rreq_node_id body)
      in (Http_ok \<lparr>rres_applied = applied\<rparr>, storage'))"

definition health :: "string \<Rightarrow> 'v kvstore \<Rightarrow> health_response http_result" where
  "health node_id storage =
     Http_ok \<lparr>hres_node_id = node_id, hres_key_count = kv_key_count storage\<rparr>"

text \<open>The versioned entry a replicate request carries.\<close>

definition rreq_entry :: "'v replicate_request \<Rightarrow> 'v versioned_value" where
  "rreq_entry body =
     \<lparr>vv_value = rreq_value body, vv_timestamp = rreq_timestamp body, vv_node_id = rreq_node_id body\<rparr>"

lemma replicate_key_entry:
  "replicate_key storage body =
     (let (applied, storage') = kv_put_entry storage (rreq_key body) (rreq_entry body)
      in (Http_ok \<lparr>rres_applied = applied\<rparr>, storage'))"
  by (simp add: replicate_key_def kv_put_entry_def rreq_entry_def)

lemma replicate_key_store [simp]:
  "snd (replicate_key storage body) = snd (kv_put_entry storage (rreq_key body) (rreq_entry body))"
  by (simp add: replicate_key_entry case_prod_beta Let_def)

section \<open>Routes\<close>

text \<open>The handlers a route can name, those of the strategy modules included.\<close>

datatype endpoint =
    Ep_get_key | Ep_put_key | Ep_delete_key | Ep_replicate | Ep_health
  | Ep_put_key_leader
  | Ep_put_key_coordinator | Ep_get_key_coordinator | Ep_internal_get_key | Ep_replicate_delayed
  | Ep_put_key_producer | Ep_producer_health | Ep_get_lag
  | Ep_builtin string

record route =
  route_path :: string
  route_methods :: "string list"
  route_endpoint :: endpoint

definition mk_route :: "string \<Rightarrow> string list \<Rightarrow> endpoint \<Rightarrow> route" where
  "mk_route path methods ep = \<lparr>route_path = path, route_methods = methods, route_endpoint = ep\<rparr>"

definition replace_route :: "route list \<Rightarrow> string \<Rightarrow> string list \<Rightarrow> route list" where
  "replace_route routes path methods =
     filter (\<lambda>r. \<not> (route_path r = path \<and> list_ex (\<lambda>m. m \<in> set methods) (route_methods r))) routes"

text \<open>\<open>@app.get(path)\<close> and its siblings append to the table.\<close>

definition add_route :: "route list \<Rightarrow> string \<Rightarrow> string \<Rightarrow> endpoint \<Rightarrow> route list" where
  "add_route routes path method ep = routes @ [mk_route path [method] ep]"

text \<open>
  Requests go to the first registered route whose path template and methods match. \<open>builtin\<close> are
  the routes the framework itself registers when the app is made (its documentation pages).
\<close>

definition dispatch :: "route list \<Rightarrow> string \<Rightarrow> string \<Rightarrow> endpoint option" where
  "dispatch routes path method =
     map_option route_endpoint
       (List.find (\<lambda>r. route_path r = path \<and> method \<in> set (route_methods r)) routes)"

definition create_app :: "route list \<Rightarrow> route list" where
  "create_app builtin =
     (let r0 = builtin;
          r1 = add_route r0 ''/kv/{key}'' ''GET'' Ep_get_key;
          r2 = add_route r1 ''/kv/{key}'' ''PUT'' Ep_put_key;
          r3 = add_route r2 ''/kv/{key}'' ''DELETE'' Ep_delete_key;
          r4 = add_route r3 ''/internal/replicate'' ''POST'' Ep_replicate
      in add_route r4 ''/health'' ''GET'' Ep_health)"

text \<open>\<open>leader_follower/follower.py\<close>: the app unmodified, over a fresh store.\<close>

definition follower_build_app :: "route list \<Rightarrow> route list \<times> 'v kvstore" where
  "follower_build_app builtin = (create_app builtin, kv_init)"

lemma find_append:
  "List.find P (xs @ ys) = (case List.find P xs of None \<Rightarrow> List.find P ys | Some x \<Rightarrow> Some x)"
  by (induction xs) auto

lemma find_filter_none:
  "(\<And>x. P x \<Longrightarrow> \<not> Q x) \<Longrightarrow> List.find P (filter Q xs) = None"
  by (induction xs) auto

lemma find_filter_same:
  "(\<And>x. P x \<Longrightarrow> Q x) \<Longrightarrow> List.find P (filter Q xs) = List.find P xs"
  by (induction xs) auto

lemma dispatch_add_route:
  "dispatch (add_route routes path method ep) path' method' =
     (case dispatch routes path' method' of
        None \<Rightarrow> if path' = path \<and> method' = method then Some ep else None
      | Some e \<Rightarrow> Some e)"
  by (auto simp: dispatch_def add_route_def mk_route_def find_append split: option.split)

lemma dispatch_replace_route_hit:
  "method \<in> set methods \<Longrightarrow> dispatch (replace_route routes path methods) path method = None"
  by (auto simp: dispatch_def replace_route_def list_ex_iff intro!: find_filter_none)

lemma dispatch_replace_route_other_path:
  "path' \<noteq> path \<Longrightarrow>
   dispatch (replace_route routes path methods) path' method = dispatch routes path' method"
  unfolding dispatch_def replace_route_def by (subst find_filter_same) auto

text \<open>A method shared by no removed route is served as before.\<close>

lemma dispatch_replace_route_single:
  "dispatch (replace_route (add_route routes path method ep) path' methods) q m =
     (case dispatch (replace_route routes path' methods) q m of
        None \<Rightarrow> if path = path' \<and> method \<in> set methods then None
          else if q = path \<and> m = method then Some ep else None
      | Some e \<Rightarrow> Some e)"
  by (auto simp: dispatch_def replace_route_def add_route_def mk_route_def find_append split: option.split)

text \<open>
  The framework's own routes serve none of the paths of the node's surface.
\<close>

definition builtin_disjoint :: "route list \<Rightarrow> bool" where
  "builtin_disjoint builtin \<longleftrightarrow>
     (\<forall>r \<in> set builtin. route_path r \<notin>
        {''/kv/{key}'', ''/internal/replicate'', ''/health'', ''/internal/kv/{key}'', ''/internal/lag''})"

lemma dispatch_builtin:
  "builtin_disjoint builtin \<Longrightarrow>
   path \<in> {''/kv/{key}'', ''/internal/replicate'', ''/health'', ''/internal/kv/{key}'', ''/internal/lag''} \<Longrightarrow>
   dispatch builtin path method = None"
  by (auto simp: dispatch_def builtin_disjoint_def find_None_iff)

lemma dispatch_builtin_replaced:
  "builtin_disjoint builtin \<Longrightarrow>
   path \<in> {''/kv/{key}'', ''/internal/replicate'', ''/health'', ''/internal/kv/{key}'', ''/internal/lag''} \<Longrightarrow>
   dispatch (replace_route builtin path' methods) path method = None"
  by (auto simp: dispatch_def replace_route_def builtin_disjoint_def find_None_iff)

section \<open>A node with the generic surface\<close>

text \<open>One request to a node whose routes are all generic (a follower), and its answer.\<close>

datatype 'v request =
    Req_get string
  | Req_put string "'v put_request" pyfloat
  | Req_delete string
  | Req_replicate "'v replicate_request"
  | Req_health

datatype 'v response =
    Res_get "'v kv_response http_result"
  | Res_put "put_response http_result"
  | Res_delete "delete_response http_result"
  | Res_replicate "replicate_response http_result"
  | Res_health "health_response http_result"

fun serve :: "string \<Rightarrow> 'v request \<Rightarrow> 'v kvstore \<Rightarrow> 'v response \<times> 'v kvstore" where
  "serve node_id (Req_get key) st = (Res_get (get_key st key), st)"
| "serve node_id (Req_put key body now) st =
     (let (r, st') = put_key node_id now st key body in (Res_put r, st'))"
| "serve node_id (Req_delete key) st = (let (r, st') = delete_key st key in (Res_delete r, st'))"
| "serve node_id (Req_replicate body) st =
     (let (r, st') = replicate_key st body in (Res_replicate r, st'))"
| "serve node_id Req_health st = (Res_health (health node_id st), st)"

fun serve_all :: "string \<Rightarrow> 'v request list \<Rightarrow> 'v kvstore \<Rightarrow> 'v kvstore" where
  "serve_all node_id [] st = st"
| "serve_all node_id (r # rs) st = serve_all node_id rs (snd (serve node_id r st))"

lemma serve_wf: "kv_wf st \<Longrightarrow> kv_wf (snd (serve node_id r st))"
  using kv_wf_put kv_wf_delete
  by (cases r) (auto simp: put_key_def delete_key_def replicate_key_def Let_def case_prod_beta)

section \<open>Properties\<close>

text \<open>
  A replicated write arrives as it was sent: after a replicate request that was applied, a
  GET of its key answers 200 with exactly the key, value, timestamp and node id of the request, and
  sending the same request again changes nothing and reports \<open>applied\<close> false.
\<close>

theorem replicate_then_get:
  assumes "replicate_key st body = (Http_ok \<lparr>rres_applied = True\<rparr>, st')"
  shows "get_key st' (rreq_key body) =
      Http_ok \<lparr>kres_key = rreq_key body, kres_value = rreq_value body,
        kres_timestamp = rreq_timestamp body, kres_node_id = rreq_node_id body\<rparr> \<and>
    replicate_key st' body = (Http_ok \<lparr>rres_applied = False\<rparr>, st')"
proof -
  have applied: "fst (kv_put_entry st (rreq_key body) (rreq_entry body))"
    and st': "st' = snd (kv_put_entry st (rreq_key body) (rreq_entry body))"
    using assms by (auto simp: replicate_key_entry Let_def case_prod_beta)
  then have get: "kv_get st' (rreq_key body) = Some (rreq_entry body)"
    by (simp add: store_simps)
  have "kv_put st' (rreq_key body) (rreq_value body) (rreq_timestamp body) (rreq_node_id body) =
    (False, st')"
    using get by (simp add: kv_put_def kv_get_def rreq_entry_def is_newer_than_def feq_def flt_def Let_def)
  with get show ?thesis
    by (simp add: get_key_def replicate_key_def rreq_entry_def)
qed

theorem replicate_then_get_witness:
  "get_key (snd (kv_put kv_init ''k'' (7::nat) (Fin 3) ''n1'')) ''k'' =
     Http_ok \<lparr>kres_key = ''k'', kres_value = 7, kres_timestamp = Fin 3, kres_node_id = ''n1''\<rparr> \<and>
   replicate_key (snd (kv_put kv_init ''k'' (7::nat) (Fin 3) ''n1''))
     \<lparr>rreq_key = ''k'', rreq_value = 7, rreq_timestamp = Fin 3, rreq_node_id = ''n1''\<rparr> =
     (Http_ok \<lparr>rres_applied = False\<rparr>, snd (kv_put kv_init ''k'' (7::nat) (Fin 3) ''n1''))"
  using replicate_then_get [of kv_init
      "\<lparr>rreq_key = ''k'', rreq_value = 7::nat, rreq_timestamp = Fin 3, rreq_node_id = ''n1''\<rparr>"
      "snd (kv_put kv_init ''k'' (7::nat) (Fin 3) ''n1'')"]
  by (simp add: replicate_key_def kv_put_def kv_init_def)

text \<open>
  \<open>replace_route\<close> makes an override effective and nothing else: after it and a new
  registration, a request for that path and method reaches the new handler, and every other path
  still reaches what it reached before; without it the handler registered first would still win.
\<close>

theorem replace_route_overrides:
  assumes "method \<in> set methods"
  shows "dispatch (add_route (replace_route routes path methods) path method ep) path method = Some ep \<and>
    (path' \<noteq> path \<longrightarrow>
       dispatch (add_route (replace_route routes path methods) path method ep) path' method' =
         dispatch routes path' method') \<and>
    (dispatch routes path method = Some old \<longrightarrow>
       dispatch (add_route routes path method ep) path method = Some old)"
  using assms
  by (auto simp: dispatch_add_route dispatch_replace_route_hit dispatch_replace_route_other_path
      split: option.split)

theorem replace_route_overrides_witness:
  "dispatch (add_route (replace_route (create_app []) ''/kv/{key}'' [''PUT'']) ''/kv/{key}'' ''PUT''
       Ep_put_key_leader) ''/kv/{key}'' ''PUT'' = Some Ep_put_key_leader \<and>
   dispatch (add_route (replace_route (create_app []) ''/kv/{key}'' [''PUT'']) ''/kv/{key}'' ''PUT''
       Ep_put_key_leader) ''/health'' ''GET'' = Some Ep_health \<and>
   dispatch (add_route (create_app []) ''/kv/{key}'' ''PUT'' Ep_put_key_leader) ''/kv/{key}'' ''PUT'' =
       Some Ep_put_key"
proof -
  have "dispatch (create_app []) ''/kv/{key}'' ''PUT'' = Some Ep_put_key"
    "dispatch (create_app []) ''/health'' ''GET'' = Some Ep_health"
    by (simp_all add: create_app_def dispatch_def add_route_def mk_route_def)
  then show ?thesis
    using replace_route_overrides [of "''PUT''" "[''PUT'']" "create_app []" "''/kv/{key}''" Ep_put_key_leader
        "''/health''" "''GET''" Ep_put_key] by simp
qed

text \<open>
  Requests for different keys do not interfere: whatever requests a node serves, a GET of a
  key none of them names answers as before.
\<close>

fun request_key :: "'v request \<Rightarrow> string option" where
  "request_key (Req_get key) = Some key"
| "request_key (Req_put key body now) = Some key"
| "request_key (Req_delete key) = Some key"
| "request_key (Req_replicate body) = Some (rreq_key body)"
| "request_key Req_health = None"

theorem serve_other_keys:
  assumes "\<forall>r \<in> set rs. request_key r \<noteq> Some key"
  shows "get_key (serve_all node_id rs st) key = get_key st key"
proof -
  have step: "kv_get (snd (serve node_id r st)) key = kv_get st key"
    if "request_key r \<noteq> Some key" for r and st :: "'a kvstore"
    using that
    by (cases r)
      (auto simp: put_key_def delete_key_def replicate_key_def Let_def case_prod_beta
        kv_put_as_entry store_simps)
  have "kv_get (serve_all node_id rs st) key = kv_get st key"
    using assms by (induction rs arbitrary: st) (simp_all add: step)
  then show ?thesis by (simp add: get_key_def)
qed

theorem serve_other_keys_witness:
  "get_key (serve_all ''n1'' [Req_delete ''a'', Req_put ''b'' \<lparr>preq_value = 3\<rparr> (Fin 2)]
      [(''k'', example_entry 1 1 ''n1'')]) ''k'' =
   get_key [(''k'', example_entry 1 1 ''n1'')] ''k''"
  by (rule serve_other_keys) simp

end
