(* ===== verification/KV_Calls.thy ===== *)
theory KV_Calls
  imports KV_Server
begin

text \<open>
  What the two coordinators (\<open>leader_follower/leader.py\<close>, \<open>leaderless/node.py\<close>) share: the outcome
  of one HTTP call to a peer, the reading of its body, and \<open>asyncio.wait\<close> with
  \<open>return_when=FIRST_COMPLETED\<close>. Tasks are numbered by the position of their peer.
\<close>

section \<open>The outcome of a call to a peer\<close>

text \<open>
  A response body is bytes \<open>json.loads\<close> cannot decode as text, text that is not JSON, JSON of
  another shape than the response model, or a well-formed response. A call ends in an
  \<open>httpx.HTTPError\<close>, in another exception, or in a response with a status code.
\<close>

datatype 'b reply_body = Body_undecodable | Body_not_json | Body_bad_schema | Body_ok 'b

datatype 'b call_result = Call_httpx_error | Call_raises exn | Call_response int "'b reply_body"

text \<open>\<open>resp.raise_for_status()\<close> lets only 2xx through.\<close>

definition is_success :: "int \<Rightarrow> bool" where
  "is_success status \<longleftrightarrow> 200 \<le> status \<and> status < 300"

text \<open>
  \<open>Model.model_validate(resp.json())\<close> under \<open>except (json.JSONDecodeError, ValidationError)\<close>: \<open>None\<close>
  where one of the two is caught. \<open>resp.json()\<close> decodes the bytes before it parses them, and the
  UnicodeDecodeError of that step is neither of the two.
\<close>

fun parse_reply :: "'b reply_body \<Rightarrow> exn + 'b option" where
  "parse_reply Body_undecodable = Inl UnicodeDecodeErr"
| "parse_reply Body_not_json = Inr None"
| "parse_reply Body_bad_schema = Inr None"
| "parse_reply (Body_ok b) = Inr (Some b)"

section \<open>asyncio.wait\<close>

text \<open>
  What one \<open>await asyncio.wait(pending, timeout, FIRST_COMPLETED)\<close> does: it returns some of the
  pending tasks as done (none when its own timeout fires), in the order the program then iterates
  over them, or the awaiting coroutine is cancelled inside it.
\<close>

datatype wait_event = Completed "nat list" | Cancelled

definition asyncio_wait :: "nat list \<Rightarrow> nat list \<Rightarrow> nat list \<times> nat list" where
  "asyncio_wait pending completed =
     (let done = filter (\<lambda>t. t \<in> set pending) (remdups completed)
      in (done, filter (\<lambda>t. t \<notin> set done) pending))"

text \<open>How one pass through a collection loop ends: next pass, \<open>break\<close>, or an exception.\<close>

datatype 'a round = Round_next "nat list" 'a | Round_break "nat list" 'a | Round_raise exn "nat list"

lemma asyncio_wait_partition:
  assumes "asyncio_wait pending completed = (done, rest)"
  shows "set done \<union> set rest = set pending" "set done \<inter> set rest = {}" "distinct done"
    "distinct pending \<Longrightarrow> distinct rest" "set done \<subseteq> set completed"
  using assms by (auto simp: asyncio_wait_def Let_def)

lemma asyncio_wait_shrinks:
  assumes "asyncio_wait pending completed = (done, rest)" "done \<noteq> []"
  shows "length rest < length pending"
proof -
  obtain t where "t \<in> set done" using assms(2) by (cases "done") auto
  then have "t \<in> set pending" "\<not> (t \<notin> set done)"
    using asyncio_wait_partition(1) [OF assms(1)] by auto
  then have "length (filter (\<lambda>t. t \<notin> set done) pending) < length pending"
    by (rule length_filter_less)
  then show ?thesis using assms(1) by (auto simp: asyncio_wait_def Let_def)
qed

lemma asyncio_wait_length:
  assumes "asyncio_wait pending completed = (done, rest)" "distinct pending"
  shows "length done + length rest = length pending"
proof -
  have "length done + length rest = card (set done) + card (set rest)"
    using asyncio_wait_partition [OF assms(1)] assms(2) by (simp add: distinct_card)
  also have "\<dots> = card (set pending)"
    using asyncio_wait_partition [OF assms(1)] by (metis List.finite_set card_Un_disjoint)
  finally show ?thesis using assms(2) by (simp add: distinct_card)
qed

lemma asyncio_wait_nothing [simp]: "asyncio_wait pending [] = ([], pending)"
  by (simp add: asyncio_wait_def)

section \<open>The collection loop\<close>

text \<open>
  The loop both coordinators run over their pending calls: \<open>while pending and size(acc) < needed\<close>,
  compute the time left, stop if there is none, wait, stop if nothing was done, absorb the results
  of the done tasks (\<open>task.result()\<close> raises what the task raised). The environment \<open>env\<close> gives, for
  the pass number \<open>i\<close>, the reading of \<open>loop.time()\<close> and what the wait does.
\<close>

definition wait_round ::
    "(nat list \<Rightarrow> 'a \<Rightarrow> exn + 'a) \<Rightarrow> pyfloat \<Rightarrow> wait_event \<Rightarrow> nat list \<Rightarrow> 'a \<Rightarrow> 'a round" where
  "wait_round absorb remaining ev pending acc =
     (if fle remaining (Fin 0) then Round_break pending acc
      else case ev of
          Cancelled \<Rightarrow> Round_raise CancelledErr pending
        | Completed ts \<Rightarrow>
            (let (done, pending') = asyncio_wait pending ts
             in if done = [] then Round_break pending' acc
                else case absorb done acc of
                    Inl e \<Rightarrow> Round_raise e pending'
                  | Inr acc' \<Rightarrow> Round_next pending' acc'))"

lemma wait_round_cases:
  assumes "wait_round absorb remaining ev pending acc = Round_next pending' acc'"
  obtains ts dn where "ev = Completed ts" "asyncio_wait pending ts = (dn, pending')"
    "dn \<noteq> []" "absorb dn acc = Inr acc'"
  using assms
  by (auto simp: wait_round_def Let_def case_prod_beta prod_eq_iff
      split: if_splits wait_event.splits sum.splits)

lemma wait_round_break:
  "wait_round absorb remaining ev pending acc = Round_break pending' acc' \<Longrightarrow>
   pending' = pending \<and> acc' = acc"
  by (auto simp: wait_round_def Let_def asyncio_wait_def filter_empty_conv
      split: if_splits wait_event.splits sum.splits)

lemma wait_round_raise:
  assumes "wait_round absorb remaining ev pending acc = Round_raise e pending'" "distinct pending"
  shows "distinct pending' \<and> set pending' \<subseteq> set pending"
proof (cases "\<exists>ts. asyncio_wait pending ts = (fst (asyncio_wait pending ts), pending')")
  case True
  then show ?thesis using asyncio_wait_partition assms(2) by blast
next
  case False
  with assms show ?thesis
    by (auto simp: wait_round_def Let_def case_prod_beta split: if_splits wait_event.splits sum.splits)
      (metis prod.collapse)+
qed

function wait_loop ::
    "(nat list \<Rightarrow> 'a \<Rightarrow> exn + 'a) \<Rightarrow> ('a \<Rightarrow> int) \<Rightarrow> (nat \<Rightarrow> pyfloat \<times> wait_event) \<Rightarrow> pyfloat \<Rightarrow> int \<Rightarrow>
     nat \<Rightarrow> nat list \<Rightarrow> 'a \<Rightarrow> (exn + 'a) \<times> nat list" where
  "wait_loop absorb sz env deadline needed i pending acc =
     (if pending \<noteq> [] \<and> sz acc < needed
      then case wait_round absorb (fsub deadline (fst (env i))) (snd (env i)) pending acc of
          Round_next pending' acc' \<Rightarrow> wait_loop absorb sz env deadline needed (Suc i) pending' acc'
        | Round_break pending' acc' \<Rightarrow> (Inr acc', pending')
        | Round_raise e pending' \<Rightarrow> (Inl e, pending')
      else (Inr acc, pending))"
  by pat_completeness auto
termination
  by (relation "measure (\<lambda>(absorb, sz, env, deadline, needed, i, pending, acc). length pending)")
    (auto elim!: wait_round_cases dest: asyncio_wait_shrinks)

declare wait_loop.simps [simp del]

lemma wait_loop_enough:
  "pending = [] \<or> needed \<le> sz acc \<Longrightarrow>
   wait_loop absorb sz env deadline needed i pending acc = (Inr acc, pending)"
  by (subst wait_loop.simps) auto

text \<open>
  Two loops whose accumulators correspond behave alike: a functional simulation, used where one
  loop counts what the other collects.
\<close>

fun map_round :: "('a \<Rightarrow> 'b) \<Rightarrow> 'a round \<Rightarrow> 'b round" where
  "map_round g (Round_next p acc) = Round_next p (g acc)"
| "map_round g (Round_break p acc) = Round_break p (g acc)"
| "map_round g (Round_raise e p) = Round_raise e p"

lemma wait_round_simulates:
  assumes "\<And>ts acc. absorb' ts (g acc) = map_sum id g (absorb ts acc)"
  shows "wait_round absorb' remaining ev pending (g acc) = map_round g (wait_round absorb remaining ev pending acc)"
  by (auto simp: wait_round_def assms Let_def case_prod_beta split: wait_event.splits sum.splits)

lemma wait_loop_simulates:
  assumes "\<And>ts acc. absorb' ts (g acc) = map_sum id g (absorb ts acc)" "\<And>acc. sz' (g acc) = sz acc"
  shows "wait_loop absorb' sz' env deadline needed i pending (g acc) =
    map_prod (map_sum id g) id (wait_loop absorb sz env deadline needed i pending acc)"
proof (induction "length pending" arbitrary: i pending acc rule: less_induct)
  case less
  let ?r = "wait_round absorb (fsub deadline (fst (env i))) (snd (env i)) pending acc"
  have sim: "wait_round absorb' (fsub deadline (fst (env i))) (snd (env i)) pending (g acc) = map_round g ?r"
    by (rule wait_round_simulates) (rule assms(1))
  show ?case
  proof (cases ?r)
    case (Round_next p a)
    then have "length p < length pending"
      by (auto elim!: wait_round_cases dest: asyncio_wait_shrinks)
    from less.hyps [OF this] Round_next sim show ?thesis
      by (simp add: wait_loop.simps [of absorb' sz' env deadline needed i pending]
          wait_loop.simps [of absorb sz env deadline needed i pending] assms(2))
  qed (use sim in \<open>simp_all add: wait_loop.simps [of absorb' sz' env deadline needed i pending]
        wait_loop.simps [of absorb sz env deadline needed i pending] assms(2)\<close>)
qed

text \<open>
  What the waits report in time. Pass \<open>j\<close> of a loop that begins with pass \<open>i\<close> over the tasks \<open>P\<close> is reached
  with time left and wakes for a task if that holds of it and of every pass before it: the clock was
  before the deadline, and the wait reported a task of \<open>P\<close> that no earlier pass had reported.
\<close>

definition pass_batch :: "(nat \<Rightarrow> pyfloat \<times> wait_event) \<Rightarrow> nat \<Rightarrow> nat set" where
  "pass_batch env j = (case snd (env j) of Completed ts \<Rightarrow> set ts | Cancelled \<Rightarrow> {})"

definition open_pass :: "(nat \<Rightarrow> pyfloat \<times> wait_event) \<Rightarrow> pyfloat \<Rightarrow> nat \<Rightarrow> nat set \<Rightarrow> nat \<Rightarrow> bool" where
  "open_pass env deadline i P j \<longleftrightarrow> i \<le> j \<and>
     (\<forall>k \<in> {i..j}. \<not> fle (fsub deadline (fst (env k))) (Fin 0) \<and>
        P \<inter> pass_batch env k - (\<Union>l \<in> {i..<k}. pass_batch env l) \<noteq> {})"

definition in_time :: "(nat \<Rightarrow> pyfloat \<times> wait_event) \<Rightarrow> pyfloat \<Rightarrow> nat \<Rightarrow> nat set \<Rightarrow> nat set" where
  "in_time env deadline i P = {t \<in> P. \<exists>j. open_pass env deadline i P j \<and> t \<in> pass_batch env j}"

lemma open_pass_first:
  "open_pass env deadline i P i \<longleftrightarrow> \<not> fle (fsub deadline (fst (env i))) (Fin 0) \<and> P \<inter> pass_batch env i \<noteq> {}"
  by (simp add: open_pass_def)

lemma open_pass_earlier:
  assumes "open_pass env deadline i P j"
  shows "open_pass env deadline i P i"
proof -
  have "i \<in> {i..j}" using assms by (simp add: open_pass_def)
  then have "\<not> fle (fsub deadline (fst (env i))) (Fin 0)" "P \<inter> pass_batch env i - (\<Union>l \<in> {i..<i}. pass_batch env l) \<noteq> {}"
    using assms unfolding open_pass_def by blast+
  then show ?thesis by (simp add: open_pass_first)
qed

lemma open_pass_later:
  assumes "open_pass env deadline i P i" "i < j"
  shows "open_pass env deadline i P j \<longleftrightarrow> open_pass env deadline (Suc i) (P - pass_batch env i) j"
proof -
  let ?left = "\<lambda>k. \<not> fle (fsub deadline (fst (env k))) (Fin 0)"
  let ?new = "\<lambda>i P k. P \<inter> pass_batch env k - (\<Union>l \<in> {i..<k}. pass_batch env l)"
  have new: "?new i P k = ?new (Suc i) (P - pass_batch env i) k" if "k \<in> {Suc i..j}" for k
  proof -
    have "{i..<k} = insert i {Suc i..<k}" using that by auto
    then have "(\<Union>l \<in> {i..<k}. pass_batch env l) = (\<Union>l \<in> insert i {Suc i..<k}. pass_batch env l)" by (rule arg_cong)
    then show ?thesis unfolding UN_insert by blast
  qed
  have "(\<forall>k \<in> {i..j}. ?left k \<and> ?new i P k \<noteq> {}) \<longleftrightarrow> (\<forall>k \<in> insert i {Suc i..j}. ?left k \<and> ?new i P k \<noteq> {})"
    using assms(2) by (subst atLeastAtMost_insertL) simp_all
  also have "\<dots> \<longleftrightarrow> (\<forall>k \<in> {Suc i..j}. ?left k \<and> ?new i P k \<noteq> {})"
    using assms(1) by (simp add: open_pass_first)
  also have "\<dots> \<longleftrightarrow> (\<forall>k \<in> {Suc i..j}. ?left k \<and> ?new (Suc i) (P - pass_batch env i) k \<noteq> {})"
    by (intro ball_cong refl) (simp only: new)
  finally show ?thesis using assms(2) by (simp add: open_pass_def)
qed

lemma in_time_stop: "\<not> open_pass env deadline i P i \<Longrightarrow> in_time env deadline i P = {}"
  using open_pass_earlier by (auto simp: in_time_def)

lemma in_time_pass:
  assumes "open_pass env deadline i P i"
  shows "in_time env deadline i P = (P \<inter> pass_batch env i) \<union> in_time env deadline (Suc i) (P - pass_batch env i)"
proof (intro set_eqI iffI)
  fix t assume "t \<in> in_time env deadline i P"
  then obtain j where j: "t \<in> P" "open_pass env deadline i P j" "t \<in> pass_batch env j"
    by (auto simp: in_time_def)
  then have "i = j \<or> i < j" by (auto simp: open_pass_def)
  with j show "t \<in> (P \<inter> pass_batch env i) \<union> in_time env deadline (Suc i) (P - pass_batch env i)"
    using open_pass_later [OF assms] by (auto simp: in_time_def)
next
  fix t assume t: "t \<in> (P \<inter> pass_batch env i) \<union> in_time env deadline (Suc i) (P - pass_batch env i)"
  then consider "t \<in> P \<inter> pass_batch env i"
    | j where "t \<in> P" "open_pass env deadline (Suc i) (P - pass_batch env i) j" "t \<in> pass_batch env j"
    by (auto simp: in_time_def)
  then show "t \<in> in_time env deadline i P"
  proof cases
    case 1
    with assms show ?thesis by (auto simp: in_time_def)
  next
    case 2
    then have "i < j" by (simp add: open_pass_def)
    with 2 show ?thesis using open_pass_later [OF assms] by (auto simp: in_time_def)
  qed
qed

text \<open>Two tasks, each reported by its own pass, of which the second begins after the deadline.\<close>

lemma late_pass: "in_time (\<lambda>i. (Fin (of_nat (2 * i + 1)), Completed [i])) (Fin 2) 0 {0..<2} = {0}"
  by (auto simp: in_time_pass in_time_stop open_pass_first pass_batch_def)

text \<open>
  The contract of what a loop absorbs: each task has a weight, or raises; absorbing done tasks none
  of which raises succeeds, and absorbing adds up their weights. Weights may be counts or multisets
  of collected values. Under this contract the result of the loop is accounted for exactly.
\<close>

locale absorber =
  fixes absorb :: "nat list \<Rightarrow> 'a \<Rightarrow> exn + 'a"
    and total :: "'a \<Rightarrow> 'm::comm_monoid_add"
    and weight :: "nat \<Rightarrow> 'm"
    and raises :: "nat \<Rightarrow> bool"
  assumes absorb_total: "distinct ts \<Longrightarrow> absorb ts acc = Inr acc' \<Longrightarrow>
      total acc' = total acc + (\<Sum>t \<in> set ts. weight t)"
    and absorb_ok: "(\<And>t. t \<in> set ts \<Longrightarrow> \<not> raises t) \<Longrightarrow> \<exists>acc'. absorb ts acc = Inr acc'"
begin

lemma round_next:
  assumes "wait_round absorb remaining ev pending acc = Round_next pending' acc'"
    and "distinct pending"
  shows "distinct pending' \<and> set pending' \<subseteq> set pending \<and> length pending' < length pending \<and>
    total acc' = total acc + (\<Sum>t \<in> set pending - set pending'. weight t)"
proof -
  obtain ts dn where w: "asyncio_wait pending ts = (dn, pending')" and d: "dn \<noteq> []"
    and a: "absorb dn acc = Inr acc'"
    using assms(1) by (elim wait_round_cases)
  note part = asyncio_wait_partition [OF w]
  have "set pending - set pending' = set dn" using part by auto
  then show ?thesis
    using part assms(2) asyncio_wait_shrinks [OF w d] absorb_total [OF part(3) a] by auto
qed

lemma loop_sound:
  assumes "wait_loop absorb sz env deadline needed i pending acc = (Inr acc', left)"
    and "distinct pending"
  shows "distinct left \<and> set left \<subseteq> set pending \<and>
    total acc' = total acc + (\<Sum>t \<in> set pending - set left. weight t)"
  using assms
proof (induction "length pending" arbitrary: i pending acc rule: less_induct)
  case less
  show ?case
  proof (cases "pending \<noteq> [] \<and> sz acc < needed")
    case False
    with less.prems show ?thesis by (auto simp: wait_loop.simps [of absorb])
  next
    case True
    define r where "r = wait_round absorb (fsub deadline (fst (env i))) (snd (env i)) pending acc"
    have eq: "wait_loop absorb sz env deadline needed i pending acc =
      (case r of Round_next p a \<Rightarrow> wait_loop absorb sz env deadline needed (Suc i) p a
        | Round_break p a \<Rightarrow> (Inr a, p) | Round_raise e p \<Rightarrow> (Inl e, p))"
      using True by (simp add: wait_loop.simps [of absorb sz env deadline needed i] r_def)
    show ?thesis
    proof (cases r)
      case (Round_next p a)
      note n = round_next [OF Round_next [unfolded r_def] less.prems(2)]
      have "wait_loop absorb sz env deadline needed (Suc i) p a = (Inr acc', left)"
        using eq Round_next less.prems(1) by simp
      from less.hyps [OF _ this] n
      have "distinct left" "set left \<subseteq> set p"
        and total': "total acc' = total a + (\<Sum>t \<in> set p - set left. weight t)" by auto
      moreover have "(\<Sum>t \<in> set pending - set left. weight t) =
        (\<Sum>t \<in> set pending - set p. weight t) + (\<Sum>t \<in> set p - set left. weight t)"
        using n \<open>set left \<subseteq> set p\<close>
        by (subst sum.union_disjoint [symmetric]) (auto intro!: sum.cong)
      ultimately show ?thesis using n by (auto simp: add.assoc)
    next
      case (Round_break p a)
      have "p = pending" "a = acc"
        using wait_round_break [of absorb] Round_break by (metis r_def)+
      with eq Round_break less.prems show ?thesis by auto
    next
      case (Round_raise e p)
      with eq less.prems show ?thesis by simp
    qed
  qed
qed

end

text \<open>A loop that counts: a task weighs one if it is good, and the loop stops on that count.\<close>

locale counting_absorber = absorber absorb total weight raises
  for absorb :: "nat list \<Rightarrow> 'a \<Rightarrow> exn + 'a" and total :: "'a \<Rightarrow> int" and weight raises +
  fixes good :: "nat \<Rightarrow> bool"
  assumes weight_good: "weight t = (if good t then 1 else 0)"
begin

lemma sum_weight: "finite A \<Longrightarrow> (\<Sum>t \<in> A. weight t) = int (card {t \<in> A. good t})"
  by (simp add: weight_good sum.If_cases Int_def)

lemma loop_counts:
  assumes "wait_loop absorb sz env deadline needed i pending acc = (Inr acc', left)"
    and "distinct pending"
  shows "distinct left \<and> set left \<subseteq> set pending \<and>
    total acc' = total acc + int (card {t \<in> set pending - set left. good t})"
  using loop_sound [OF assms] by (simp add: sum_weight)

text \<open>
  The outcome is decided by the good tasks reported in time, if none of these raises and the loop is not
  cancelled.
\<close>

lemma loop_in_time:
  assumes "distinct pending" "\<And>j. snd (env j) \<noteq> Cancelled"
    and "\<And>t. t \<in> in_time env deadline i (set pending) \<Longrightarrow> \<not> raises t"
  shows "\<exists>acc' left. wait_loop absorb total env deadline needed i pending acc = (Inr acc', left) \<and>
    (needed \<le> total acc' \<longleftrightarrow>
     needed \<le> total acc + int (card {t \<in> in_time env deadline i (set pending). good t}))"
  using assms
proof (induction "length pending" arbitrary: i pending acc rule: less_induct)
  case less
  let ?In = "in_time env deadline i (set pending)"
  show ?case
  proof (cases "pending \<noteq> [] \<and> total acc < needed")
    case False
    then show ?thesis by (auto simp: wait_loop_enough in_time_def)
  next
    case True
    obtain ts where ts: "snd (env i) = Completed ts" using less.prems(2) by (metis wait_event.exhaust)
    obtain dn rest where w: "asyncio_wait pending ts = (dn, rest)" by fastforce
    have dn: "set dn = set pending \<inter> pass_batch env i" "set rest = set pending - pass_batch env i"
      using w by (auto simp: asyncio_wait_def pass_batch_def ts Let_def)
    note part = asyncio_wait_partition [OF w]
    show ?thesis
    proof (cases "open_pass env deadline i (set pending) i")
      case True
      then have "dn \<noteq> []" "set dn \<subseteq> ?In" using dn(1) by (auto simp: open_pass_first in_time_pass)
      then obtain a where a: "absorb dn acc = Inr a"
        using absorb_ok [of dn acc] less.prems(3) by blast
      have "wait_round absorb (fsub deadline (fst (env i))) (snd (env i)) pending acc = Round_next rest a"
        using True \<open>dn \<noteq> []\<close> ts w a by (simp add: wait_round_def open_pass_first)
      then have step: "wait_loop absorb total env deadline needed i pending acc =
          wait_loop absorb total env deadline needed (Suc i) rest a"
        using \<open>pending \<noteq> [] \<and> total acc < needed\<close> by (subst wait_loop.simps) simp
      have In: "?In = set dn \<union> in_time env deadline (Suc i) (set rest)"
        using in_time_pass [OF True] dn by simp
      obtain acc' left where IH: "wait_loop absorb total env deadline needed (Suc i) rest a = (Inr acc', left)"
        "needed \<le> total acc' \<longleftrightarrow>
         needed \<le> total a + int (card {t \<in> in_time env deadline (Suc i) (set rest). good t})"
        using less.hyps [OF asyncio_wait_shrinks [OF w \<open>dn \<noteq> []\<close>], of "Suc i" a] less.prems part(4) In by blast
      have "{t \<in> ?In. good t} = {t \<in> set dn. good t} \<union> {t \<in> in_time env deadline (Suc i) (set rest). good t}"
        unfolding In by blast
      moreover have "{t \<in> set dn. good t} \<inter> {t \<in> in_time env deadline (Suc i) (set rest). good t} = {}"
        using part(2) by (auto simp: in_time_def)
      ultimately have "card {t \<in> ?In. good t} =
          card {t \<in> set dn. good t} + card {t \<in> in_time env deadline (Suc i) (set rest). good t}"
        by (simp add: card_Un_disjoint in_time_def)
      moreover have "total a = total acc + int (card {t \<in> set dn. good t})"
        using absorb_total [OF part(3) a] by (simp add: sum_weight)
      ultimately show ?thesis using step IH by (simp add: add.assoc)
    next
      case False
      then have "fle (fsub deadline (fst (env i))) (Fin 0) \<or> dn = []"
        using dn(1) by (auto simp: open_pass_first)
      then have "\<exists>rest. wait_round absorb (fsub deadline (fst (env i))) (snd (env i)) pending acc = Round_break rest acc"
        using ts w by (auto simp: wait_round_def)
      then show ?thesis
        using \<open>pending \<noteq> [] \<and> total acc < needed\<close> in_time_stop [OF False]
        by (auto simp: wait_loop.simps [of absorb total env deadline needed i])
    qed
  qed
qed

end

end
