(* ===== verification/KV_Config.thy ===== *)
theory KV_Config
  imports KV_Prelude
begin

text \<open>
  \<open>common/config.py\<close>, \<open>common/cli.py\<close> and \<open>common/replication_client.py\<close>: the field validation
  helpers of the three cluster configurations, the identity flags every node process takes, and
  the timeouts and limits of the client the nodes call each other with.
\<close>

section \<open>Field validation\<close>

definition require_positive :: "pyfloat \<Rightarrow> string \<Rightarrow> exn + unit" where
  "require_positive v name = (if fle v (Fin 0) then Inl (NotPositive name v) else Inr ())"

definition require_in_range :: "int \<Rightarrow> string \<Rightarrow> int \<Rightarrow> int \<Rightarrow> string \<Rightarrow> exn + unit" where
  "require_in_range v name lo hi hi_label =
     (if \<not> (lo \<le> v \<and> v \<le> hi) then Inl (NotInRange name v lo hi hi_label) else Inr ())"

definition require_nonempty_str :: "string \<Rightarrow> string \<Rightarrow> exn + string" where
  "require_nonempty_str v name =
     (let stripped = py_strip v in if stripped = [] then Inl (EmptyStr name) else Inr stripped)"

lemma require_in_range_Inr [simp]:
  "require_in_range v name lo hi l = Inr u \<longleftrightarrow> lo \<le> v \<and> v \<le> hi"
  by (simp add: require_in_range_def)

lemma require_positive_Inr [simp]:
  "require_positive v name = Inr u \<longleftrightarrow> \<not> fle v (Fin 0)"
  by (simp add: require_positive_def)

section \<open>Identity flags of a node process\<close>

text \<open>
  The environment variables read when the parser is built, and the flags of one command line
  (\<open>None\<close> where the flag is absent). A missing required flag and a flag argparse cannot convert
  are usage errors.
\<close>

record node_env =
  env_node_id :: "string option"
  env_host :: "string option"
  env_port :: "string option"

record identity_flags =
  flag_node_id :: "string option"
  flag_host :: "string option"
  flag_port :: "string option"

record node_identity =
  id_node_id :: string
  id_host :: string
  id_port :: int

definition usage_error :: "string \<Rightarrow> exn" where
  "usage_error flag = SystemExitErr flag"

text \<open>
  The defaults are computed first (so an unreadable \<open>PORT\<close> fails even when \<open>--port\<close> is given),
  then the command line is read against them.
\<close>

definition port_default :: "int \<Rightarrow> node_env \<Rightarrow> exn + int" where
  "port_default default_port env = (case env_port env of None \<Rightarrow> Inr default_port | Some p \<Rightarrow> py_int_of_str p)"

definition add_node_identity_args ::
    "int \<Rightarrow> node_env \<Rightarrow> identity_flags \<Rightarrow> exn + node_identity" where
  "add_node_identity_args default_port env flags =
     bind_exn (port_default default_port env)
       (\<lambda>port_default.
          let node_id_default = env_node_id env;
              node_id_required = (env_node_id env = None);
              host_default = (case env_host env of None \<Rightarrow> ''0.0.0.0'' | Some h \<Rightarrow> h)
          in bind_exn
               (case flag_port flags of
                  None \<Rightarrow> Inr port_default
                | Some p \<Rightarrow>
                    (case py_int_of_str p of Inl _ \<Rightarrow> Inl (usage_error ''--port'') | Inr n \<Rightarrow> Inr n))
               (\<lambda>port.
                  case (case flag_node_id flags of None \<Rightarrow> node_id_default | Some i \<Rightarrow> Some i) of
                    None \<Rightarrow> Inl (usage_error ''--node-id'')
                  | Some i \<Rightarrow>
                      Inr \<lparr>id_node_id = i,
                        id_host = (case flag_host flags of None \<Rightarrow> host_default | Some h \<Rightarrow> h),
                        id_port = port\<rparr>))"

section \<open>The client for node-to-node calls\<close>

definition CLIENT_MAX_CONNECTIONS :: int where
  "CLIENT_MAX_CONNECTIONS = 500"

definition CLIENT_MAX_KEEPALIVE_CONNECTIONS :: int where
  "CLIENT_MAX_KEEPALIVE_CONNECTIONS = 100"

definition POOL_TIMEOUT_FRACTION :: rat where
  "POOL_TIMEOUT_FRACTION = 1 / 4"

text \<open>
  Multiplication of a float by a positive constant; the fraction used is a power of two, so the
  result is exact for finite timeouts.
\<close>

fun fscale :: "rat \<Rightarrow> pyfloat \<Rightarrow> pyfloat" where
  "fscale c (Fin a) = Fin (c * a)"
| "fscale c x = x"

record replication_client =
  rc_connect_timeout :: pyfloat
  rc_read_timeout :: pyfloat
  rc_write_timeout :: pyfloat
  rc_pool_timeout :: pyfloat
  rc_max_connections :: int
  rc_max_keepalive_connections :: int

definition build_replication_client :: "pyfloat \<Rightarrow> replication_client" where
  "build_replication_client timeout_seconds =
     \<lparr>rc_connect_timeout = timeout_seconds, rc_read_timeout = timeout_seconds,
      rc_write_timeout = timeout_seconds,
      rc_pool_timeout = fscale POOL_TIMEOUT_FRACTION timeout_seconds,
      rc_max_connections = CLIENT_MAX_CONNECTIONS,
      rc_max_keepalive_connections = CLIENT_MAX_KEEPALIVE_CONNECTIONS\<rparr>"

section \<open>Properties\<close>

text \<open>
  \<open>require_positive\<close> rejects every number that is zero or below, but lets NaN through: a
  configuration with \<open>timeout_seconds: .nan\<close> is accepted.
\<close>

theorem require_positive_accepts:
  "require_positive v name = Inr () \<longleftrightarrow> flt (Fin 0) v \<or> v = NaN"
  by (cases v) (auto simp: fle_def flt_def not_le)

text \<open>
  \<open>require_nonempty_str\<close> returns a non-empty string with no whitespace at either end, and is
  idempotent: validating its own result returns it unchanged.
\<close>

theorem require_nonempty_str_result:
  assumes "require_nonempty_str v name = Inr s"
  shows "s \<noteq> [] \<and> \<not> py_isspace (hd s) \<and> \<not> py_isspace (last s) \<and>
    require_nonempty_str s name' = Inr s"
proof -
  have s: "s = py_strip v" "s \<noteq> []"
    using assms by (auto simp: require_nonempty_str_def Let_def split: if_splits)
  then have ends: "\<not> py_isspace (hd s)" "\<not> py_isspace (last s)"
    using py_strip_ends [of v] by simp_all
  then have "py_strip s = s"
    using s(2) by (simp add: py_strip_def dropWhile_hd hd_rev)
  with s ends show ?thesis by (simp add: require_nonempty_str_def)
qed

theorem require_nonempty_str_result_witness:
  "''kv lab'' \<noteq> [] \<and> \<not> py_isspace (hd ''kv lab'') \<and> \<not> py_isspace (last ''kv lab'') \<and>
   require_nonempty_str ''kv lab'' ''topic'' = Inr ''kv lab''"
  by (rule require_nonempty_str_result [where v = "'' kv lab  ''" and name = "''topic''"])
    (simp add: require_nonempty_str_def py_strip_def py_isspace_def Let_def)

text \<open>
  The identity flags: a command line flag always wins over the environment, and the process
  gets an identity exactly when a node id is given by either and every port given is readable.
\<close>

theorem add_node_identity_args_result:
  "add_node_identity_args default_port env flags = Inr ident \<longleftrightarrow>
    (case flag_node_id flags of None \<Rightarrow> env_node_id env | Some i \<Rightarrow> Some i) = Some (id_node_id ident) \<and>
    (case flag_host flags of
       None \<Rightarrow> (case env_host env of None \<Rightarrow> ''0.0.0.0'' | Some h \<Rightarrow> h) | Some h \<Rightarrow> h) = id_host ident \<and>
    (\<exists>p. (case env_port env of None \<Rightarrow> Inr default_port | Some s \<Rightarrow> py_int_of_str s) = Inr p \<and>
      (case flag_port flags of None \<Rightarrow> Inr p | Some s \<Rightarrow> py_int_of_str s) = Inr (id_port ident))"
  by (cases ident; cases "env_port env"; cases "flag_port flags")
    (auto simp: add_node_identity_args_def port_default_def bind_exn_Inr_iff Let_def
      split: option.splits sum.splits)

end
