(* ===== verification/KV_Leaderless.thy ===== *)
theory KV_Leaderless
  imports KV_Calls KV_Config
begin

text \<open>
  \<open>leaderless/node.py\<close>: the cluster configuration, the \<open>QuorumCoordinator\<close> that fans writes and
  reads out to peers, and the two coordinator handlers of a node. A peer's task is numbered by its
  position among the peers contacted.
\<close>

section \<open>Cluster configuration\<close>

record node =
  node_host :: pyval
  node_port :: int

definition node_replicate_url :: "(pyval \<Rightarrow> string) \<Rightarrow> node \<Rightarrow> string" where
  "node_replicate_url fmt n =
     ''http://'' @ fmt (node_host n) @ '':'' @ py_str_of_int (node_port n) @ ''/internal/replicate''"

definition internal_read_url :: "(pyval \<Rightarrow> string) \<Rightarrow> node \<Rightarrow> string \<Rightarrow> string" where
  "internal_read_url fmt n key =
     ''http://'' @ fmt (node_host n) @ '':'' @ py_str_of_int (node_port n) @ ''/internal/kv/'' @ key"

text \<open>
  The key goes into the URL as it is. What httpx and the peer's server make of a URL is theirs to say:
  \<open>ur_key\<close> gives the key that the peer's handler is called with, \<open>None\<close> where no route matches. What the code
  relies on is that a key of unreserved characters (RFC 3986) arrives as it was sent; a question mark, say,
  ends the path. \<open>ur_text\<close> is the text of a host.
\<close>

record url_routing =
  ur_text :: "pyval \<Rightarrow> string"
  ur_key :: "string \<Rightarrow> string option"

definition reached_key :: "url_routing \<Rightarrow> node \<Rightarrow> string \<Rightarrow> string option" where
  "reached_key net n key = ur_key net (internal_read_url (ur_text net) n key)"

definition unreserved :: "char \<Rightarrow> bool" where
  "unreserved c \<longleftrightarrow>
     (let n = of_char c :: nat
      in 65 \<le> n \<and> n \<le> 90 \<or> 97 \<le> n \<and> n \<le> 122 \<or> 48 \<le> n \<and> n \<le> 57) \<or> c \<in> {CHR ''-'', CHR ''.'', CHR ''_'', CHR ''~''}"

definition url_plain :: "string \<Rightarrow> bool" where
  "url_plain key \<longleftrightarrow> key \<noteq> [] \<and> list_all unreserved key \<and> key \<noteq> ''.'' \<and> key \<noteq> ''..''"

definition key_arrives :: "url_routing \<Rightarrow> node list \<Rightarrow> string \<Rightarrow> bool" where
  "key_arrives net nodes key \<longleftrightarrow> (\<forall>n \<in> set nodes. reached_key net n key = Some key)"

definition routes_plain :: "url_routing \<Rightarrow> node list \<Rightarrow> bool" where
  "routes_plain net nodes \<longleftrightarrow> (\<forall>key. url_plain key \<longrightarrow> key_arrives net nodes key)"

record cluster_config =
  cc_nodes :: "node list"
  cc_default_w :: int
  cc_default_r :: int
  cc_timeout_seconds :: pyfloat

definition node_of_yaml :: "pyval \<Rightarrow> exn + node" where
  "node_of_yaml n =
     bind_exn (py_dict_item n ''host'') (\<lambda>host.
     bind_exn (bind_exn (py_dict_item n ''port'') py_int) (\<lambda>port.
       Inr \<lparr>node_host = host, node_port = port\<rparr>))"

definition validate_quorum :: "int \<Rightarrow> string \<Rightarrow> node list \<Rightarrow> exn + unit" where
  "validate_quorum v name nodes = require_in_range v name 1 (int (length nodes)) ''nodes''"

definition cluster_config_from_dict ::
    "(string \<Rightarrow> pyfloat option) \<Rightarrow> pyval \<Rightarrow> exn + cluster_config" where
  "cluster_config_from_dict float_of_str raw =
     bind_exn (bind_exn (py_dict_get raw ''nodes'' (PList [])) py_iter) (\<lambda>items.
     bind_exn (map_exn node_of_yaml items) (\<lambda>nodes.
     bind_exn (bind_exn (py_dict_get raw ''default_w'' (PInt 1)) py_int) (\<lambda>default_w.
     bind_exn (bind_exn (py_dict_get raw ''default_r'' (PInt 1)) py_int) (\<lambda>default_r.
     bind_exn (bind_exn (py_dict_get raw ''timeout_seconds'' (PFloat (Fin 2))) (py_float float_of_str))
       (\<lambda>timeout_seconds.
     bind_exn (validate_quorum default_w ''default_w'' nodes) (\<lambda>_.
     bind_exn (validate_quorum default_r ''default_r'' nodes) (\<lambda>_.
     bind_exn (require_positive timeout_seconds ''timeout_seconds'') (\<lambda>_.
       Inr \<lparr>cc_nodes = nodes, cc_default_w = default_w, cc_default_r = default_r,
         cc_timeout_seconds = timeout_seconds\<rparr>))))))))"

definition cluster_config_from_yaml ::
    "(string \<Rightarrow> pyfloat option) \<Rightarrow> pyval \<Rightarrow> exn + cluster_config" where
  "cluster_config_from_yaml float_of_str doc =
     cluster_config_from_dict float_of_str (yaml_or_empty doc)"

definition with_default_w :: "cluster_config \<Rightarrow> int \<Rightarrow> exn + cluster_config" where
  "with_default_w config w =
     bind_exn (validate_quorum w ''default_w'' (cc_nodes config)) (\<lambda>_.
       Inr (config\<lparr>cc_default_w := w\<rparr>))"

definition with_default_r :: "cluster_config \<Rightarrow> int \<Rightarrow> exn + cluster_config" where
  "with_default_r config r =
     bind_exn (validate_quorum r ''default_r'' (cc_nodes config)) (\<lambda>_.
       Inr (config\<lparr>cc_default_r := r\<rparr>))"

definition cluster_resolve_config ::
    "(string \<Rightarrow> pyfloat option) \<Rightarrow> pyval \<Rightarrow> int option \<Rightarrow> int option \<Rightarrow> exn + cluster_config" where
  "cluster_resolve_config float_of_str doc w_flag r_flag =
     bind_exn (cluster_config_from_yaml float_of_str doc) (\<lambda>c0.
     bind_exn (case w_flag of None \<Rightarrow> Inr c0 | Some w \<Rightarrow> with_default_w c0 w) (\<lambda>c1.
       case r_flag of None \<Rightarrow> Inr c1 | Some r \<Rightarrow> with_default_r c1 r))"

definition cluster_config_ok :: "cluster_config \<Rightarrow> bool" where
  "cluster_config_ok config \<longleftrightarrow>
     1 \<le> cc_default_w config \<and> cc_default_w config \<le> int (length (cc_nodes config)) \<and>
     1 \<le> cc_default_r config \<and> cc_default_r config \<le> int (length (cc_nodes config)) \<and>
     \<not> fle (cc_timeout_seconds config) (Fin 0)"

definition peers_excluding :: "cluster_config \<Rightarrow> int \<Rightarrow> node list" where
  "peers_excluding config own_port = filter (\<lambda>n. node_port n \<noteq> own_port) (cc_nodes config)"

definition validate_quorum_param :: "int \<Rightarrow> string \<Rightarrow> int \<Rightarrow> http_exception + unit" where
  "validate_quorum_param v name n =
     (if \<not> (1 \<le> v \<and> v \<le> n) then Inl (http_error 422 (Quorum_out_of_range name v n)) else Inr ())"

section \<open>QuorumCoordinator\<close>

text \<open>
  The outcome of one contacted peer: whether it counts, and the value it contributes. Any
  well-formed 2xx answer to a replicate call is an ack, applied or not.
\<close>

definition replicate_outcome :: "replicate_response call_result \<Rightarrow> exn + bool \<times> unit" where
  "replicate_outcome r =
     (case r of
        Call_httpx_error \<Rightarrow> Inr (False, ())
      | Call_raises e \<Rightarrow> Inl e
      | Call_response status body \<Rightarrow>
          if \<not> is_success status then Inr (False, ())
          else (case parse_reply body of
                  Inl e \<Rightarrow> Inl e
                | Inr None \<Rightarrow> Inr (False, ())
                | Inr (Some parsed) \<Rightarrow> Inr (True, ())))"

text \<open>A 404 counts as a response with nothing to contribute; every other non-200 does not count.\<close>

definition read_outcome :: "'v kv_response call_result \<Rightarrow> exn + bool \<times> 'v versioned_value option" where
  "read_outcome r =
     (case r of
        Call_httpx_error \<Rightarrow> Inr (False, None)
      | Call_raises e \<Rightarrow> Inl e
      | Call_response status body \<Rightarrow>
          if status = 404 then Inr (True, None)
          else if status \<noteq> 200 then Inr (False, None)
          else (case parse_reply body of
                  Inl e \<Rightarrow> Inl e
                | Inr None \<Rightarrow> Inr (False, None)
                | Inr (Some parsed) \<Rightarrow>
                    Inr (True, Some \<lparr>vv_value = kres_value parsed, vv_timestamp = kres_timestamp parsed,
                      vv_node_id = kres_node_id parsed\<rparr>)))"

text \<open>The body of the loop in \<open>_gather\<close>: collect the value of every done task that counts.\<close>

fun collect :: "(nat \<Rightarrow> exn + bool \<times> 'a) \<Rightarrow> nat list \<Rightarrow> 'a list \<Rightarrow> exn + 'a list" where
  "collect results [] collected = Inr collected"
| "collect results (t # ts) collected =
     (case results t of
        Inl e \<Rightarrow> Inl e
      | Inr (counts, v) \<Rightarrow> collect results ts (if counts then collected @ [v] else collected))"

text \<open>
  \<open>_gather\<close> over \<open>n\<close> coroutines: the collected values, or the exception that ended it, and the tasks
  handed to the background set. The hand-over is in a \<open>finally\<close>, so it happens in both cases.
\<close>

definition gather ::
    "pyfloat \<Rightarrow> (nat \<Rightarrow> exn + bool \<times> 'a) \<Rightarrow> (nat \<Rightarrow> pyfloat \<times> wait_event) \<Rightarrow> pyfloat \<Rightarrow> nat \<Rightarrow> int \<Rightarrow>
     (exn + 'a list) \<times> nat list" where
  "gather timeout_seconds results env start n needed =
     (let pending = [0..<n];
          deadline = fadd start timeout_seconds
      in wait_loop (collect results) (\<lambda>collected. int (length collected)) env deadline needed 0 pending [])"

text \<open>\<open>random.sample(peers, needed)\<close>: the elements at the distinct positions \<open>choice\<close> it drew.\<close>

definition is_sample :: "'a list \<Rightarrow> int \<Rightarrow> nat list \<Rightarrow> bool" where
  "is_sample xs needed choice \<longleftrightarrow>
     distinct choice \<and> int (length choice) = needed \<and> (\<forall>i \<in> set choice. i < length xs)"

definition select_read_peers :: "node list \<Rightarrow> int \<Rightarrow> nat list \<Rightarrow> node list" where
  "select_read_peers peers needed choice =
     (if int (length peers) \<le> needed then peers else map (\<lambda>i. peers ! i) choice)"

definition replicate_write ::
    "pyfloat \<Rightarrow> node list \<Rightarrow> (nat \<Rightarrow> exn + bool \<times> unit) \<Rightarrow> (nat \<Rightarrow> pyfloat \<times> wait_event) \<Rightarrow> pyfloat \<Rightarrow> int \<Rightarrow>
     (exn + int) \<times> nat list" where
  "replicate_write timeout_seconds peers results env start needed =
     (let (acked, background) = gather timeout_seconds results env start (length peers) needed
      in (bind_exn acked (\<lambda>a. Inr (int (length a))), background))"

text \<open>
  \<open>read\<close>: no peer is contacted when none is needed. \<open>results\<close> gives the outcome of the call to each
  selected peer, by its position in the selection.
\<close>

definition read_peers ::
    "pyfloat \<Rightarrow> node list \<Rightarrow> nat list \<Rightarrow> (nat \<Rightarrow> exn + bool \<times> 'v versioned_value option) \<Rightarrow>
     (nat \<Rightarrow> pyfloat \<times> wait_event) \<Rightarrow> pyfloat \<Rightarrow> int \<Rightarrow>
     (exn + 'v versioned_value option list) \<times> nat list" where
  "read_peers timeout_seconds peers choice results env start needed =
     (if needed \<le> 0 then (Inr [], [])
      else gather timeout_seconds results env start
        (length (select_read_peers peers needed choice)) needed)"

section \<open>Handlers of a node\<close>

record 'v put_coordinator_out =
  pco_response :: "put_response http_result"
  pco_store :: "'v kvstore"
  pco_payload :: "'v replicate_request option"
  pco_background :: "nat list"

text \<open>The answer to a write: 200 when the local write and the peers' acks reach \<open>w\<close>, else 503.\<close>

definition resolve_put ::
    "int \<Rightarrow> pyfloat \<Rightarrow> bool \<Rightarrow> pyfloat \<Rightarrow> exn + int \<Rightarrow> put_response http_result" where
  "resolve_put w_required timeout_seconds local_applied timestamp peer_acked_or_exn =
     (case peer_acked_or_exn of
        Inl e \<Rightarrow> Http_crash e
      | Inr peer_acked \<Rightarrow>
          let total_acked = 1 + peer_acked
          in if total_acked < w_required
             then Http_error (http_error 503
               (Node_acks_short total_acked w_required timeout_seconds))
             else Http_ok \<lparr>pres_applied = local_applied, pres_timestamp = timestamp\<rparr>)"

definition put_key_coordinator ::
    "string \<Rightarrow> int \<Rightarrow> cluster_config \<Rightarrow> pyfloat \<Rightarrow> (nat \<Rightarrow> exn + bool \<times> unit) \<Rightarrow>
     (nat \<Rightarrow> pyfloat \<times> wait_event) \<Rightarrow> pyfloat \<Rightarrow> 'v kvstore \<Rightarrow> string \<Rightarrow> 'v put_request \<Rightarrow> int option \<Rightarrow>
     'v put_coordinator_out" where
  "put_key_coordinator node_id own_port config now results env start storage key body w =
     (let peers = peers_excluding config own_port;
          n_total = int (length (cc_nodes config));
          w_required = (case w of Some w' \<Rightarrow> w' | None \<Rightarrow> cc_default_w config)
      in case validate_quorum_param w_required ''w'' n_total of
           Inl err \<Rightarrow> \<lparr>pco_response = Http_error err, pco_store = storage, pco_payload = None,
             pco_background = []\<rparr>
         | Inr _ \<Rightarrow>
             (let timestamp = now;
                  (local_applied, storage') = kv_put storage key (preq_value body) timestamp node_id;
                  payload = \<lparr>rreq_key = key, rreq_value = preq_value body, rreq_timestamp = timestamp,
                    rreq_node_id = node_id\<rparr>;
                  peers_needed = w_required - 1;
                  (peer_acked_or_exn, background) =
                    replicate_write (cc_timeout_seconds config) peers results env start peers_needed;
                  response =
                    resolve_put w_required (cc_timeout_seconds config) local_applied timestamp
                      peer_acked_or_exn
              in \<lparr>pco_response = response, pco_store = storage', pco_payload = Some payload,
                  pco_background = background\<rparr>))"

text \<open>The candidate with the highest version; the first of equals stays.\<close>

definition select_winner :: "'v versioned_value list \<Rightarrow> 'v versioned_value option" where
  "select_winner candidates =
     (case candidates of
        [] \<Rightarrow> None
      | c # cs \<Rightarrow> Some (fold (\<lambda>entry winner. if is_newer_than entry winner then entry else winner) cs c))"

text \<open>Steps 4 and 5 of the read: the answer made of the local entry and the peers' entries.\<close>

definition resolve_read ::
    "string \<Rightarrow> int \<Rightarrow> pyfloat \<Rightarrow> 'v versioned_value option \<Rightarrow> exn + 'v versioned_value option list \<Rightarrow>
     'v kv_response http_result" where
  "resolve_read key r_required timeout_seconds local_entry peer_entries_or_exn =
     (case peer_entries_or_exn of
        Inl e \<Rightarrow> Http_crash e
      | Inr peer_entries \<Rightarrow>
          let total_responses = 1 + int (length peer_entries)
          in if total_responses < r_required
             then Http_error (http_error 503
               (Node_responses_short total_responses r_required timeout_seconds))
             else
               (case select_winner (List.map_filter (\<lambda>e. e) (local_entry # peer_entries)) of
                  None \<Rightarrow> Http_error (http_error 404 (Key_not_found key))
                | Some winner \<Rightarrow>
                    Http_ok \<lparr>kres_key = key, kres_value = vv_value winner,
                      kres_timestamp = vv_timestamp winner, kres_node_id = vv_node_id winner\<rparr>))"

definition get_key_coordinator ::
    "int \<Rightarrow> cluster_config \<Rightarrow> nat list \<Rightarrow> (nat \<Rightarrow> exn + bool \<times> 'v versioned_value option) \<Rightarrow>
     (nat \<Rightarrow> pyfloat \<times> wait_event) \<Rightarrow> pyfloat \<Rightarrow> 'v kvstore \<Rightarrow> string \<Rightarrow> int option \<Rightarrow>
     'v kv_response http_result" where
  "get_key_coordinator own_port config choice results env start storage key r =
     (let peers = peers_excluding config own_port;
          n_total = int (length (cc_nodes config));
          r_required = (case r of Some r' \<Rightarrow> r' | None \<Rightarrow> cc_default_r config)
      in case validate_quorum_param r_required ''r'' n_total of
           Inl err \<Rightarrow> Http_error err
         | Inr _ \<Rightarrow>
             (let local_entry = kv_get storage key;
                  peers_needed = r_required - 1;
                  (peer_entries_or_exn, _) =
                    read_peers (cc_timeout_seconds config) peers choice results env start peers_needed
              in resolve_read key r_required (cc_timeout_seconds config) local_entry peer_entries_or_exn))"

text \<open>\<open>GET /internal/kv/{key}\<close>, and \<open>POST /internal/replicate\<close> after an injected delay.\<close>

definition internal_get_key :: "'v kvstore \<Rightarrow> string \<Rightarrow> 'v kv_response http_result" where
  "internal_get_key storage key =
     (case kv_get storage key of
        None \<Rightarrow> Http_error (http_error 404 (Key_not_found key))
      | Some entry \<Rightarrow>
          Http_ok \<lparr>kres_key = key, kres_value = vv_value entry, kres_timestamp = vv_timestamp entry,
            kres_node_id = vv_node_id entry\<rparr>)"

text \<open>
  The delayed handler applies the write to the store as it is when the sleep is over: \<open>during\<close> are
  the requests the node served meanwhile.
\<close>

definition replicate_with_injected_delay ::
    "string \<Rightarrow> 'v request list \<Rightarrow> 'v kvstore \<Rightarrow> 'v replicate_request \<Rightarrow>
     replicate_response http_result \<times> 'v kvstore" where
  "replicate_with_injected_delay node_id during storage body =
     (let awake = serve_all node_id during storage;
          (applied, storage') =
            kv_put awake (rreq_key body) (rreq_value body) (rreq_timestamp body) (rreq_node_id body)
      in (Http_ok \<lparr>rres_applied = applied\<rparr>, storage'))"

definition leaderless_build_app :: "route list \<Rightarrow> pyfloat \<Rightarrow> route list \<times> 'v kvstore" where
  "leaderless_build_app builtin fault_inject_delay_seconds =
     (let r0 = replace_route (create_app builtin) ''/kv/{key}'' [''PUT'', ''GET''];
          r1 = add_route r0 ''/kv/{key}'' ''PUT'' Ep_put_key_coordinator;
          r2 = add_route r1 ''/kv/{key}'' ''GET'' Ep_get_key_coordinator;
          r3 = add_route r2 ''/internal/kv/{key}'' ''GET'' Ep_internal_get_key;
          r4 = (if flt (Fin 0) fault_inject_delay_seconds
                then add_route (replace_route r3 ''/internal/replicate'' [''POST''])
                  ''/internal/replicate'' ''POST'' Ep_replicate_delayed
                else r3)
      in (r4, kv_init))"

section \<open>Lemmas\<close>

text \<open>Whether a task's result counts, and what it contributes.\<close>

definition counting :: "(nat \<Rightarrow> exn + bool \<times> 'a) \<Rightarrow> nat \<Rightarrow> bool" where
  "counting results t \<longleftrightarrow> (\<exists>v. results t = Inr (True, v))"

definition contribution :: "(nat \<Rightarrow> exn + bool \<times> 'a) \<Rightarrow> nat \<Rightarrow> 'a multiset" where
  "contribution results t = (case results t of Inr (True, v) \<Rightarrow> {#v#} | _ \<Rightarrow> {#})"

lemma size_contribution: "int (size (contribution results t)) = (if counting results t then 1 else 0)"
  by (auto simp: contribution_def counting_def split: sum.splits prod.splits bool.splits)

lemma collect_mset:
  "distinct ts \<Longrightarrow> collect results ts vs = Inr vs' \<Longrightarrow>
   mset vs' = mset vs + (\<Sum>t \<in> set ts. contribution results t)"
proof (induction ts arbitrary: vs)
  case Nil
  then show ?case by simp
next
  case (Cons t ts)
  then obtain c v where r: "results t = Inr (c, v)"
    and "collect results ts (if c then vs @ [v] else vs) = Inr vs'"
    by (auto split: sum.splits)
  with Cons.IH [OF _ this(2)] Cons.prems(1)
  have "mset vs' = mset (if c then vs @ [v] else vs) + (\<Sum>t \<in> set ts. contribution results t)"
    by simp
  with r Cons.prems(1) show ?case by (auto simp: contribution_def split: bool.splits)
qed

lemma collect_total:
  "(\<And>t. t \<in> set ts \<Longrightarrow> \<not> (\<exists>e. results t = Inl e)) \<Longrightarrow> \<exists>vs'. collect results ts vs = Inr vs'"
proof (induction ts arbitrary: vs)
  case (Cons t ts)
  then obtain c v where "results t = Inr (c, v)"
    by (metis list.set_intros(1) obj_sumE surj_pair)
  with Cons show ?case by simp
qed simp

text \<open>What \<open>_gather\<close> collects: exactly the values of the tasks it waited for and that count.\<close>

interpretation gathered: absorber "collect results" mset "contribution results"
    "\<lambda>t. \<exists>e. results t = Inl e"
  for results :: "nat \<Rightarrow> exn + bool \<times> 'a"
  by unfold_locales (auto intro: collect_mset collect_total)

interpretation collects: counting_absorber "collect results" "\<lambda>vs. int (length vs)"
    "\<lambda>t. if counting results t then 1 else 0" "\<lambda>t. \<exists>e. results t = Inl e" "counting results"
  for results :: "nat \<Rightarrow> exn + bool \<times> 'a"
proof unfold_locales
  fix ts and vs vs' :: "'a list"
  assume d: "distinct ts" and c: "collect results ts vs = Inr vs'"
  have "size (mset vs') = size (mset vs) + (\<Sum>t \<in> set ts. size (contribution results t))"
    using collect_mset [OF d c] by (simp add: size_multiset_sum)
  then have "int (length vs') = int (length vs) + (\<Sum>t \<in> set ts. int (size (contribution results t)))"
    by simp
  then show "int (length vs') = int (length vs) + (\<Sum>t \<in> set ts. if counting results t then 1 else 0)"
    by (simp add: size_contribution)
qed (auto intro: collect_total)

lemma select_winner_None [simp]: "select_winner cs = None \<longleftrightarrow> cs = []"
  by (cases cs) (simp_all add: select_winner_def)

lemma select_winner_mem: "select_winner cs = Some w \<Longrightarrow> w \<in> set cs"
  using lww.fold_winner_mem by (cases cs) (auto simp: select_winner_def)

lemma select_winner_max:
  assumes "select_winner cs = Some w" "\<And>c. c \<in> set cs \<Longrightarrow> stamped c" "c \<in> set cs"
  shows "stamp c \<le> stamp w"
proof -
  obtain d ds where cs: "cs = d # ds" using assms(3) by (cases cs) auto
  have "\<not> is_newer_than c w"
    using assms lww.fold_winner_max [of d ds c] by (auto simp: cs select_winner_def)
  moreover have "stamped w" "stamped c"
    using assms select_winner_mem [OF assms(1)] by auto
  ultimately show ?thesis by (simp add: lww_simps)
qed

abbreviation peer_tasks :: "cluster_config \<Rightarrow> int \<Rightarrow> nat set" where
  "peer_tasks config own_port \<equiv> {0..<length (peers_excluding config own_port)}"

text \<open>What \<open>gather\<close> returns, in terms of the tasks it did not hand over.\<close>

lemma gather_counts:
  assumes "gather timeout results env start n needed = (Inr vs, background)"
  shows "distinct background \<and> set background \<subseteq> {0..<n} \<and>
    int (length vs) = int (card {t \<in> {0..<n} - set background. counting results t})"
  using collects.loop_counts [OF assms [unfolded gather_def Let_def]] by simp

lemma gather_mset:
  assumes "gather timeout results env start n needed = (Inr vs, background)"
  shows "mset vs = (\<Sum>t \<in> {0..<n} - set background. contribution results t)"
  using gathered.loop_sound [OF assms [unfolded gather_def Let_def]] by simp

lemma gather_needs_none:
  "needed \<le> 0 \<Longrightarrow> gather timeout results env start n needed = (Inr [], [0..<n])"
  by (simp add: gather_def wait_loop_enough)

text \<open>The values collected are those of the counting tasks that were waited for.\<close>

lemma set_contributions:
  "finite A \<Longrightarrow> set_mset (\<Sum>t \<in> A. contribution results t) = {v. \<exists>t \<in> A. results t = Inr (True, v)}"
  by (induction A rule: finite_induct)
    (auto simp: contribution_def split: sum.splits prod.splits bool.splits)

lemma gather_values:
  assumes "gather timeout results env start n needed = (Inr vs, background)"
  shows "set vs = {v. \<exists>t \<in> {0..<n} - set background. results t = Inr (True, v)}"
proof -
  have "set vs = set_mset (mset vs)" by simp
  also have "\<dots> = set_mset (\<Sum>t \<in> {0..<n} - set background. contribution results t)"
    by (simp only: gather_mset [OF assms])
  also have "\<dots> = {v. \<exists>t \<in> {0..<n} - set background. results t = Inr (True, v)}"
    by (rule set_contributions) simp
  finally show ?thesis .
qed

lemma collect_effect:
  assumes "distinct ts" "collect results ts vs = Inr vs'"
  shows "length vs' = length vs + card {t \<in> set ts. counting results t} \<and>
    set vs' = set vs \<union> {v. \<exists>t \<in> set ts. results t = Inr (True, v)}"
proof -
  have "set vs' = set_mset (mset vs + (\<Sum>t \<in> set ts. contribution results t))"
    by (metis collect_mset [OF assms] set_mset_mset)
  moreover have "int (length vs') = int (length vs) + int (card {t \<in> set ts. counting results t})"
    using collects.absorb_total [OF assms] by (simp add: collects.sum_weight)
  ultimately show ?thesis by (simp add: set_contributions)
qed

definition w_required_of :: "cluster_config \<Rightarrow> int option \<Rightarrow> int" where
  "w_required_of config w = (case w of Some w' \<Rightarrow> w' | None \<Rightarrow> cc_default_w config)"

definition r_required_of :: "cluster_config \<Rightarrow> int option \<Rightarrow> int" where
  "r_required_of config r = (case r of Some r' \<Rightarrow> r' | None \<Rightarrow> cc_default_r config)"

lemma validate_quorum_param_cases:
  "validate_quorum_param v name n =
     (if 1 \<le> v \<and> v \<le> n then Inr () else Inl (http_error 422 (Quorum_out_of_range name v n)))"
  by (auto simp: validate_quorum_param_def)

lemma put_key_coordinator_valid:
  assumes "1 \<le> w_required_of config w" "w_required_of config w \<le> int (length (cc_nodes config))"
  shows "put_key_coordinator node_id own_port config now results env start storage key body w =
     \<lparr>pco_response = resolve_put (w_required_of config w) (cc_timeout_seconds config)
        (fst (kv_put storage key (preq_value body) now node_id)) now
        (fst (replicate_write (cc_timeout_seconds config) (peers_excluding config own_port) results env start
          (w_required_of config w - 1))),
      pco_store = snd (kv_put storage key (preq_value body) now node_id),
      pco_payload = Some \<lparr>rreq_key = key, rreq_value = preq_value body, rreq_timestamp = now,
        rreq_node_id = node_id\<rparr>,
      pco_background = snd (replicate_write (cc_timeout_seconds config) (peers_excluding config own_port)
        results env start (w_required_of config w - 1))\<rparr>"
  using assms
  by (simp add: put_key_coordinator_def validate_quorum_param_cases w_required_of_def [symmetric]
      Let_def case_prod_beta)

lemma put_key_coordinator_invalid:
  assumes "\<not> (1 \<le> w_required_of config w \<and> w_required_of config w \<le> int (length (cc_nodes config)))"
  shows "put_key_coordinator node_id own_port config now results env start storage key body w =
     \<lparr>pco_response = Http_error (http_error 422
        (Quorum_out_of_range ''w'' (w_required_of config w) (int (length (cc_nodes config))))),
      pco_store = storage, pco_payload = None, pco_background = []\<rparr>"
  using assms
  by (auto simp: put_key_coordinator_def validate_quorum_param_cases w_required_of_def [symmetric] Let_def)

lemma get_key_coordinator_valid:
  assumes "1 \<le> r_required_of config r" "r_required_of config r \<le> int (length (cc_nodes config))"
  shows "get_key_coordinator own_port config choice results env start storage key r =
    resolve_read key (r_required_of config r) (cc_timeout_seconds config) (kv_get storage key)
      (fst (read_peers (cc_timeout_seconds config) (peers_excluding config own_port) choice results env start
        (r_required_of config r - 1)))"
  using assms
  by (simp add: get_key_coordinator_def validate_quorum_param_cases r_required_of_def [symmetric]
      Let_def case_prod_beta)

lemma get_key_coordinator_invalid:
  assumes "\<not> (1 \<le> r_required_of config r \<and> r_required_of config r \<le> int (length (cc_nodes config)))"
  shows "get_key_coordinator own_port config choice results env start storage key r =
    Http_error (http_error 422
      (Quorum_out_of_range ''r'' (r_required_of config r) (int (length (cc_nodes config)))))"
  using assms
  by (auto simp: get_key_coordinator_def validate_quorum_param_cases r_required_of_def [symmetric] Let_def)

lemma select_winner_Nil [simp]: "select_winner [] = None"
  by (simp add: select_winner_def)

lemma resolve_put_ok:
  "resolve_put w timeout applied ts acked = Http_ok r \<longleftrightarrow>
     (\<exists>n. acked = Inr n \<and> w \<le> 1 + n \<and> r = \<lparr>pres_applied = applied, pres_timestamp = ts\<rparr>)"
  by (auto simp: resolve_put_def Let_def split: sum.splits)

text \<open>
  Which answers a read can give: 200 with the newest candidate, 404 without candidate, 503 below
  the quorum, 500 on an exception.
\<close>

lemma resolve_read_ok:
  "resolve_read key r timeout loc peer_entries = Http_ok resp \<longleftrightarrow>
     (\<exists>es w. peer_entries = Inr es \<and> r \<le> 1 + int (length es) \<and>
        select_winner (List.map_filter (\<lambda>e. e) (loc # es)) = Some w \<and>
        resp = \<lparr>kres_key = key, kres_value = vv_value w, kres_timestamp = vv_timestamp w,
          kres_node_id = vv_node_id w\<rparr>)"
  by (cases peer_entries) (auto simp: resolve_read_def Let_def split: option.splits)

lemma set_map_filter_id: "set (List.map_filter (\<lambda>e. e) xs) = {e. Some e \<in> set xs}"
  by (force simp: map_filter_def)

lemma resolve_read_status:
  "http_status (resolve_read key r timeout loc (Inr es)) =
     (if 1 + int (length es) < r then 503
      else if \<forall>e. Some e \<notin> set (loc # es) then 404 else 200)"
proof -
  have "select_winner (List.map_filter (\<lambda>e. e) (loc # es)) = None \<longleftrightarrow> (\<forall>e. Some e \<notin> set (loc # es))"
    using set_map_filter_id [of "loc # es"] by (auto simp del: list.set(2))
  then show ?thesis
    by (auto simp: resolve_read_def Let_def http_error_def simp del: list.set(2) split: option.splits)
qed


section \<open>Properties\<close>

text \<open>
  Loading a node's configuration, with or without the \<open>--default-w\<close> and \<open>--default-r\<close> flags,
  never yields default quorums outside 1 to N or a timeout that is zero or negative.
\<close>

theorem cluster_resolve_config_ok:
  assumes "cluster_resolve_config float_of_str doc w_flag r_flag = Inr config"
  shows "cluster_config_ok config"
  using assms
  by (auto simp: cluster_resolve_config_def cluster_config_from_yaml_def cluster_config_from_dict_def
      with_default_w_def with_default_r_def validate_quorum_def cluster_config_ok_def bind_exn_Inr_iff
      split: option.splits)

definition example_node :: "int \<Rightarrow> node" where
  "example_node port = \<lparr>node_host = PStr ''127.0.0.1'', node_port = port\<rparr>"

definition example_cluster :: "int \<Rightarrow> int \<Rightarrow> cluster_config" where
  "example_cluster w r =
     \<lparr>cc_nodes = map example_node [8001, 8002, 8003], cc_default_w = w, cc_default_r = r,
      cc_timeout_seconds = Fin 2\<rparr>"

lemma example_cluster_simps [simp]:
  "cc_nodes (example_cluster w r) = map example_node [8001, 8002, 8003]"
  "cc_default_w (example_cluster w r) = w" "cc_default_r (example_cluster w r) = r"
  "cc_timeout_seconds (example_cluster w r) = Fin 2"
  "peers_excluding (example_cluster w r) 8001 = map example_node [8002, 8003]"
  "w_required_of (example_cluster w r) None = w" "r_required_of (example_cluster w r) None = r"
  by (simp_all add: example_cluster_def peers_excluding_def example_node_def w_required_of_def
      r_required_of_def)

theorem cluster_resolve_config_ok_witness:
  "cluster_config_ok (example_cluster 2 3)"
proof -
  define item where "item = (\<lambda>p. PDict [(''host'', PStr ''127.0.0.1''), (''port'', PInt p)])"
  show ?thesis
    by (rule cluster_resolve_config_ok [where float_of_str = "\<lambda>_. None" and w_flag = "Some 2" and
          r_flag = None and doc = "PDict [(''default_r'', PInt 3),
            (''nodes'', PList [item 8001, item 8002, item 8003])]"])
      (simp add: cluster_resolve_config_def cluster_config_from_yaml_def cluster_config_from_dict_def
        yaml_or_empty_def py_falsy_def py_dict_get_def py_dict_item_def py_iter_def node_of_yaml_def
        with_default_w_def validate_quorum_def require_in_range_def require_positive_def item_def
        example_cluster_def example_node_def)
qed

text \<open>
  A quorum parameter outside 1 to N is refused before anything happens: the write answers 422,
  stores nothing and contacts no peer, and the read answers 422; a parameter in range never
  produces a 422.
\<close>

theorem quorum_param_checked:
  "(\<not> (1 \<le> w_required_of config w \<and> w_required_of config w \<le> int (length (cc_nodes config))) \<longleftrightarrow>
      http_status (pco_response
        (put_key_coordinator node_id own_port config now results env start storage key body w)) = 422) \<and>
   (http_status (pco_response
        (put_key_coordinator node_id own_port config now results env start storage key body w)) = 422 \<longrightarrow>
      pco_store (put_key_coordinator node_id own_port config now results env start storage key body w) = storage \<and>
      pco_payload (put_key_coordinator node_id own_port config now results env start storage key body w) = None) \<and>
   (\<not> (1 \<le> r_required_of config r \<and> r_required_of config r \<le> int (length (cc_nodes config))) \<longleftrightarrow>
      http_status (get_key_coordinator own_port config choice rresults env start storage key r) = 422)"
proof -
  have rd: "http_status (resolve_read k q t l p) \<noteq> 422" for k q t l and p :: "exn + 'b versioned_value option list"
    by (cases p) (auto simp: resolve_read_status, simp add: resolve_read_def)
  have wr: "http_status (resolve_put q t a ts p) \<noteq> 422" for q t a ts p
    by (auto simp: resolve_put_def Let_def http_error_def split: sum.splits)
  show ?thesis
    using rd wr
    by (cases "1 \<le> w_required_of config w \<and> w_required_of config w \<le> int (length (cc_nodes config))";
        cases "1 \<le> r_required_of config r \<and> r_required_of config r \<le> int (length (cc_nodes config))")
      (simp_all add: put_key_coordinator_valid put_key_coordinator_invalid get_key_coordinator_valid
        get_key_coordinator_invalid http_error_def)
qed

theorem quorum_param_checked_witness:
  "http_status (pco_response (put_key_coordinator ''n1'' 8001 (example_cluster 2 3) (Fin 5)
      (\<lambda>t. Inr (True, ())) (\<lambda>i. (Fin 1, Completed [i])) (Fin 0) kv_init ''k'' \<lparr>preq_value = 7::nat\<rparr> (Some 4))) = 422 \<and>
   pco_store (put_key_coordinator ''n1'' 8001 (example_cluster 2 3) (Fin 5)
      (\<lambda>t. Inr (True, ())) (\<lambda>i. (Fin 1, Completed [i])) (Fin 0) kv_init ''k'' \<lparr>preq_value = 7::nat\<rparr> (Some 4)) = kv_init"
proof -
  have "\<not> (1 \<le> w_required_of (example_cluster 2 3) (Some 4) \<and>
    w_required_of (example_cluster 2 3) (Some 4) \<le> int (length (cc_nodes (example_cluster 2 3))))"
    by (simp add: w_required_of_def)
  with quorum_param_checked [of "example_cluster 2 3" "Some 4" "''n1''" 8001 "Fin 5" "\<lambda>t. Inr (True, ())"
      "\<lambda>i. (Fin 1, Completed [i])" "Fin 0" kv_init "''k''" "\<lparr>preq_value = 7::nat\<rparr>" None "[]"]
  show ?thesis by blast
qed

text \<open>
  C8. A write quorum is real: when a node answers a PUT with 200, at least \<open>w - 1\<close> distinct peers
  acknowledged it, their calls being over and not among those left in the background, the answer
  carries the stamped timestamp, and the node's own store holds the write or a version that beats it.
\<close>

theorem put_quorum_ok_means_acked:
  assumes "pco_response (put_key_coordinator node_id own_port config now results env start storage key body w) =
      Http_ok resp"
    and "kv_wf storage" "now \<noteq> NaN"
  shows "(\<exists>A \<subseteq> peer_tasks config own_port. w_required_of config w \<le> 1 + int (card A) \<and>
      (\<forall>t \<in> A. counting results t) \<and>
      A \<inter> set (pco_background
        (put_key_coordinator node_id own_port config now results env start storage key body w)) = {}) \<and>
    pres_timestamp resp = now \<and>
    (\<exists>c. kv_get (pco_store (put_key_coordinator node_id own_port config now results env start storage key body w)) key =
        Some c \<and>
      \<not> is_newer_than \<lparr>vv_value = preq_value body, vv_timestamp = now, vv_node_id = node_id\<rparr> c)"
proof -
  let ?out = "put_key_coordinator node_id own_port config now results env start storage key body w"
  let ?peers = "peers_excluding config own_port"
  have "1 \<le> w_required_of config w \<and> w_required_of config w \<le> int (length (cc_nodes config))"
    by (rule ccontr) (use assms(1) in \<open>simp add: put_key_coordinator_invalid\<close>)
  then have v: "1 \<le> w_required_of config w" "w_required_of config w \<le> int (length (cc_nodes config))"
    by auto
  note out = put_key_coordinator_valid [OF v, of node_id own_port now results env start storage key body]
  obtain vs background where g: "gather (cc_timeout_seconds config) results env start (length ?peers)
      (w_required_of config w - 1) = (Inr vs, background)"
    and enough: "w_required_of config w \<le> 1 + int (length vs)" and ts: "pres_timestamp resp = now"
    using assms(1) unfolding out
    by (auto simp: resolve_put_ok replicate_write_def case_prod_beta bind_exn_Inr_iff prod_eq_iff)
  have bg: "pco_background ?out = background"
    using g by (simp add: out replicate_write_def)
  have st: "pco_store ?out = snd (kv_put storage key (preq_value body) now node_id)"
    by (simp add: out)
  let ?A = "{t \<in> {0..<length ?peers} - set background. counting results t}"
  have "?A \<subseteq> peer_tasks config own_port \<and> w_required_of config w \<le> 1 + int (card ?A) \<and>
      (\<forall>t \<in> ?A. counting results t) \<and> ?A \<inter> set background = {}"
    using gather_counts [OF g] enough by auto
  moreover have "\<exists>c. kv_get (snd (kv_put storage key (preq_value body) now node_id)) key = Some c \<and>
      \<not> is_newer_than \<lparr>vv_value = preq_value body, vv_timestamp = now, vv_node_id = node_id\<rparr> c"
    unfolding kv_put_as_entry by (rule kvs.put_holds) (use assms in \<open>simp_all add: stamped_def\<close>)
  ultimately show ?thesis using ts unfolding bg st by blast
qed

lemma example_one_peer_ack:
  "replicate_write (Fin 2) [example_node 8002, example_node 8003] (\<lambda>t. Inr (True, ()))
     (\<lambda>i. (Fin 1, Completed [Suc 0])) (Fin 0) 1 = (Inr 1, [0])"
  by (simp add: replicate_write_def gather_def wait_loop.simps wait_round_def asyncio_wait_def
      numeral_2_eq_2 Let_def)

theorem put_quorum_ok_means_acked_witness:
  "(\<exists>A \<subseteq> peer_tasks (example_cluster 2 3) 8001. w_required_of (example_cluster 2 3) None \<le> 1 + int (card A) \<and>
      (\<forall>t \<in> A. counting (\<lambda>t. Inr (True, ())) t) \<and>
      A \<inter> set (pco_background (put_key_coordinator ''n1'' 8001 (example_cluster 2 3) (Fin 5)
        (\<lambda>t. Inr (True, ())) (\<lambda>i. (Fin 1, Completed [1])) (Fin 0) kv_init ''k'' \<lparr>preq_value = 7::nat\<rparr> None)) = {}) \<and>
    pres_timestamp \<lparr>pres_applied = True, pres_timestamp = Fin 5\<rparr> = Fin 5 \<and>
    (\<exists>c. kv_get (pco_store (put_key_coordinator ''n1'' 8001 (example_cluster 2 3) (Fin 5)
        (\<lambda>t. Inr (True, ())) (\<lambda>i. (Fin 1, Completed [1])) (Fin 0) kv_init ''k'' \<lparr>preq_value = 7::nat\<rparr> None)) ''k'' =
        Some c \<and>
      \<not> is_newer_than \<lparr>vv_value = preq_value \<lparr>preq_value = 7::nat\<rparr>, vv_timestamp = Fin 5, vv_node_id = ''n1''\<rparr> c)"
  by (rule put_quorum_ok_means_acked)
    (simp_all add: put_key_coordinator_valid example_one_peer_ack resolve_put_def kv_put_def Let_def
      kv_init_def kv_wf_def)



text \<open>What a quorum read collected, and which of it it answers with.\<close>

lemma read_peers_values:
  assumes "fst (read_peers timeout_seconds peers choice results env start needed) = Inr es"
  shows "\<exists>A \<subseteq> {0..<length (select_read_peers peers needed choice)}.
    int (length es) = int (card A) \<and> (\<forall>t \<in> A. counting results t) \<and> set es = {v. \<exists>t \<in> A. results t = Inr (True, v)}"
proof (cases "needed \<le> 0")
  case True
  with assms have "es = []" by (simp add: read_peers_def)
  then show ?thesis by (intro exI [of _ "{}"]) auto
next
  case False
  let ?n = "length (select_read_peers peers needed choice)"
  from False assms obtain bg where g: "gather timeout_seconds results env start ?n needed = (Inr es, bg)"
    by (auto simp: read_peers_def prod_eq_iff)
  show ?thesis
    using gather_counts [OF g] gather_values [OF g]
    by (intro exI [of _ "{t \<in> {0..<?n} - set bg. counting results t}"]) (auto simp: counting_def)
qed

lemma resolve_read_answers_newest:
  assumes "resolve_read key r timeout_seconds local (Inr es) = Http_ok resp"
    and "\<And>e. Some e \<in> set (local # es) \<Longrightarrow> stamped e"
  shows "\<exists>e. Some e \<in> set (local # es) \<and>
    resp = \<lparr>kres_key = key, kres_value = vv_value e, kres_timestamp = vv_timestamp e, kres_node_id = vv_node_id e\<rparr> \<and>
    (\<forall>e'. Some e' \<in> set (local # es) \<longrightarrow> \<not> is_newer_than e' e)"
proof -
  let ?cs = "List.map_filter (\<lambda>e. e) (local # es)"
  obtain w where w: "select_winner ?cs = Some w"
    and resp: "resp = \<lparr>kres_key = key, kres_value = vv_value w, kres_timestamp = vv_timestamp w,
      kres_node_id = vv_node_id w\<rparr>"
    using assms(1) unfolding resolve_read_ok by blast
  have "Some w \<in> set (local # es)" using select_winner_mem [OF w] unfolding set_map_filter_id by simp
  moreover have "\<not> is_newer_than e' w" if "Some e' \<in> set (local # es)" for e'
  proof -
    have "stamp e' \<le> stamp w"
      using select_winner_max [OF w, of e'] assms(2) that unfolding set_map_filter_id by blast
    then show ?thesis using assms(2) that \<open>Some w \<in> set (local # es)\<close> by (simp add: not_newer_stamp)
  qed
  ultimately show ?thesis using resp by blast
qed

text \<open>
  C9. A quorum read answers with the newest version it saw: the answer is made of the local entry
  and the entries of at least \<open>r - 1\<close> distinct contacted peers that responded; a 200 carries one of
  those entries and none of them is newer, and a 404 means that none of them had an entry.
\<close>

theorem get_quorum_newest:
  assumes "get_key_coordinator own_port config choice results env start storage key r = res"
    and "http_status res = 200 \<or> http_status res = 404"
    and "\<And>t e. results t = Inr (True, Some e) \<Longrightarrow> stamped e"
    and "\<And>e. kv_get storage key = Some e \<Longrightarrow> stamped e"
  shows "\<exists>A \<subseteq> {0..<length (select_read_peers (peers_excluding config own_port) (r_required_of config r - 1) choice)}.
    r_required_of config r \<le> 1 + int (card A) \<and> (\<forall>t \<in> A. counting results t) \<and>
    (let seen = {e. kv_get storage key = Some e \<or> (\<exists>t \<in> A. results t = Inr (True, Some e))}
     in (http_status res = 404 \<longrightarrow> seen = {}) \<and>
        (\<forall>resp. res = Http_ok resp \<longrightarrow>
           (\<exists>e \<in> seen. resp = \<lparr>kres_key = key, kres_value = vv_value e, kres_timestamp = vv_timestamp e,
              kres_node_id = vv_node_id e\<rparr> \<and> (\<forall>e' \<in> seen. \<not> is_newer_than e' e))))"
proof -
  have "1 \<le> r_required_of config r \<and> r_required_of config r \<le> int (length (cc_nodes config))"
    by (rule ccontr) (use assms(1,2) in \<open>auto simp: get_key_coordinator_invalid http_error_def\<close>)
  then have v: "1 \<le> r_required_of config r" "r_required_of config r \<le> int (length (cc_nodes config))"
    by auto
  let ?rp = "read_peers (cc_timeout_seconds config) (peers_excluding config own_port) choice results env start
      (r_required_of config r - 1)"
  have res: "res = resolve_read key (r_required_of config r) (cc_timeout_seconds config) (kv_get storage key) (fst ?rp)"
    using assms(1) get_key_coordinator_valid [OF v] by metis
  obtain es where es: "fst ?rp = Inr es"
    using assms(2) res by (cases "fst ?rp") (auto simp: resolve_read_def)
  from read_peers_values [OF es] obtain A where
    A: "A \<subseteq> {0..<length (select_read_peers (peers_excluding config own_port) (r_required_of config r - 1) choice)}"
      "int (length es) = int (card A)" "\<forall>t \<in> A. counting results t" "set es = {v. \<exists>t \<in> A. results t = Inr (True, v)}"
    by blast
  define seen where "seen = {e. kv_get storage key = Some e \<or> (\<exists>t \<in> A. results t = Inr (True, Some e))}"
  have seen: "e \<in> seen \<longleftrightarrow> Some e \<in> set (kv_get storage key # es)" for e
    using A(4) by (auto simp: seen_def)
  have "r_required_of config r \<le> 1 + int (card A)" "http_status res = 404 \<longrightarrow> seen = {}"
    using assms(2) res es A(2) seen by (auto simp: resolve_read_status split: if_splits)
  moreover have "stamped e" if "e \<in> seen" for e using that assms(3,4) by (auto simp: seen_def)
  then have "\<exists>e \<in> seen. resp = \<lparr>kres_key = key, kres_value = vv_value e, kres_timestamp = vv_timestamp e,
      kres_node_id = vv_node_id e\<rparr> \<and> (\<forall>e' \<in> seen. \<not> is_newer_than e' e)" if "res = Http_ok resp" for resp
    using resolve_read_answers_newest [of key "r_required_of config r" "cc_timeout_seconds config" "kv_get storage key" es resp]
      that res es seen by (metis (no_types, lifting))
  ultimately show ?thesis using A(1,3) unfolding seen_def Let_def by blast
qed

theorem get_quorum_newest_witness:
  "\<exists>A \<subseteq> {0..<length (select_read_peers (peers_excluding (example_cluster 2 2) 8001)
        (r_required_of (example_cluster 2 2) None - 1) [1])}.
    r_required_of (example_cluster 2 2) None \<le> 1 + int (card A) \<and>
    (\<forall>t \<in> A. counting (\<lambda>t. Inr (True, Some (example_entry 9 6 ''n2''))) t) \<and>
    (let seen = {e. kv_get [(''k'', example_entry 1 5 ''n1'')] ''k'' = Some e \<or>
        (\<exists>t \<in> A. (\<lambda>t. Inr (True, Some (example_entry 9 6 ''n2'')) :: exn + bool \<times> nat versioned_value option) t =
          Inr (True, Some e))}
     in (http_status (Http_ok \<lparr>kres_key = ''k'', kres_value = 9::nat, kres_timestamp = Fin 6, kres_node_id = ''n2''\<rparr>) =
          404 \<longrightarrow> seen = {}) \<and>
        (\<forall>resp. Http_ok \<lparr>kres_key = ''k'', kres_value = 9, kres_timestamp = Fin 6, kres_node_id = ''n2''\<rparr> = Http_ok resp \<longrightarrow>
           (\<exists>e \<in> seen. resp = \<lparr>kres_key = ''k'', kres_value = vv_value e, kres_timestamp = vv_timestamp e,
              kres_node_id = vv_node_id e\<rparr> \<and> (\<forall>e' \<in> seen. \<not> is_newer_than e' e))))"
  by (rule get_quorum_newest [where own_port = 8001 and env = "\<lambda>i. (Fin 1, Completed [0])" and start = "Fin 0"])
    (auto simp: get_key_coordinator_valid read_peers_def select_read_peers_def gather_def wait_loop.simps
      wait_round_def asyncio_wait_def resolve_read_def select_winner_def kv_get_def map_filter_def
      lww_simps less_prod_def)

text \<open>
  Who a node's peers are: when the configuration lists distinct ports and the node's own port is
  one of them, the peers are exactly the other \<open>N - 1\<close> nodes, so a write quorum of \<open>N\<close> needs every
  node. When the own port is not listed (nothing checks that it is), all \<open>N\<close> configured nodes count as
  peers beside the node itself: \<open>N + 1\<close> copies share a quorum sized for \<open>N\<close>.
\<close>

theorem peers_excluding_count:
  assumes "distinct (map node_port (cc_nodes config))"
  shows "int (length (peers_excluding config own_port)) =
      (if own_port \<in> node_port ` set (cc_nodes config) then int (length (cc_nodes config)) - 1
       else int (length (cc_nodes config))) \<and>
    set (peers_excluding config own_port) = {n \<in> set (cc_nodes config). node_port n \<noteq> own_port} \<and>
    distinct (peers_excluding config own_port)"
proof -
  have "length (filter (\<lambda>n. node_port n \<noteq> own_port) ns) + (if own_port \<in> node_port ` set ns then 1 else 0) =
      length ns" if "distinct (map node_port ns)" for ns
    using that by (induction ns) auto
  from this [OF assms] show ?thesis
    using assms by (auto simp: peers_excluding_def distinct_map split: if_splits)
qed

theorem peers_excluding_count_witness:
  "int (length (peers_excluding (example_cluster 2 2) 9000)) =
      (if 9000 \<in> node_port ` set (cc_nodes (example_cluster 2 2)) then int (length (cc_nodes (example_cluster 2 2))) - 1
       else int (length (cc_nodes (example_cluster 2 2)))) \<and>
    set (peers_excluding (example_cluster 2 2) 9000) =
      {n \<in> set (cc_nodes (example_cluster 2 2)). node_port n \<noteq> 9000} \<and>
    distinct (peers_excluding (example_cluster 2 2) 9000)"
  by (rule peers_excluding_count) (simp add: example_node_def)

text \<open>
  The routes of a leaderless node: client reads and writes reach the coordinator handlers,
  deletes and health checks the generic ones, peers' reads the internal handler, and peers' writes the
  generic replicate handler unless a positive delay is injected, in which case the delayed one.
\<close>

theorem leaderless_routes:
  assumes "builtin_disjoint builtin"
  shows "dispatch (fst (leaderless_build_app builtin delay)) ''/kv/{key}'' ''PUT'' = Some Ep_put_key_coordinator \<and>
    dispatch (fst (leaderless_build_app builtin delay)) ''/kv/{key}'' ''GET'' = Some Ep_get_key_coordinator \<and>
    dispatch (fst (leaderless_build_app builtin delay)) ''/kv/{key}'' ''DELETE'' = Some Ep_delete_key \<and>
    dispatch (fst (leaderless_build_app builtin delay)) ''/health'' ''GET'' = Some Ep_health \<and>
    dispatch (fst (leaderless_build_app builtin delay)) ''/internal/kv/{key}'' ''GET'' = Some Ep_internal_get_key \<and>
    dispatch (fst (leaderless_build_app builtin delay)) ''/internal/replicate'' ''POST'' =
      Some (if flt (Fin 0) delay then Ep_replicate_delayed else Ep_replicate)"
  using assms
  by (simp add: leaderless_build_app_def create_app_def dispatch_add_route dispatch_replace_route_hit
      dispatch_replace_route_other_path dispatch_replace_route_single dispatch_builtin
      dispatch_builtin_replaced Let_def)

theorem leaderless_routes_witness:
  "dispatch (fst (leaderless_build_app [] (Fin 0))) ''/kv/{key}'' ''PUT'' = Some Ep_put_key_coordinator \<and>
    dispatch (fst (leaderless_build_app [] (Fin 0))) ''/kv/{key}'' ''GET'' = Some Ep_get_key_coordinator \<and>
    dispatch (fst (leaderless_build_app [] (Fin 0))) ''/kv/{key}'' ''DELETE'' = Some Ep_delete_key \<and>
    dispatch (fst (leaderless_build_app [] (Fin 0))) ''/health'' ''GET'' = Some Ep_health \<and>
    dispatch (fst (leaderless_build_app [] (Fin 0))) ''/internal/kv/{key}'' ''GET'' = Some Ep_internal_get_key \<and>
    dispatch (fst (leaderless_build_app [] (Fin 0))) ''/internal/replicate'' ''POST'' =
      Some (if flt (Fin 0) (Fin 0) then Ep_replicate_delayed else Ep_replicate)"
  by (rule leaderless_routes) (simp add: builtin_disjoint_def)

end
