(* ===== verification/KV_Cluster.thy ===== *)
theory KV_Cluster
  imports KV_Leaderless
begin

text \<open>
  A cluster of leaderless nodes as a transition system over whole runs: client requests at any
  node, the delivery of each call to its peer, the end of each call at its caller, and the passes of
  each coordinator's \<open>_gather\<close> loop are separate steps that interleave freely. The steps are made of
  the handlers and loop bodies of \<open>KV_Server\<close>, \<open>KV_Calls\<close> and \<open>KV_Leaderless\<close>; all nodes share one
  configuration, and \<open>ids\<close> names each node.
\<close>

section \<open>Calls in flight\<close>

text \<open>
  One call to a peer: \<open>cs_reply\<close> is what the peer's handler answered once the request was delivered,
  \<open>cs_result\<close> how the call ended at the caller. A call is delivered at most once (the client does not
  retry), and it may fail at the caller whether it was delivered or not; but a result that counts is
  the peer's own reply.
\<close>

record 'b call =
  cs_peer :: node
  cs_reply :: "'b http_result option"
  cs_result :: "'b call_result option"

definition start_call :: "node \<Rightarrow> 'b call" where
  "start_call peer = \<lparr>cs_peer = peer, cs_reply = None, cs_result = None\<rparr>"

fun reply_call :: "'b http_result \<Rightarrow> 'b call_result" where
  "reply_call (Http_ok b) = Call_response 200 (Body_ok b)"
| "reply_call (Http_error err) = Call_response (status_code err) Body_bad_schema"
| "reply_call (Http_crash e) = Call_response 500 Body_not_json"

fun counts :: "exn + bool \<times> 'c \<Rightarrow> bool" where
  "counts (Inl e) = False"
| "counts (Inr (b, v)) = b"

definition may_end :: "('b call_result \<Rightarrow> exn + bool \<times> 'c) \<Rightarrow> 'b call \<Rightarrow> 'b call_result \<Rightarrow> bool" where
  "may_end outcome c r \<longleftrightarrow>
     cs_result c = None \<and> (\<not> counts (outcome r) \<or> map_option reply_call (cs_reply c) = Some r)"

section \<open>A \<open>_gather\<close> loop between its awaits\<close>

record ('b, 'c) gathering =
  ga_calls :: "'b call list"
  ga_needed :: int
  ga_pending :: "nat list"
  ga_collected :: "'c list"

definition start_gathering :: "node list \<Rightarrow> int \<Rightarrow> ('b, 'c) gathering" where
  "start_gathering peers needed =
     \<lparr>ga_calls = map start_call peers, ga_needed = needed, ga_pending = [0..<length peers],
      ga_collected = []\<rparr>"

text \<open>\<open>task.result()\<close>: a task that is not done raises InvalidStateError.\<close>

definition task_result :: "('b call_result \<Rightarrow> exn + bool \<times> 'c) \<Rightarrow> 'b call list \<Rightarrow> nat \<Rightarrow> exn + bool \<times> 'c" where
  "task_result outcome calls t =
     (case cs_result (calls ! t) of None \<Rightarrow> Inl (OtherErr ''InvalidStateError'') | Some r \<Rightarrow> outcome r)"

text \<open>\<open>asyncio.wait\<close> only returns tasks that are done.\<close>

definition event_possible :: "'b call list \<Rightarrow> wait_event \<Rightarrow> bool" where
  "event_possible calls ev =
     (case ev of
        Cancelled \<Rightarrow> True
      | Completed ts \<Rightarrow> list_all (\<lambda>t. t < length calls \<and> cs_result (calls ! t) \<noteq> None) ts)"

text \<open>
  One pass of the loop with \<open>remaining\<close> seconds left: the new state, and the value \<open>_gather\<close> returns
  or the exception it raises, if the pass ended it.
\<close>

definition gather_round ::
    "('b call_result \<Rightarrow> exn + bool \<times> 'c) \<Rightarrow> pyfloat \<Rightarrow> wait_event \<Rightarrow> ('b, 'c) gathering \<Rightarrow>
     ('b, 'c) gathering \<times> (exn + 'c list) option" where
  "gather_round outcome remaining ev g =
     (if ga_pending g \<noteq> [] \<and> int (length (ga_collected g)) < ga_needed g
      then case wait_round (collect (task_result outcome (ga_calls g))) remaining ev (ga_pending g)
             (ga_collected g) of
          Round_next pending collected \<Rightarrow>
            (g\<lparr>ga_pending := pending, ga_collected := collected\<rparr>, None)
        | Round_break pending collected \<Rightarrow>
            (g\<lparr>ga_pending := pending, ga_collected := collected\<rparr>, Some (Inr collected))
        | Round_raise e pending \<Rightarrow> (g\<lparr>ga_pending := pending\<rparr>, Some (Inl e))
      else (g, Some (Inr (ga_collected g))))"

definition deliver :: "nat \<Rightarrow> 'b http_result \<Rightarrow> ('b, 'c) gathering \<Rightarrow> ('b, 'c) gathering" where
  "deliver t rep g = g\<lparr>ga_calls := (ga_calls g)[t := (ga_calls g ! t)\<lparr>cs_reply := Some rep\<rparr>]\<rparr>"

definition end_call :: "nat \<Rightarrow> 'b call_result \<Rightarrow> ('b, 'c) gathering \<Rightarrow> ('b, 'c) gathering" where
  "end_call t r g = g\<lparr>ga_calls := (ga_calls g)[t := (ga_calls g ! t)\<lparr>cs_result := Some r\<rparr>]\<rparr>"

section \<open>The cluster\<close>

record 'v write_ctx =
  wr_node :: node
  wr_request :: "'v replicate_request"
  wr_w :: int
  wr_applied :: bool
  wr_gathering :: "(replicate_response, unit) gathering"
  wr_answer :: "put_response http_result option"

record 'v read_ctx =
  rd_node :: node
  rd_key :: string
  rd_r :: int
  rd_local :: "'v versioned_value option"
  rd_gathering :: "('v kv_response, 'v versioned_value option) gathering"
  rd_answer :: "'v kv_response http_result option"

record 'v cluster =
  cl_stores :: "node \<Rightarrow> 'v kvstore"
  cl_writes :: "'v write_ctx list"
  cl_reads :: "'v read_ctx list"

definition cluster_init :: "'v cluster" where
  "cluster_init = \<lparr>cl_stores = (\<lambda>n. kv_init), cl_writes = [], cl_reads = []\<rparr>"

text \<open>
  The steps. \<open>Client_put\<close> and \<open>Client_get\<close> carry the clock reading and the random choice of peers of
  the handler; \<open>Deliver\<close>, \<open>End\<close> and \<open>Round\<close> steps name a write or read by its number and a call by its
  position; \<open>Replicate_direct\<close> is a replicate request from outside the coordinators.
\<close>

datatype 'v action =
    Client_put node string "'v put_request" "int option" pyfloat
  | Client_get node string "int option" "nat list"
  | Client_delete node string
  | Replicate_direct node "'v replicate_request"
  | Deliver_write nat nat
  | End_write nat nat "replicate_response call_result"
  | Put_round nat pyfloat wait_event
  | Deliver_read nat nat
  | End_read nat nat "'v kv_response call_result"
  | Get_round nat pyfloat wait_event

definition start_put ::
    "cluster_config \<Rightarrow> (node \<Rightarrow> string) \<Rightarrow> 'v cluster \<Rightarrow> node \<Rightarrow> string \<Rightarrow> 'v put_request \<Rightarrow> int option \<Rightarrow>
     pyfloat \<Rightarrow> 'v cluster" where
  "start_put config ids s n key body w now =
     (let w_required = w_required_of config w
      in case validate_quorum_param w_required ''w'' (int (length (cc_nodes config))) of
           Inl err \<Rightarrow> s
         | Inr _ \<Rightarrow>
             (let (applied, store') = kv_put (cl_stores s n) key (preq_value body) now (ids n);
                  request = \<lparr>rreq_key = key, rreq_value = preq_value body, rreq_timestamp = now,
                    rreq_node_id = ids n\<rparr>
              in s\<lparr>cl_stores := (cl_stores s)(n := store'),
                   cl_writes := cl_writes s @ [\<lparr>wr_node = n, wr_request = request, wr_w = w_required,
                     wr_applied = applied,
                     wr_gathering =
                       start_gathering (peers_excluding config (node_port n)) (w_required - 1),
                     wr_answer = None\<rparr>]\<rparr>))"

definition read_targets :: "cluster_config \<Rightarrow> node \<Rightarrow> int \<Rightarrow> nat list \<Rightarrow> node list" where
  "read_targets config n needed choice =
     (if needed \<le> 0 then [] else select_read_peers (peers_excluding config (node_port n)) needed choice)"

definition choice_possible :: "cluster_config \<Rightarrow> node \<Rightarrow> int \<Rightarrow> nat list \<Rightarrow> bool" where
  "choice_possible config n needed choice \<longleftrightarrow>
     needed \<le> 0 \<or> int (length (peers_excluding config (node_port n))) \<le> needed \<or>
     is_sample (peers_excluding config (node_port n)) needed choice"

definition start_get ::
    "cluster_config \<Rightarrow> 'v cluster \<Rightarrow> node \<Rightarrow> string \<Rightarrow> int option \<Rightarrow> nat list \<Rightarrow> 'v cluster" where
  "start_get config s n key r choice =
     (let r_required = r_required_of config r
      in case validate_quorum_param r_required ''r'' (int (length (cc_nodes config))) of
           Inl err \<Rightarrow> s
         | Inr _ \<Rightarrow>
             if \<not> choice_possible config n (r_required - 1) choice then s
             else s\<lparr>cl_reads := cl_reads s @ [\<lparr>rd_node = n, rd_key = key, rd_r = r_required,
                    rd_local = kv_get (cl_stores s n) key,
                    rd_gathering =
                      start_gathering (read_targets config n (r_required - 1) choice) (r_required - 1),
                    rd_answer = None\<rparr>]\<rparr>)"

definition deliver_write :: "'v cluster \<Rightarrow> nat \<Rightarrow> nat \<Rightarrow> 'v cluster" where
  "deliver_write s i t =
     (if i < length (cl_writes s) \<and> t < length (ga_calls (wr_gathering (cl_writes s ! i))) then
        let wr = cl_writes s ! i;
            c = ga_calls (wr_gathering wr) ! t
        in if cs_reply c \<noteq> None then s
           else (let (rep, store') = replicate_key (cl_stores s (cs_peer c)) (wr_request wr)
                 in s\<lparr>cl_stores := (cl_stores s)(cs_peer c := store'),
                      cl_writes := (cl_writes s)[i := wr\<lparr>wr_gathering := deliver t rep (wr_gathering wr)\<rparr>]\<rparr>)
      else s)"

definition end_write :: "'v cluster \<Rightarrow> nat \<Rightarrow> nat \<Rightarrow> replicate_response call_result \<Rightarrow> 'v cluster" where
  "end_write s i t r =
     (if i < length (cl_writes s) \<and> t < length (ga_calls (wr_gathering (cl_writes s ! i))) then
        let wr = cl_writes s ! i
        in if may_end replicate_outcome (ga_calls (wr_gathering wr) ! t) r
           then s\<lparr>cl_writes := (cl_writes s)[i := wr\<lparr>wr_gathering := end_call t r (wr_gathering wr)\<rparr>]\<rparr>
           else s
      else s)"

definition put_round :: "cluster_config \<Rightarrow> 'v cluster \<Rightarrow> nat \<Rightarrow> pyfloat \<Rightarrow> wait_event \<Rightarrow> 'v cluster" where
  "put_round config s i remaining ev =
     (if i < length (cl_writes s) then
        let wr = cl_writes s ! i
        in if wr_answer wr \<noteq> None \<or> \<not> event_possible (ga_calls (wr_gathering wr)) ev then s
           else (let (g, res) = gather_round replicate_outcome remaining ev (wr_gathering wr);
                     answer = map_option (\<lambda>acked. resolve_put (wr_w wr) (cc_timeout_seconds config)
                       (wr_applied wr) (rreq_timestamp (wr_request wr))
                       (bind_exn acked (\<lambda>a. Inr (int (length a))))) res
                 in s\<lparr>cl_writes := (cl_writes s)[i := wr\<lparr>wr_gathering := g, wr_answer := answer\<rparr>]\<rparr>)
      else s)"

text \<open>
  The peer's \<open>internal_get_key\<close> is called with the key that the URL leads to, or no handler is and the
  framework answers 404.
\<close>

definition peer_answer :: "url_routing \<Rightarrow> node \<Rightarrow> 'v kvstore \<Rightarrow> string \<Rightarrow> 'v kv_response http_result" where
  "peer_answer net n store key =
     (case reached_key net n key of
        None \<Rightarrow> Http_error (http_error 404 Route_not_found)
      | Some k \<Rightarrow> internal_get_key store k)"

definition deliver_read :: "url_routing \<Rightarrow> 'v cluster \<Rightarrow> nat \<Rightarrow> nat \<Rightarrow> 'v cluster" where
  "deliver_read net s j t =
     (if j < length (cl_reads s) \<and> t < length (ga_calls (rd_gathering (cl_reads s ! j))) then
        let rd = cl_reads s ! j;
            c = ga_calls (rd_gathering rd) ! t
        in if cs_reply c \<noteq> None then s
           else s\<lparr>cl_reads := (cl_reads s)[j := rd\<lparr>rd_gathering :=
                  deliver t (peer_answer net (cs_peer c) (cl_stores s (cs_peer c)) (rd_key rd)) (rd_gathering rd)\<rparr>]\<rparr>
      else s)"

definition end_read :: "'v cluster \<Rightarrow> nat \<Rightarrow> nat \<Rightarrow> 'v kv_response call_result \<Rightarrow> 'v cluster" where
  "end_read s j t r =
     (if j < length (cl_reads s) \<and> t < length (ga_calls (rd_gathering (cl_reads s ! j))) then
        let rd = cl_reads s ! j
        in if may_end read_outcome (ga_calls (rd_gathering rd) ! t) r
           then s\<lparr>cl_reads := (cl_reads s)[j := rd\<lparr>rd_gathering := end_call t r (rd_gathering rd)\<rparr>]\<rparr>
           else s
      else s)"

definition get_round :: "cluster_config \<Rightarrow> 'v cluster \<Rightarrow> nat \<Rightarrow> pyfloat \<Rightarrow> wait_event \<Rightarrow> 'v cluster" where
  "get_round config s j remaining ev =
     (if j < length (cl_reads s) then
        let rd = cl_reads s ! j
        in if rd_answer rd \<noteq> None \<or> \<not> event_possible (ga_calls (rd_gathering rd)) ev then s
           else (let (g, res) = gather_round read_outcome remaining ev (rd_gathering rd);
                     answer = map_option (resolve_read (rd_key rd) (rd_r rd) (cc_timeout_seconds config)
                       (rd_local rd)) res
                 in s\<lparr>cl_reads := (cl_reads s)[j := rd\<lparr>rd_gathering := g, rd_answer := answer\<rparr>]\<rparr>)
      else s)"

text \<open>Requests only reach nodes of the cluster.\<close>

fun cluster_step :: "url_routing \<Rightarrow> cluster_config \<Rightarrow> (node \<Rightarrow> string) \<Rightarrow> 'v cluster \<Rightarrow> 'v action \<Rightarrow> 'v cluster" where
  "cluster_step net config ids s (Client_put n key body w now) =
     (if n \<in> set (cc_nodes config) then start_put config ids s n key body w now else s)"
| "cluster_step net config ids s (Client_get n key r choice) =
     (if n \<in> set (cc_nodes config) then start_get config s n key r choice else s)"
| "cluster_step net config ids s (Client_delete n key) =
     s\<lparr>cl_stores := (cl_stores s)(n := snd (delete_key (cl_stores s n) key))\<rparr>"
| "cluster_step net config ids s (Replicate_direct n body) =
     s\<lparr>cl_stores := (cl_stores s)(n := snd (replicate_key (cl_stores s n) body))\<rparr>"
| "cluster_step net config ids s (Deliver_write i t) = deliver_write s i t"
| "cluster_step net config ids s (End_write i t r) = end_write s i t r"
| "cluster_step net config ids s (Put_round i remaining ev) = put_round config s i remaining ev"
| "cluster_step net config ids s (Deliver_read j t) = deliver_read net s j t"
| "cluster_step net config ids s (End_read j t r) = end_read s j t r"
| "cluster_step net config ids s (Get_round j remaining ev) = get_round config s j remaining ev"

fun cluster_run :: "url_routing \<Rightarrow> cluster_config \<Rightarrow> (node \<Rightarrow> string) \<Rightarrow> 'v action list \<Rightarrow> 'v cluster \<Rightarrow> 'v cluster" where
  "cluster_run net config ids [] s = s"
| "cluster_run net config ids (a # as) s = cluster_run net config ids as (cluster_step net config ids s a)"

lemma cluster_run_append:
  "cluster_run net config ids (as @ bs) s = cluster_run net config ids bs (cluster_run net config ids as s)"
  by (induction as arbitrary: s) simp_all

lemma cluster_run_induct:
  assumes "I s" "\<And>a s. a \<in> set as \<Longrightarrow> I s \<Longrightarrow> I (cluster_step net config ids s a)"
  shows "I (cluster_run net config ids as s)"
  using assms by (induction as arbitrary: s) auto

section \<open>The accounting of a gathering\<close>

text \<open>
  \<open>calls_ok\<close>: every delivered reply satisfies \<open>P\<close> for its peer, and every ended call that counts ended
  with that reply. \<open>gather_ok\<close>: the collected values are those of as many distinct calls that ended
  and count, none of them still pending.
\<close>

definition calls_ok ::
    "('b call_result \<Rightarrow> exn + bool \<times> 'c) \<Rightarrow> (node \<Rightarrow> 'b http_result \<Rightarrow> bool) \<Rightarrow> 'b call list \<Rightarrow> bool" where
  "calls_ok outcome P calls \<longleftrightarrow>
     (\<forall>c \<in> set calls. (\<forall>rep. cs_reply c = Some rep \<longrightarrow> P (cs_peer c) rep) \<and>
        (\<forall>r. cs_result c = Some r \<longrightarrow> counts (outcome r) \<longrightarrow> map_option reply_call (cs_reply c) = Some r))"

definition gather_ok :: "('b call_result \<Rightarrow> exn + bool \<times> 'c) \<Rightarrow> ('b, 'c) gathering \<Rightarrow> bool" where
  "gather_ok outcome g \<longleftrightarrow>
     distinct (ga_pending g) \<and> set (ga_pending g) \<subseteq> {0..<length (ga_calls g)} \<and>
     (\<exists>A \<subseteq> {0..<length (ga_calls g)} - set (ga_pending g). card A = length (ga_collected g) \<and>
        (\<forall>t \<in> A. counts (task_result outcome (ga_calls g) t)) \<and>
        set (ga_collected g) = {v. \<exists>t \<in> A. task_result outcome (ga_calls g) t = Inr (True, v)})"

lemma gather_okE:
  assumes "gather_ok outcome g"
  obtains A where "A \<subseteq> {0..<length (ga_calls g)} - set (ga_pending g)" "finite A"
    "card A = length (ga_collected g)" "\<forall>t \<in> A. counts (task_result outcome (ga_calls g) t)"
    "set (ga_collected g) = {v. \<exists>t \<in> A. task_result outcome (ga_calls g) t = Inr (True, v)}"
proof -
  have "\<exists>A. A \<subseteq> {0..<length (ga_calls g)} - set (ga_pending g) \<and>
    card A = length (ga_collected g) \<and> (\<forall>t \<in> A. counts (task_result outcome (ga_calls g) t)) \<and>
    set (ga_collected g) = {v. \<exists>t \<in> A. task_result outcome (ga_calls g) t = Inr (True, v)}"
    using assms unfolding gather_ok_def by (elim conjE)
  then obtain A where A: "A \<subseteq> {0..<length (ga_calls g)} - set (ga_pending g) \<and>
    card A = length (ga_collected g) \<and> (\<forall>t \<in> A. counts (task_result outcome (ga_calls g) t)) \<and>
    set (ga_collected g) = {v. \<exists>t \<in> A. task_result outcome (ga_calls g) t = Inr (True, v)}" ..
  then have "finite A" using finite_subset [of A "{0..<length (ga_calls g)}"] by auto
  with A show thesis by (intro that [of A]) simp_all
qed

lemma calls_ok_mono:
  "calls_ok outcome P calls \<Longrightarrow> (\<And>n rep. P n rep \<Longrightarrow> Q n rep) \<Longrightarrow> calls_ok outcome Q calls"
  by (auto simp: calls_ok_def)

lemma calls_ok_start [simp]: "calls_ok outcome P (map start_call peers)"
  by (auto simp: calls_ok_def start_call_def)

lemma start_gathering_simps [simp]:
  "ga_calls (start_gathering peers needed) = map start_call peers"
  "ga_collected (start_gathering peers needed) = []"
  "cs_peer \<circ> start_call = id"
  by (simp_all add: start_gathering_def start_call_def fun_eq_iff)

lemma gather_ok_start [simp]: "gather_ok outcome (start_gathering peers needed)"
  by (auto simp: gather_ok_def start_gathering_def intro!: exI [of _ "{}"])

lemma calls_ok_deliver:
  assumes "calls_ok outcome P (ga_calls g)" "t < length (ga_calls g)" "cs_reply (ga_calls g ! t) = None"
    and "P (cs_peer (ga_calls g ! t)) rep"
  shows "calls_ok outcome P (ga_calls (deliver t rep g))"
proof -
  let ?c = "ga_calls g ! t"
  have c: "?c \<in> set (ga_calls g)" using assms(2) by simp
  then have "\<forall>r. cs_result ?c = Some r \<longrightarrow> \<not> counts (outcome r)"
    using assms(1,3) by (auto simp: calls_ok_def)
  then show ?thesis
    using assms unfolding deliver_def calls_ok_def
    by (auto dest!: set_update_subset_insert [THEN subsetD])
qed

lemma calls_ok_end_call:
  assumes "calls_ok outcome P (ga_calls g)" "t < length (ga_calls g)"
    and "may_end outcome (ga_calls g ! t) r"
  shows "calls_ok outcome P (ga_calls (end_call t r g))"
proof -
  have "ga_calls g ! t \<in> set (ga_calls g)" using assms(2) by simp
  then show ?thesis
    using assms unfolding end_call_def calls_ok_def may_end_def
    by (auto dest!: set_update_subset_insert [THEN subsetD])
qed

lemma task_result_deliver [simp]:
  "task_result outcome (ga_calls (deliver t rep g)) t' = task_result outcome (ga_calls g) t'"
  by (cases "t < length (ga_calls g)"; cases "t' = t")
    (auto simp: task_result_def deliver_def list_update_beyond)

lemma gathering_deliver_simps [simp]:
  "length (ga_calls (deliver t rep g)) = length (ga_calls g)"
  "ga_pending (deliver t rep g) = ga_pending g" "ga_collected (deliver t rep g) = ga_collected g"
  "map cs_peer (ga_calls (deliver t rep g)) = map cs_peer (ga_calls g)"
  "length (ga_calls (end_call t r g)) = length (ga_calls g)"
  "ga_pending (end_call t r g) = ga_pending g" "ga_collected (end_call t r g) = ga_collected g"
  "map cs_peer (ga_calls (end_call t r g)) = map cs_peer (ga_calls g)"
  by (cases "t < length (ga_calls g)";
      simp add: deliver_def end_call_def map_update list_update_beyond list_update_same_conv)+

lemma gather_ok_deliver: "gather_ok outcome g \<Longrightarrow> gather_ok outcome (deliver t rep g)"
  by (simp add: gather_ok_def)

lemma gather_ok_end_call:
  assumes "gather_ok outcome g" "may_end outcome (ga_calls g ! t) r"
  shows "gather_ok outcome (end_call t r g)"
proof -
  obtain A where A: "A \<subseteq> {0..<length (ga_calls g)} - set (ga_pending g)" "card A = length (ga_collected g)"
    "\<forall>t \<in> A. counts (task_result outcome (ga_calls g) t)"
    "set (ga_collected g) = {v. \<exists>t \<in> A. task_result outcome (ga_calls g) t = Inr (True, v)}"
    using assms(1) by (auto simp: gather_ok_def)
  have "t \<notin> A" using A(3) assms(2) by (auto simp: task_result_def may_end_def)
  then have same: "task_result outcome (ga_calls (end_call t r g)) u = task_result outcome (ga_calls g) u"
    if "u \<in> A" for u
  proof -
    have "u \<noteq> t" using that \<open>t \<notin> A\<close> by blast
    then show ?thesis by (simp add: task_result_def end_call_def)
  qed
  show ?thesis
    using A assms(1) same unfolding gather_ok_def
    by (intro conjI exI [of _ A]) auto
qed

lemma counts_iff: "counts x \<longleftrightarrow> (\<exists>v. x = Inr (True, v))"
  by (cases x rule: counts.cases) auto

lemma gather_ok_next:
  assumes "gather_ok outcome g"
    and w: "asyncio_wait (ga_pending g) ts = (dn, p)"
    and c: "collect (task_result outcome (ga_calls g)) dn (ga_collected g) = Inr c"
  shows "gather_ok outcome (g\<lparr>ga_pending := p, ga_collected := c\<rparr>)"
proof -
  let ?results = "task_result outcome (ga_calls g)"
  have pending: "distinct (ga_pending g)" "set (ga_pending g) \<subseteq> {0..<length (ga_calls g)}"
    using assms(1) by (auto simp: gather_ok_def)
  note part = asyncio_wait_partition [OF w]
  note eff = collect_effect [OF part(3) c]
  obtain A where A: "A \<subseteq> {0..<length (ga_calls g)} - set (ga_pending g)" "finite A" "card A = length (ga_collected g)"
    "\<forall>t \<in> A. counts (?results t)" "set (ga_collected g) = {v. \<exists>t \<in> A. ?results t = Inr (True, v)}"
    using assms(1) by (elim gather_okE)
  let ?B = "{t \<in> set dn. counting ?results t}"
  have "A \<inter> ?B = {}" using A(1) part(1) by auto
  then have "card (A \<union> ?B) = length c"
    using A(2,3) eff by (simp add: card_Un_disjoint)
  moreover have "A \<union> ?B \<subseteq> {0..<length (ga_calls g)} - set p"
    using A(1) part(1,2) pending(2) by auto
  moreover have "set c = {v. \<exists>t \<in> A \<union> ?B. ?results t = Inr (True, v)}"
    using eff A(5) by (auto simp: counting_def)
  moreover have "\<forall>t \<in> A \<union> ?B. counts (?results t)"
    using A(4) by (auto simp: counts_iff counting_def)
  moreover have "distinct p" "set p \<subseteq> {0..<length (ga_calls g)}"
    using part pending by auto
  ultimately show ?thesis
    unfolding gather_ok_def by (intro conjI exI [of _ "A \<union> ?B"]) simp_all
qed

lemma gather_ok_round:
  assumes "gather_ok outcome g" "gather_round outcome remaining ev g = (g', res)"
  shows "gather_ok outcome g' \<and> ga_calls g' = ga_calls g \<and> (\<forall>vs. res = Some (Inr vs) \<longrightarrow> vs = ga_collected g')"
proof (cases "ga_pending g \<noteq> [] \<and> int (length (ga_collected g)) < ga_needed g")
  case False
  with assms show ?thesis by (auto simp: gather_round_def)
next
  case True
  let ?results = "task_result outcome (ga_calls g)"
  define r where "r = wait_round (collect ?results) remaining ev (ga_pending g) (ga_collected g)"
  show ?thesis
  proof (cases r)
    case (Round_break p c)
    with True assms wait_round_break [OF Round_break [unfolded r_def]] show ?thesis
      by (auto simp: gather_round_def r_def)
  next
    case (Round_raise e p)
    with True assms(2) have g': "g' = g\<lparr>ga_pending := p\<rparr>" "res = Some (Inl e)"
      by (auto simp: gather_round_def r_def)
    have "distinct p \<and> set p \<subseteq> set (ga_pending g)"
      using wait_round_raise [OF Round_raise [unfolded r_def]] assms(1) by (simp add: gather_ok_def)
    then show ?thesis
      using assms(1) unfolding g' gather_ok_def by fastforce
  next
    case (Round_next p c)
    with True assms(2) have g': "g' = g\<lparr>ga_pending := p, ga_collected := c\<rparr>" "res = None"
      by (auto simp: gather_round_def r_def)
    obtain ts dn where "asyncio_wait (ga_pending g) ts = (dn, p)" "collect ?results dn (ga_collected g) = Inr c"
      using Round_next unfolding r_def by (elim wait_round_cases)
    then show ?thesis using gather_ok_next [OF assms(1)] by (simp add: g')
  qed
qed

section \<open>What a read has seen\<close>

lemma read_outcome_internal:
  "read_outcome (reply_call (internal_get_key st key)) = Inr (True, kv_get st key)"
  by (auto simp: internal_get_key_def read_outcome_def http_error_def split: option.split)

text \<open>
  \<open>E n v\<close> says that node \<open>n\<close> held \<open>v\<close> at some moment while the read was under way; \<open>read_ok\<close>, that everything
  the read knows is such evidence, about distinct nodes.
\<close>

definition saw :: "(node \<Rightarrow> 'v versioned_value option \<Rightarrow> bool) \<Rightarrow> string \<Rightarrow> node \<Rightarrow> 'v kv_response http_result \<Rightarrow> bool" where
  "saw E key n rep \<longleftrightarrow> (\<exists>st. rep = internal_get_key st key \<and> E n (kv_get st key))"

definition read_ok :: "cluster_config \<Rightarrow> (node \<Rightarrow> 'v versioned_value option \<Rightarrow> bool) \<Rightarrow> 'v read_ctx \<Rightarrow> bool" where
  "read_ok config E rd \<longleftrightarrow>
     rd_node rd \<in> set (cc_nodes config) \<and> E (rd_node rd) (rd_local rd) \<and>
     calls_ok read_outcome (saw E (rd_key rd)) (ga_calls (rd_gathering rd)) \<and>
     gather_ok read_outcome (rd_gathering rd) \<and>
     distinct (map cs_peer (ga_calls (rd_gathering rd))) \<and>
     set (map cs_peer (ga_calls (rd_gathering rd))) \<subseteq> set (cc_nodes config) - {rd_node rd} \<and>
     (\<forall>res. rd_answer rd = Some res \<longrightarrow> http_status res = 200 \<or> http_status res = 404 \<longrightarrow>
        res = resolve_read (rd_key rd) (rd_r rd) (cc_timeout_seconds config) (rd_local rd)
          (Inr (ga_collected (rd_gathering rd))))"

definition reads_ok ::
    "cluster_config \<Rightarrow> (node \<Rightarrow> 'v versioned_value option \<Rightarrow> bool) \<Rightarrow> string \<Rightarrow> nat \<Rightarrow> 'v cluster \<Rightarrow> bool" where
  "reads_ok config E key j0 s \<longleftrightarrow>
     (\<forall>j. j0 \<le> j \<longrightarrow> j < length (cl_reads s) \<longrightarrow> rd_key (cl_reads s ! j) = key \<longrightarrow> read_ok config E (cl_reads s ! j))"

lemma peers_excluding_props:
  assumes "distinct (map node_port (cc_nodes config))"
  shows "distinct (peers_excluding config own_port)"
    "set (peers_excluding config own_port) = {n \<in> set (cc_nodes config). node_port n \<noteq> own_port}"
  using assms by (auto simp: peers_excluding_def distinct_map)

lemma read_targets_props:
  assumes "distinct (map node_port (cc_nodes config))" "choice_possible config n needed choice"
  shows "distinct (read_targets config n needed choice)"
    "set (read_targets config n needed choice) \<subseteq> set (cc_nodes config) - {n}"
proof -
  let ?peers = "peers_excluding config (node_port n)"
  note p = peers_excluding_props [OF assms(1), of "node_port n"]
  have sample: "distinct (map (\<lambda>i. ?peers ! i) choice) \<and> set (map (\<lambda>i. ?peers ! i) choice) \<subseteq> set ?peers"
    if "is_sample ?peers needed choice"
    using that p(1) by (auto simp: is_sample_def distinct_map inj_on_def nth_eq_iff_index_eq)
  show "distinct (read_targets config n needed choice)"
    using assms(2) p(1) sample by (auto simp: read_targets_def choice_possible_def select_read_peers_def)
  have "set (read_targets config n needed choice) \<subseteq> set ?peers"
    using assms(2) sample by (auto simp: read_targets_def choice_possible_def select_read_peers_def)
  then show "set (read_targets config n needed choice) \<subseteq> set (cc_nodes config) - {n}"
    using p(2) by auto
qed

lemma read_ok_round:
  assumes "read_ok config E rd" "rd_answer rd = None"
    and "gather_round read_outcome remaining ev (rd_gathering rd) = (g, res)"
  shows "read_ok config E (rd\<lparr>rd_gathering := g, rd_answer := map_option
    (resolve_read (rd_key rd) (rd_r rd) (cc_timeout_seconds config) (rd_local rd)) res\<rparr>)"
proof -
  have g: "gather_ok read_outcome g" "ga_calls g = ga_calls (rd_gathering rd)"
    "\<And>vs. res = Some (Inr vs) \<Longrightarrow> vs = ga_collected g"
    using gather_ok_round [OF _ assms(3)] assms(1) by (auto simp: read_ok_def)
  have "resolve_read (rd_key rd) (rd_r rd) (cc_timeout_seconds config) (rd_local rd) out =
      resolve_read (rd_key rd) (rd_r rd) (cc_timeout_seconds config) (rd_local rd) (Inr (ga_collected g))"
    if "res = Some out" "http_status (resolve_read (rd_key rd) (rd_r rd) (cc_timeout_seconds config)
      (rd_local rd) out) \<in> {200, 404}" for out
    using that g(3) by (cases out) (auto simp: resolve_read_def)
  then show ?thesis using assms(1) g(1,2) by (auto simp: read_ok_def)
qed

lemma reads_unchanged [simp]:
  "cl_reads (start_put config ids s n key body w now) = cl_reads s"
  "cl_reads (deliver_write s i t) = cl_reads s"
  "cl_reads (end_write s i t r) = cl_reads s"
  "cl_reads (put_round config s i remaining ev) = cl_reads s"
  by (simp_all add: start_put_def deliver_write_def end_write_def put_round_def Let_def case_prod_beta
      split: sum.split)

lemma reads_ok_update:
  assumes "reads_ok config E key j0 s" "cl_reads s' = (cl_reads s)[j := rd]"
    and "rd_key rd = rd_key (cl_reads s ! j)"
    and "read_ok config E (cl_reads s ! j) \<Longrightarrow> read_ok config E rd"
  shows "reads_ok config E key j0 s'"
  unfolding reads_ok_def
proof (intro allI impI)
  fix j'
  assume j': "j0 \<le> j'" "j' < length (cl_reads s')" "rd_key (cl_reads s' ! j') = key"
  then show "read_ok config E (cl_reads s' ! j')"
    using assms by (cases "j' = j") (auto simp: reads_ok_def)
qed

lemma reads_ok_start_get:
  assumes "reads_ok config E key j0 s" "distinct (map node_port (cc_nodes config))"
    and "\<And>n. E n (kv_get (cl_stores s n) key)"
  shows "reads_ok config E key j0 (cluster_step net config ids s (Client_get n k r choice))"
proof -
  let ?s' = "cluster_step net config ids s (Client_get n k r choice)"
  let ?q = "r_required_of config r"
  let ?rd = "\<lparr>rd_node = n, rd_key = k, rd_r = ?q, rd_local = kv_get (cl_stores s n) k,
    rd_gathering = start_gathering (read_targets config n (?q - 1) choice) (?q - 1), rd_answer = None\<rparr>"
  have new: "read_ok config E ?rd"
    if "k = key" "n \<in> set (cc_nodes config)" "choice_possible config n (?q - 1) choice"
    using that assms(3) read_targets_props [OF assms(2) that(3)] by (simp add: read_ok_def)
  have "?s' = s \<or> n \<in> set (cc_nodes config) \<and> choice_possible config n (?q - 1) choice \<and>
    ?s' = s\<lparr>cl_reads := cl_reads s @ [?rd]\<rparr>"
    by (auto simp: start_get_def Let_def split: sum.split)
  then show ?thesis
    using assms(1) new by (auto simp: reads_ok_def nth_append less_Suc_eq)
qed

lemma reads_ok_deliver:
  assumes ok: "reads_ok config E key j0 s" and E: "\<And>n. E n (kv_get (cl_stores s n) key)"
    and arrives: "key_arrives net (cc_nodes config) key"
  shows "reads_ok config E key j0 (deliver_read net s j t)"
proof (cases "deliver_read net s j t = s")
  case False
  let ?rd = "cl_reads s ! j"
  let ?c = "ga_calls (rd_gathering ?rd) ! t"
  let ?rep = "peer_answer net (cs_peer ?c) (cl_stores s (cs_peer ?c)) (rd_key ?rd)"
  have j: "j < length (cl_reads s)" "t < length (ga_calls (rd_gathering ?rd))" "cs_reply ?c = None"
    and s': "deliver_read net s j t = s\<lparr>cl_reads := (cl_reads s)[j := ?rd\<lparr>rd_gathering := deliver t ?rep (rd_gathering ?rd)\<rparr>]\<rparr>"
    using False by (auto simp: deliver_read_def Let_def split: if_splits)
  show ?thesis
  proof (cases "rd_key ?rd = key")
    case True
    have "read_ok config E (?rd\<lparr>rd_gathering := deliver t ?rep (rd_gathering ?rd)\<rparr>)" if rd: "read_ok config E ?rd"
    proof -
      have "cs_peer ?c \<in> set (map cs_peer (ga_calls (rd_gathering ?rd)))" using j(2) by simp
      then have "cs_peer ?c \<in> set (cc_nodes config)" using rd unfolding read_ok_def by blast
      then have "saw E key (cs_peer ?c) ?rep"
        using True E arrives by (auto simp: saw_def peer_answer_def key_arrives_def)
      then have "calls_ok read_outcome (saw E (rd_key ?rd)) (ga_calls (deliver t ?rep (rd_gathering ?rd)))"
        using rd True by (intro calls_ok_deliver j(2,3)) (simp_all add: read_ok_def)
      with rd show ?thesis by (simp add: read_ok_def gather_ok_deliver)
    qed
    then show ?thesis
      using reads_ok_update [OF ok, of "deliver_read net s j t" j] s' by simp
  qed (use ok s' j in \<open>auto simp: reads_ok_def nth_list_update\<close>)
qed (use ok in simp)

lemma reads_ok_end:
  assumes ok: "reads_ok config E key j0 s"
  shows "reads_ok config E key j0 (end_read s j t r)"
proof (cases "end_read s j t r = s")
  case False
  let ?rd = "cl_reads s ! j"
  have j: "t < length (ga_calls (rd_gathering ?rd))" "may_end read_outcome (ga_calls (rd_gathering ?rd) ! t) r"
    and s': "end_read s j t r = s\<lparr>cl_reads := (cl_reads s)[j := ?rd\<lparr>rd_gathering := end_call t r (rd_gathering ?rd)\<rparr>]\<rparr>"
    using False by (auto simp: end_read_def Let_def split: if_splits)
  have "read_ok config E ?rd \<Longrightarrow> read_ok config E (?rd\<lparr>rd_gathering := end_call t r (rd_gathering ?rd)\<rparr>)"
    using calls_ok_end_call [OF _ j] gather_ok_end_call [OF _ j(2)] by (simp add: read_ok_def)
  then show ?thesis
    using reads_ok_update [OF ok, of "end_read s j t r" j] s' by simp
qed (use ok in simp)

lemma reads_ok_get_round:
  assumes ok: "reads_ok config E key j0 s"
  shows "reads_ok config E key j0 (get_round config s j remaining ev)"
proof (cases "get_round config s j remaining ev = s")
  case False
  let ?rd = "cl_reads s ! j"
  obtain g res where gr: "gather_round read_outcome remaining ev (rd_gathering ?rd) = (g, res)"
    by fastforce
  have open_read: "rd_answer ?rd = None"
    and s': "get_round config s j remaining ev = s\<lparr>cl_reads := (cl_reads s)[j := ?rd\<lparr>rd_gathering := g,
      rd_answer := map_option (resolve_read (rd_key ?rd) (rd_r ?rd) (cc_timeout_seconds config) (rd_local ?rd)) res\<rparr>]\<rparr>"
    using False gr by (auto simp: get_round_def Let_def split: if_splits)
  show ?thesis
    using reads_ok_update [OF ok, of "get_round config s j remaining ev" j] s' read_ok_round [OF _ open_read gr] by simp
qed (use ok in simp)

lemma reads_ok_step:
  assumes "reads_ok config E key j0 s" "distinct (map node_port (cc_nodes config))"
    and "\<And>n. E n (kv_get (cl_stores s n) key)" "key_arrives net (cc_nodes config) key"
  shows "reads_ok config E key j0 (cluster_step net config ids s a)"
proof (cases a)
  case (Client_get n k r choice)
  then show ?thesis using reads_ok_start_get [of config E key j0 s, OF assms(1-3)] by blast
next
  case (Deliver_read j t)
  then show ?thesis using reads_ok_deliver [of config E key j0 s, OF assms(1,3,4)] by simp
next
  case (End_read j t r)
  then show ?thesis using reads_ok_end [OF assms(1)] by simp
next
  case (Get_round j remaining ev)
  then show ?thesis using reads_ok_get_round [OF assms(1)] by simp
qed (use assms(1) in \<open>simp_all add: reads_ok_def\<close>)

text \<open>
  The specification of a quorum read: the answer is the newest of what \<open>r\<close> distinct nodes held, or a
  404 when they held nothing.
\<close>

definition newest_of :: "string \<Rightarrow> node set \<Rightarrow> (node \<Rightarrow> 'v versioned_value option) \<Rightarrow> 'v kv_response http_result \<Rightarrow> bool" where
  "newest_of key R held res \<longleftrightarrow>
     (\<forall>resp. res = Http_ok resp \<longrightarrow> kres_key resp = key \<and>
        (\<exists>n \<in> R. held n = Some \<lparr>vv_value = kres_value resp, vv_timestamp = kres_timestamp resp,
           vv_node_id = kres_node_id resp\<rparr>) \<and>
        (\<forall>n \<in> R. \<forall>e. held n = Some e \<longrightarrow> stamp e \<le> (kres_timestamp resp, kres_node_id resp))) \<and>
     ((\<forall>resp. res \<noteq> Http_ok resp) \<longrightarrow> (\<forall>n \<in> R. held n = None))"

lemma resolve_read_newest:
  assumes "resolve_read key r timeout loc (Inr es) = res" "http_status res = 200 \<or> http_status res = 404"
    and "\<And>e. Some e \<in> set (loc # es) \<Longrightarrow> stamped e"
    and "held ` R = set (loc # es)"
  shows "r \<le> 1 + int (length es) \<and> newest_of key R held res"
proof -
  have enough: "r \<le> 1 + int (length es)"
    using assms(1,2) resolve_read_status [of key r timeout loc es] by (auto split: if_splits)
  let ?cs = "List.map_filter (\<lambda>e. e) (loc # es)"
  have cs: "set ?cs = {e. Some e \<in> held ` R}"
    unfolding set_map_filter_id assms(4) ..
  have "newest_of key R held res"
  proof (cases "select_winner ?cs")
    case None
    then have "?cs = []" by (simp only: select_winner_None)
    moreover have "res = Http_error (http_error 404 (Key_not_found key))"
      using assms(1) enough None unfolding resolve_read_def by auto
    moreover have "held n = None" if "n \<in> R" for n
    proof (cases "held n")
      case (Some e)
      then have "e \<in> set ?cs" unfolding cs using that by force
      then show ?thesis using \<open>?cs = []\<close> by simp
    qed
    ultimately show ?thesis by (simp add: newest_of_def)
  next
    case (Some w)
    then have res: "res = Http_ok \<lparr>kres_key = key, kres_value = vv_value w, kres_timestamp = vv_timestamp w,
        kres_node_id = vv_node_id w\<rparr>"
      using assms(1) enough by (simp add: resolve_read_def)
    have "w \<in> set ?cs" using select_winner_mem [OF Some] .
    then obtain n where n: "n \<in> R" "held n = Some w" unfolding cs by force
    have "stamp e \<le> stamp w" if "n' \<in> R" "held n' = Some e" for n' e
    proof -
      have "e \<in> set ?cs" unfolding cs using that by force
      moreover have "\<And>c. c \<in> set ?cs \<Longrightarrow> stamped c"
        unfolding set_map_filter_id using assms(3) by blast
      ultimately show ?thesis using select_winner_max [OF Some] by blast
    qed
    with n show ?thesis by (auto simp: newest_of_def res stamp_def)
  qed
  with enough show ?thesis by blast
qed

text \<open>The values a read collected come from as many different peers, which all hold what they sent.\<close>

lemma read_ok_value:
  assumes "calls_ok read_outcome (saw E key) calls" "t < length calls" "task_result read_outcome calls t = Inr (True, v)"
  shows "E (cs_peer (calls ! t)) v"
proof -
  have c: "calls ! t \<in> set calls" using assms(2) by simp
  obtain r where r: "cs_result (calls ! t) = Some r" "read_outcome r = Inr (True, v)"
    using assms(3) by (auto simp: task_result_def split: option.splits)
  with assms(1) c obtain rep where rep: "cs_reply (calls ! t) = Some rep" "reply_call rep = r"
    "saw E key (cs_peer (calls ! t)) rep"
    by (force simp: calls_ok_def)
  then show ?thesis using r(2) by (auto simp: saw_def read_outcome_internal)
qed

lemma read_ok_collected:
  assumes "read_ok config E rd"
  shows "\<exists>P held. P \<subseteq> set (cc_nodes config) - {rd_node rd} \<and> finite P \<and>
    card P = length (ga_collected (rd_gathering rd)) \<and> (\<forall>n \<in> P. E n (held n)) \<and>
    held ` P = set (ga_collected (rd_gathering rd))"
proof -
  let ?calls = "ga_calls (rd_gathering rd)"
  let ?tr = "task_result read_outcome ?calls" and ?peer = "\<lambda>t. cs_peer (?calls ! t)"
  have ok: "calls_ok read_outcome (saw E (rd_key rd)) ?calls" "distinct (map cs_peer ?calls)"
    "set (map cs_peer ?calls) \<subseteq> set (cc_nodes config) - {rd_node rd}" "gather_ok read_outcome (rd_gathering rd)"
    using assms unfolding read_ok_def by blast+
  obtain A where A0: "A \<subseteq> {0..<length ?calls} - set (ga_pending (rd_gathering rd))" and finA: "finite A"
    and A: "card A = length (ga_collected (rd_gathering rd))" "\<forall>t \<in> A. counts (?tr t)"
      "set (ga_collected (rd_gathering rd)) = {v. \<exists>t \<in> A. ?tr t = Inr (True, v)}"
    using ok(4) by (elim gather_okE)
  have lt: "t < length ?calls" if "t \<in> A" for t using that A0 by auto
  have inj: "inj_on ?peer A"
    by (rule inj_onI) (use lt nth_eq_iff_index_eq [OF ok(2)] in auto)
  define held where "held = (\<lambda>n. snd (projr (?tr (inv_into A ?peer n))))"
  have held: "held (?peer t) = v" if "t \<in> A" "?tr t = Inr (True, v)" for t v
    using that inv_into_f_f [OF inj that(1)] by (simp add: held_def)
  have "held ` ?peer ` A = {v. \<exists>t \<in> A. ?tr t = Inr (True, v)}"
    using held A(2) by (force simp: counts_iff image_iff)
  moreover have "E n (held n)" if n: "n \<in> ?peer ` A" for n
  proof -
    obtain t v where t: "t \<in> A" "n = ?peer t" "?tr t = Inr (True, v)" using n A(2) by (auto simp: counts_iff)
    then show ?thesis using read_ok_value [OF ok(1) lt [OF t(1)] t(3)] held [OF t(1,3)] by simp
  qed
  moreover have "?peer ` A \<subseteq> cs_peer ` set ?calls" using lt by auto
  then have "?peer ` A \<subseteq> set (cc_nodes config) - {rd_node rd}" using ok(3) by auto
  ultimately show ?thesis
    using finA A(1,3) card_image [OF inj] by (intro exI [of _ "?peer ` A"] exI [of _ held]) simp
qed

lemma read_ok_newest:
  assumes ok: "read_ok config E rd" and ans: "rd_answer rd = Some res"
    and st: "http_status res = 200 \<or> http_status res = 404"
    and stamps: "\<And>n e. E n (Some e) \<Longrightarrow> stamped e"
  shows "\<exists>R held. R \<subseteq> set (cc_nodes config) \<and> rd_r rd \<le> int (card R) \<and> (\<forall>n \<in> R. E n (held n)) \<and>
    newest_of (rd_key rd) R held res"
proof -
  let ?vs = "ga_collected (rd_gathering rd)"
  have own: "rd_node rd \<in> set (cc_nodes config)" "E (rd_node rd) (rd_local rd)"
    using ok unfolding read_ok_def by blast+
  obtain P peer_held where P: "P \<subseteq> set (cc_nodes config) - {rd_node rd}" "finite P" "card P = length ?vs"
    "\<forall>n \<in> P. E n (peer_held n)" "peer_held ` P = set ?vs"
    using read_ok_collected [OF ok] by blast
  have res: "resolve_read (rd_key rd) (rd_r rd) (cc_timeout_seconds config) (rd_local rd) (Inr ?vs) = res"
    using ok ans st unfolding read_ok_def by metis
  let ?R = "insert (rd_node rd) P" and ?held = "peer_held(rd_node rd := rd_local rd)"
  have new: "rd_node rd \<notin> P" using P(1) by blast
  then have "?held ` P = peer_held ` P" by (intro image_cong) auto
  then have held: "?held ` ?R = set (rd_local rd # ?vs)" unfolding image_insert by (simp only: P(5) fun_upd_same list.set)
  have E: "\<forall>n \<in> ?R. E n (?held n)" using own(2) P(4) new by auto
  have "stamped e" if "Some e \<in> set (rd_local rd # ?vs)" for e
    using that E held stamps by (metis (no_types, lifting) imageE)
  then have "rd_r rd \<le> 1 + int (length ?vs) \<and> newest_of (rd_key rd) ?R ?held res"
    using resolve_read_newest [OF res st _ held] by blast
  moreover have "card ?R = 1 + card P" using new P(2) by simp
  ultimately show ?thesis
    using E own(1) P(1,3) by (intro exI [of _ ?R] exI [of _ ?held]) auto
qed

section \<open>What a write leaves behind\<close>

text \<open>The entry an action writes to the key on a client's behalf.\<close>

fun action_entry :: "(node \<Rightarrow> string) \<Rightarrow> string \<Rightarrow> 'v action \<Rightarrow> 'v versioned_value option" where
  "action_entry ids key (Client_put n k body w now) =
     (if k = key then Some \<lparr>vv_value = preq_value body, vv_timestamp = now, vv_node_id = ids n\<rparr> else None)"
| "action_entry ids key (Replicate_direct n body) =
     (if rreq_key body = key then Some (rreq_entry body) else None)"
| "action_entry ids key _ = None"

definition written :: "(node \<Rightarrow> string) \<Rightarrow> string \<Rightarrow> 'v action list \<Rightarrow> 'v versioned_value set" where
  "written ids key acts = {e. Some e \<in> action_entry ids key ` set acts}"

text \<open>Runs in which the key is never deleted and every write to it carries a real timestamp.\<close>

definition deletes :: "string \<Rightarrow> 'v action \<Rightarrow> bool" where
  "deletes key a \<longleftrightarrow> (case a of Client_delete n k \<Rightarrow> k = key | _ \<Rightarrow> False)"

definition clean_run :: "(node \<Rightarrow> string) \<Rightarrow> string \<Rightarrow> 'v action list \<Rightarrow> bool" where
  "clean_run ids key acts \<longleftrightarrow>
     list_all (\<lambda>a. \<not> deletes key a \<and>
       (case action_entry ids key a of None \<Rightarrow> True | Some e \<Rightarrow> vv_timestamp e \<noteq> NaN)) acts"

lemma clean_run_written: "clean_run ids key acts \<Longrightarrow> e \<in> written ids key acts \<Longrightarrow> stamped e"
  by (force simp: clean_run_def written_def list_all_iff stamped_def split: option.splits)

definition write_ok ::
    "cluster_config \<Rightarrow> 'v versioned_value set \<Rightarrow> string \<Rightarrow> (node \<Rightarrow> 'v kvstore) \<Rightarrow> 'v write_ctx \<Rightarrow> bool" where
  "write_ok config W key stores wr \<longleftrightarrow>
     (let e = rreq_entry (wr_request wr); g = wr_gathering wr in
      e \<in> W \<and> wr_node wr \<in> set (cc_nodes config) \<and> holds (stores (wr_node wr)) key e \<and>
      calls_ok replicate_outcome (\<lambda>n rep. holds (stores n) key e) (ga_calls g) \<and>
      gather_ok replicate_outcome g \<and>
      map cs_peer (ga_calls g) = peers_excluding config (node_port (wr_node wr)) \<and>
      (\<forall>resp. wr_answer wr = Some (Http_ok resp) \<longrightarrow> wr_w wr \<le> 1 + int (length (ga_collected g))))"

definition writes_ok :: "cluster_config \<Rightarrow> 'v versioned_value set \<Rightarrow> string \<Rightarrow> 'v cluster \<Rightarrow> bool" where
  "writes_ok config W key s \<longleftrightarrow>
     (\<forall>n. store_ok W key (cl_stores s n)) \<and>
     (\<forall>wr \<in> set (cl_writes s). rreq_key (wr_request wr) = key \<longrightarrow> write_ok config W key (cl_stores s) wr)"

lemma write_ok_mono:
  assumes "write_ok config W key stores wr" "\<And>n. evolves W key (stores n) (stores' n)"
  shows "write_ok config W key stores' wr"
proof -
  have "holds (stores n) key (rreq_entry (wr_request wr)) \<Longrightarrow>
      holds (stores' n) key (rreq_entry (wr_request wr))" for n
    using assms by (auto simp: write_ok_def evolves_def Let_def)
  then show ?thesis
    using assms(1) calls_ok_mono [of replicate_outcome "\<lambda>n rep. holds (stores n) key (rreq_entry (wr_request wr))"]
    by (auto simp: write_ok_def Let_def)
qed

lemma writes_ok_init: "writes_ok config W key cluster_init"
  by (simp add: writes_ok_def cluster_init_def store_ok_def store_simps)

text \<open>An action may only write entries of \<open>W\<close> to the key, and may not delete it.\<close>

definition allowed :: "(node \<Rightarrow> string) \<Rightarrow> 'v versioned_value set \<Rightarrow> string \<Rightarrow> 'v action \<Rightarrow> bool" where
  "allowed ids W key a \<longleftrightarrow> \<not> deletes key a \<and> (\<forall>e. action_entry ids key a = Some e \<longrightarrow> e \<in> W)"

lemma writes_ok_update:
  assumes "writes_ok config W key s" "cl_writes s' = (cl_writes s)[i := wr]" "i < length (cl_writes s)"
    and "\<And>n. evolves W key (cl_stores s n) (cl_stores s' n)"
    and "rreq_key (wr_request wr) = rreq_key (wr_request (cl_writes s ! i))"
    and "rreq_key (wr_request wr) = key \<Longrightarrow> write_ok config W key (cl_stores s) (cl_writes s ! i) \<Longrightarrow>
      write_ok config W key (cl_stores s') wr"
  shows "writes_ok config W key s' \<and> (\<forall>n. evolves W key (cl_stores s n) (cl_stores s' n))"
proof -
  have "write_ok config W key (cl_stores s') w"
    if w: "w \<in> set (cl_writes s')" "rreq_key (wr_request w) = key" for w
  proof (cases "w = wr")
    case True
    have "cl_writes s ! i \<in> set (cl_writes s)" using assms(3) by simp
    then show ?thesis using True w(2) assms(1,5,6) by (auto simp: writes_ok_def)
  next
    case False
    then have "w \<in> set (cl_writes s)" using w(1) assms(2) set_update_subset_insert by fastforce
    then show ?thesis
      using w(2) assms(1) write_ok_mono [OF _ assms(4)] by (auto simp: writes_ok_def)
  qed
  then show ?thesis using assms(4) by (auto simp: writes_ok_def evolves_def)
qed

lemma writes_ok_stores:
  assumes "writes_ok config W key s" "cl_writes s' = cl_writes s"
    and "\<And>n. evolves W key (cl_stores s n) (cl_stores s' n)"
  shows "writes_ok config W key s' \<and> (\<forall>n. evolves W key (cl_stores s n) (cl_stores s' n))"
  using assms write_ok_mono [OF _ assms(3)] by (auto simp: writes_ok_def evolves_def)

lemma evolves_one:
  assumes "\<And>n. store_ok W key (stores n)" "evolves W key (stores m) st"
  shows "evolves W key (stores n) ((stores(m := st)) n)"
  using assms by (simp add: evolves_refl)

lemma write_ok_round:
  assumes "write_ok config W key stores wr" "wr_answer wr = None"
    and "gather_round replicate_outcome remaining ev (wr_gathering wr) = (g, res)"
  shows "write_ok config W key stores (wr\<lparr>wr_gathering := g, wr_answer := map_option
    (\<lambda>acked. resolve_put (wr_w wr) timeout (wr_applied wr) (rreq_timestamp (wr_request wr))
      (bind_exn acked (\<lambda>a. Inr (int (length a))))) res\<rparr>)"
proof -
  have g: "gather_ok replicate_outcome g" "ga_calls g = ga_calls (wr_gathering wr)"
    "\<And>vs. res = Some (Inr vs) \<Longrightarrow> vs = ga_collected g"
    using gather_ok_round [OF _ assms(3)] assms(1) by (auto simp: write_ok_def Let_def)
  have "wr_w wr \<le> 1 + int (length (ga_collected g))"
    if "map_option (\<lambda>acked. resolve_put (wr_w wr) timeout (wr_applied wr) (rreq_timestamp (wr_request wr))
      (bind_exn acked (\<lambda>a. Inr (int (length a))))) res = Some (Http_ok resp)" for resp
    using that g(3) by (auto simp: resolve_put_ok bind_exn_Inr_iff)
  then show ?thesis using assms(1) g(1,2) by (auto simp: write_ok_def Let_def)
qed

lemma writes_unchanged [simp]:
  "cl_writes (start_get config s n key r choice) = cl_writes s"
  "cl_writes (deliver_read net s i t) = cl_writes s"
  "cl_writes (end_read s j t q) = cl_writes s"
  "cl_writes (get_round config s j remaining ev) = cl_writes s"
  "cl_stores (start_get config s n key r choice) = cl_stores s"
  "cl_stores (deliver_read net s i t) = cl_stores s"
  "cl_stores (end_read s j t q) = cl_stores s"
  "cl_stores (get_round config s j remaining ev) = cl_stores s"
  by (simp_all add: start_get_def deliver_read_def end_read_def get_round_def Let_def case_prod_beta
      split: sum.split)

text \<open>The stores evolve and the writes keep their invariant under each of the steps.\<close>

abbreviation step_keeps_writes ::
    "cluster_config \<Rightarrow> 'v versioned_value set \<Rightarrow> string \<Rightarrow> 'v cluster \<Rightarrow> 'v cluster \<Rightarrow> bool" where
  "step_keeps_writes config W key s s' \<equiv>
     writes_ok config W key s' \<and> (\<forall>n. evolves W key (cl_stores s n) (cl_stores s' n))"

lemma step_keeps_writes_refl: "writes_ok config W key s \<Longrightarrow> step_keeps_writes config W key s s"
  by (simp add: writes_ok_def evolves_refl)

lemma writes_ok_start_put:
  assumes ok: "writes_ok config W key s" and W: "\<forall>e \<in> W. stamped e"
    and al: "allowed ids W key (Client_put n k body w now)"
  shows "step_keeps_writes config W key s (cluster_step net config ids s (Client_put n k body w now))"
proof -
  let ?s' = "cluster_step net config ids s (Client_put n k body w now)"
  let ?e = "\<lparr>vv_value = preq_value body, vv_timestamp = now, vv_node_id = ids n\<rparr>"
  let ?stores = "(cl_stores s)(n := snd (kv_put_entry (cl_stores s n) k ?e))"
  let ?wr = "\<lparr>wr_node = n, wr_request = \<lparr>rreq_key = k, rreq_value = preq_value body, rreq_timestamp = now,
      rreq_node_id = ids n\<rparr>, wr_w = w_required_of config w,
    wr_applied = fst (kv_put_entry (cl_stores s n) k ?e),
    wr_gathering = start_gathering (peers_excluding config (node_port n)) (w_required_of config w - 1),
    wr_answer = None\<rparr>"
  have st: "store_ok W key (cl_stores s n)" for n using ok by (simp add: writes_ok_def)
  have inW: "k = key \<Longrightarrow> ?e \<in> W" using al by (simp add: allowed_def)
  have ev: "evolves W key (cl_stores s m) (?stores m)" for m
    by (rule evolves_one) (use st W inW in \<open>auto intro: evolves_put\<close>)
  have "?s' = s \<or> n \<in> set (cc_nodes config) \<and>
      ?s' = s\<lparr>cl_stores := ?stores, cl_writes := cl_writes s @ [?wr]\<rparr>"
    by (auto simp: start_put_def Let_def case_prod_beta kv_put_as_entry split: sum.split)
  then show ?thesis
  proof
    assume s': "n \<in> set (cc_nodes config) \<and> ?s' = s\<lparr>cl_stores := ?stores, cl_writes := cl_writes s @ [?wr]\<rparr>"
    have old: "write_ok config W key ?stores wr"
      if "wr \<in> set (cl_writes s)" "rreq_key (wr_request wr) = key" for wr
      using write_ok_mono [where stores = "cl_stores s" and stores' = ?stores, OF _ ev] ok that
      by (auto simp: writes_ok_def)
    have new: "write_ok config W key ?stores ?wr" if "k = key" "n \<in> set (cc_nodes config)"
      using that inW put_entry_holds [OF st W inW, of n] by (simp add: write_ok_def rreq_entry_def)
    have "store_ok W key (?stores m)" for m using ev [of m] by (simp add: evolves_def)
    with s' old new ev show ?thesis by (auto simp: writes_ok_def)
  qed (use step_keeps_writes_refl [OF ok] in simp)
qed

lemma writes_ok_delete:
  assumes ok: "writes_ok config W key s" and al: "allowed ids W key (Client_delete n k)"
  shows "step_keeps_writes config W key s (cluster_step net config ids s (Client_delete n k))"
proof -
  have "evolves W key (cl_stores s m) (((cl_stores s)(n := snd (kv_delete (cl_stores s n) k))) m)" for m
    by (rule evolves_one) (use ok al in \<open>auto intro: evolves_delete simp: allowed_def deletes_def writes_ok_def\<close>)
  then show ?thesis
    using writes_ok_stores [OF ok, of "cluster_step net config ids s (Client_delete n k)"]
    by (simp add: delete_key_def case_prod_beta Let_def)
qed

lemma writes_ok_direct:
  assumes ok: "writes_ok config W key s" and W: "\<forall>e \<in> W. stamped e" and al: "allowed ids W key (Replicate_direct n body)"
  shows "step_keeps_writes config W key s (cluster_step net config ids s (Replicate_direct n body))"
proof -
  have "evolves W key (cl_stores s m)
      (((cl_stores s)(n := snd (kv_put_entry (cl_stores s n) (rreq_key body) (rreq_entry body)))) m)" for m
    by (rule evolves_one) (use ok W al in \<open>auto intro: evolves_put simp: allowed_def writes_ok_def\<close>)
  then show ?thesis
    using writes_ok_stores [OF ok, of "cluster_step net config ids s (Replicate_direct n body)"] by simp
qed

lemma writes_ok_deliver:
  assumes ok: "writes_ok config W key s" and W: "\<forall>e \<in> W. stamped e"
  shows "step_keeps_writes config W key s (deliver_write s i t)"
proof (cases "deliver_write s i t = s")
  case False
  let ?wr = "cl_writes s ! i"
  let ?c = "ga_calls (wr_gathering ?wr) ! t"
  let ?rep = "fst (replicate_key (cl_stores s (cs_peer ?c)) (wr_request ?wr))"
  let ?stores = "(cl_stores s)(cs_peer ?c := snd (replicate_key (cl_stores s (cs_peer ?c)) (wr_request ?wr)))"
  let ?wr' = "?wr\<lparr>wr_gathering := deliver t ?rep (wr_gathering ?wr)\<rparr>"
  have st: "store_ok W key (cl_stores s n)" for n using ok by (simp add: writes_ok_def)
  have i: "i < length (cl_writes s)" "t < length (ga_calls (wr_gathering ?wr))" "cs_reply ?c = None"
    and s': "deliver_write s i t = s\<lparr>cl_stores := ?stores, cl_writes := (cl_writes s)[i := ?wr']\<rparr>"
    using False by (auto simp: deliver_write_def Let_def case_prod_beta split: if_splits)
  have inW: "rreq_key (wr_request ?wr) = key \<Longrightarrow> rreq_entry (wr_request ?wr) \<in> W"
    using ok i(1) by (auto simp: writes_ok_def write_ok_def Let_def)
  have ev: "evolves W key (cl_stores s m) (?stores m)" for m
    by (rule evolves_one) (use st W inW in \<open>auto intro: evolves_put\<close>)
  have new: "write_ok config W key ?stores ?wr'"
    if k: "rreq_key (wr_request ?wr) = key" "write_ok config W key (cl_stores s) ?wr"
  proof -
    have up: "write_ok config W key ?stores ?wr" using write_ok_mono [where stores' = ?stores, OF k(2) ev] .
    have "holds (?stores (cs_peer ?c)) key (rreq_entry (wr_request ?wr))"
      using put_entry_holds [OF st W inW [OF k(1)]] k(1) by simp
    then have "calls_ok replicate_outcome (\<lambda>n rep. holds (?stores n) key (rreq_entry (wr_request ?wr)))
        (ga_calls (deliver t ?rep (wr_gathering ?wr)))"
      using up by (intro calls_ok_deliver [OF _ i(2,3)]) (simp_all add: write_ok_def Let_def)
    then show ?thesis using up by (simp add: write_ok_def Let_def gather_ok_deliver)
  qed
  show ?thesis
    unfolding s' by (rule writes_ok_update [OF ok, where i = i and wr = ?wr']) (use i(1) ev new in simp_all)
qed (use step_keeps_writes_refl [OF ok] in simp)

lemma writes_ok_end:
  assumes ok: "writes_ok config W key s"
  shows "step_keeps_writes config W key s (end_write s i t r)"
proof (cases "end_write s i t r = s")
  case False
  let ?wr = "cl_writes s ! i"
  have i: "i < length (cl_writes s)" "t < length (ga_calls (wr_gathering ?wr))"
      "may_end replicate_outcome (ga_calls (wr_gathering ?wr) ! t) r"
    and s': "end_write s i t r =
      s\<lparr>cl_writes := (cl_writes s)[i := ?wr\<lparr>wr_gathering := end_call t r (wr_gathering ?wr)\<rparr>]\<rparr>"
    using False by (auto simp: end_write_def Let_def split: if_splits)
  have "write_ok config W key (cl_stores s) (?wr\<lparr>wr_gathering := end_call t r (wr_gathering ?wr)\<rparr>)"
    if "write_ok config W key (cl_stores s) ?wr"
    using that calls_ok_end_call [OF _ i(2,3)] gather_ok_end_call [OF _ i(3)]
    by (simp add: write_ok_def Let_def)
  then show ?thesis
    using writes_ok_update [OF ok, of "end_write s i t r" i] i(1) s' step_keeps_writes_refl [OF ok] by simp
qed (use step_keeps_writes_refl [OF ok] in simp)

lemma writes_ok_put_round:
  assumes ok: "writes_ok config W key s"
  shows "step_keeps_writes config W key s (put_round config s i remaining ev)"
proof (cases "put_round config s i remaining ev = s")
  case False
  let ?wr = "cl_writes s ! i"
  obtain g res where gr: "gather_round replicate_outcome remaining ev (wr_gathering ?wr) = (g, res)"
    by fastforce
  let ?wr' = "?wr\<lparr>wr_gathering := g, wr_answer := map_option (\<lambda>acked. resolve_put (wr_w ?wr)
    (cc_timeout_seconds config) (wr_applied ?wr) (rreq_timestamp (wr_request ?wr))
    (bind_exn acked (\<lambda>a. Inr (int (length a))))) res\<rparr>"
  have i: "i < length (cl_writes s)" "wr_answer ?wr = None"
    and s': "put_round config s i remaining ev = s\<lparr>cl_writes := (cl_writes s)[i := ?wr']\<rparr>"
    using False gr by (auto simp: put_round_def Let_def split: if_splits)
  have "write_ok config W key (cl_stores s) ?wr'" if "write_ok config W key (cl_stores s) ?wr"
    using write_ok_round [OF that i(2) gr] .
  then show ?thesis
    using writes_ok_update [OF ok, of "put_round config s i remaining ev" i] i(1) s' step_keeps_writes_refl [OF ok] by simp
qed (use step_keeps_writes_refl [OF ok] in simp)

lemma writes_ok_step:
  assumes "writes_ok config W key s" "\<forall>e \<in> W. stamped e" "allowed ids W key a"
  shows "step_keeps_writes config W key s (cluster_step net config ids s a)"
proof (cases a)
  case (Client_put n k body w now)
  then show ?thesis using writes_ok_start_put [OF assms(1,2)] assms(3) by blast
next
  case (Client_delete n k)
  then show ?thesis using writes_ok_delete [OF assms(1)] assms(3) by blast
next
  case (Replicate_direct n body)
  then show ?thesis using writes_ok_direct [OF assms(1,2)] assms(3) by blast
next
  case (Deliver_write i t)
  then show ?thesis using writes_ok_deliver [OF assms(1,2)] by simp
next
  case (End_write i t r)
  then show ?thesis using writes_ok_end [OF assms(1)] by simp
next
  case (Put_round i remaining ev)
  then show ?thesis using writes_ok_put_round [OF assms(1)] by simp
qed (use writes_ok_stores [OF assms(1)] step_keeps_writes_refl [OF assms(1)] in simp_all)

section \<open>Runs\<close>

lemma clean_run_allowed:
  assumes "clean_run ids key acts" "set acts' \<subseteq> set acts" "a \<in> set acts'"
  shows "allowed ids (written ids key acts) key a"
  using assms by (force simp: clean_run_def list_all_iff allowed_def written_def image_iff)

lemma writes_ok_run:
  assumes "writes_ok config W key s" "\<forall>e \<in> W. stamped e" "\<And>a. a \<in> set acts \<Longrightarrow> allowed ids W key a"
  shows "writes_ok config W key (cluster_run net config ids acts s)"
proof (rule cluster_run_induct)
  show "writes_ok config W key (cluster_step net config ids s a)"
    if "a \<in> set acts" "writes_ok config W key s" for a s
    using writes_ok_step [OF that(2) assms(2) assms(3) [OF that(1)]] by simp
qed (rule assms(1))

text \<open>What a read may see once every node of \<open>Q\<close> holds \<open>e\<close>.\<close>

definition view :: "'v versioned_value set \<Rightarrow> node set \<Rightarrow> 'v versioned_value \<Rightarrow> node \<Rightarrow> 'v versioned_value option \<Rightarrow> bool" where
  "view W Q e n v \<longleftrightarrow> (\<forall>c. v = Some c \<longrightarrow> c \<in> W) \<and> (n \<in> Q \<longrightarrow> (\<exists>c. v = Some c \<and> stamp e \<le> stamp c))"

lemma reads_ok_run:
  assumes "writes_ok config W key s" "\<forall>e \<in> W. stamped e" "\<And>a. a \<in> set acts \<Longrightarrow> allowed ids W key a"
    and "distinct (map node_port (cc_nodes config))"
    and "e \<in> W \<or> Q = {}" "\<forall>n \<in> Q. holds (cl_stores s n) key e"
    and "reads_ok config (view W Q e) key j0 s" "key_arrives net (cc_nodes config) key"
  shows "reads_ok config (view W Q e) key j0 (cluster_run net config ids acts s)"
proof -
  let ?I = "\<lambda>s. writes_ok config W key s \<and> (\<forall>n \<in> Q. holds (cl_stores s n) key e) \<and>
    reads_ok config (view W Q e) key j0 s"
  have "?I (cluster_run net config ids acts s)"
  proof (rule cluster_run_induct)
    fix a s assume a: "a \<in> set acts" and I: "?I s"
    note step = writes_ok_step [of config W key s, OF _ assms(2) assms(3) [OF a]]
    have "view W Q e n (kv_get (cl_stores s n) key)" for n
      using I by (auto simp: view_def writes_ok_def store_ok_def holds_def)
    then have "reads_ok config (view W Q e) key j0 (cluster_step net config ids s a)"
      using I assms(4,8) by (intro reads_ok_step) auto
    then show "?I (cluster_step net config ids s a)"
      using I step assms(5) by (auto simp: evolves_def)
  qed (use assms in simp)
  then show ?thesis by blast
qed

text \<open>The nodes behind an answered write.\<close>

lemma write_quorum:
  assumes ok: "write_ok config W key stores wr" and ans: "wr_answer wr = Some (Http_ok resp)"
    and ports: "distinct (map node_port (cc_nodes config))"
  shows "\<exists>Q \<subseteq> set (cc_nodes config). wr_w wr \<le> int (card Q) \<and>
    (\<forall>n \<in> Q. holds (stores n) key (rreq_entry (wr_request wr)))"
proof -
  let ?g = "wr_gathering wr" and ?e = "rreq_entry (wr_request wr)"
  let ?peer = "\<lambda>t. cs_peer (ga_calls ?g ! t)"
  have okn: "wr_node wr \<in> set (cc_nodes config)" "holds (stores (wr_node wr)) key ?e"
    "calls_ok replicate_outcome (\<lambda>n rep. holds (stores n) key ?e) (ga_calls ?g)"
    "gather_ok replicate_outcome ?g"
    "map cs_peer (ga_calls ?g) = peers_excluding config (node_port (wr_node wr))"
    "wr_w wr \<le> 1 + int (length (ga_collected ?g))"
    using ok ans by (simp_all add: write_ok_def Let_def)
  note peers = peers_excluding_props [OF ports, of "node_port (wr_node wr)"]
  obtain A where A: "A \<subseteq> {0..<length (ga_calls ?g)} - set (ga_pending ?g)" "finite A"
      "card A = length (ga_collected ?g)" "\<forall>t \<in> A. counts (task_result replicate_outcome (ga_calls ?g) t)"
    using okn(4) by (elim gather_okE)
  have len: "t < length (ga_calls ?g)" if "t \<in> A" for t
    using A(1) that by auto
  have peer: "?peer t \<in> set (peers_excluding config (node_port (wr_node wr)))" if "t \<in> A" for t
    using len [OF that] okn(5) by (metis length_map nth_map nth_mem)
  have held: "holds (stores (?peer t)) key ?e" if tA: "t \<in> A" for t
  proof -
    have "ga_calls ?g ! t \<in> set (ga_calls ?g)" using len [OF tA] by simp
    moreover obtain r where "cs_result (ga_calls ?g ! t) = Some r" "counts (replicate_outcome r)"
      using A(4) tA by (force simp: task_result_def split: option.splits)
    ultimately show ?thesis using okn(3) by (force simp: calls_ok_def)
  qed
  have inj: "inj_on ?peer A"
  proof (rule inj_onI)
    fix t u assume tu: "t \<in> A" "u \<in> A" "?peer t = ?peer u"
    have "distinct (map cs_peer (ga_calls ?g))" using okn(5) peers(1) by simp
    then show "t = u"
      using len [OF tu(1)] len [OF tu(2)] tu(3) nth_eq_iff_index_eq [of "map cs_peer (ga_calls ?g)" t u]
      by simp
  qed
  let ?Q = "insert (wr_node wr) (?peer ` A)"
  have "wr_node wr \<notin> ?peer ` A"
    by (rule notin_image [OF peer]) (use peers(2) in simp_all)
  then have "card ?Q = 1 + card A" using A(2) card_image [OF inj] by simp
  then have "wr_w wr \<le> int (card ?Q)" using okn(6) A(3) by simp
  moreover have "?Q \<subseteq> set (cc_nodes config)" using okn(1) peer peers(2) by auto
  ultimately show ?thesis using okn(2) held by (intro exI [of _ ?Q]) auto
qed

section \<open>Example runs\<close>

text \<open>A concrete cluster of three nodes.\<close>

definition example_id :: "node \<Rightarrow> string" where
  "example_id n = (if node_port n = 8001 then ''node-1'' else if node_port n = 8002 then ''node-2'' else ''node-3'')"

text \<open>A network that reads a URL up to the first question mark or number sign.\<close>

definition example_net :: url_routing where
  "example_net =
     \<lparr>ur_text = (\<lambda>host. ''h''),
      ur_key = (\<lambda>url. let key = takeWhile (\<lambda>c. c \<noteq> CHR ''?'' \<and> c \<noteq> CHR ''#'') (drop 26 url)
        in if key = [] then None else Some key)\<rparr>"

lemma example_ports: "py_str_of_int 8001 = ''8001''" "py_str_of_int 8002 = ''8002''" "py_str_of_int 8003 = ''8003''"
  by (simp_all add: py_str_of_int_def dec_of_nat.simps char_of_def bit_iff_odd)

lemma example_reached_key:
  assumes "p \<in> {8001, 8002, 8003}"
  shows "reached_key example_net (example_node p) key =
    (let k = takeWhile (\<lambda>c. c \<noteq> CHR ''?'' \<and> c \<noteq> CHR ''#'') key in if k = [] then None else Some k)"
  using assms
  by (auto simp: reached_key_def example_net_def internal_read_url_def example_node_def example_ports Let_def)

lemma plain_k: "url_plain ''k''"
  by (simp add: url_plain_def unreserved_def Let_def)

lemma example_net_plain: "routes_plain example_net [example_node 8001, example_node 8002, example_node 8003]"
proof -
  have "CHR ''?'' \<notin> set key \<and> CHR ''#'' \<notin> set key" if "url_plain key" for key
  proof -
    have "\<not> unreserved CHR ''?''" "\<not> unreserved CHR ''#''" by (simp_all add: unreserved_def Let_def)
    then show ?thesis using that unfolding url_plain_def list_all_iff by blast
  qed
  then have key: "takeWhile (\<lambda>c. c \<noteq> CHR ''?'' \<and> c \<noteq> CHR ''#'') key = key" "key \<noteq> []" if "url_plain key" for key
    using that unfolding takeWhile_eq_all_conv by (blast, simp add: url_plain_def)
  show ?thesis
    by (simp add: routes_plain_def key_arrives_def example_reached_key key)
qed

definition ack_call :: "replicate_response call_result" where
  "ack_call = Call_response 200 (Body_ok \<lparr>rres_applied = True\<rparr>)"

definition overlap_before :: "nat action list" where
  "overlap_before =
     [Client_put (example_node 8001) ''k'' \<lparr>preq_value = 7\<rparr> None (Fin 5),
      Deliver_write 0 0, End_write 0 0 ack_call, Put_round 0 (Fin 2) (Completed [0]), Put_round 0 (Fin 1) (Completed [])]"

definition overlap_after :: "nat action list" where
  "overlap_after =
     [Client_get (example_node 8003) ''k'' None [1], Deliver_read 0 0,
      End_read 0 0 (Call_response 200 (Body_ok \<lparr>kres_key = ''k'', kres_value = 7, kres_timestamp = Fin 5,
        kres_node_id = ''node-1''\<rparr>)),
      Get_round 0 (Fin 2) (Completed [0]), Get_round 0 (Fin 1) (Completed [])]"

lemma example_node_eq [simp]: "example_node p = example_node q \<longleftrightarrow> p = q"
  by (simp add: example_node_def)

lemma example_node_port [simp]: "node_port (example_node p) = p"
  by (simp add: example_node_def)

lemma peers_example [simp]:
  "peers_excluding (example_cluster w r) 8003 = map example_node [8001, 8002]"
  "peers_excluding (example_cluster w r) 8002 = map example_node [8001, 8003]"
  by (simp_all add: example_cluster_def peers_excluding_def)

lemmas cluster_eval = example_reached_key cluster_init_def start_put_def start_get_def deliver_write_def end_write_def put_round_def
  deliver_read_def peer_answer_def end_read_def get_round_def start_gathering_def start_call_def deliver_def end_call_def
  gather_round_def wait_round_def asyncio_wait_def task_result_def event_possible_def may_end_def
  validate_quorum_param_cases choice_possible_def is_sample_def read_targets_def select_read_peers_def
  kv_put_def kv_init_def kv_get_def replicate_key_def internal_get_key_def replicate_outcome_def
  read_outcome_def is_success_def resolve_put_def resolve_read_def select_winner_def ack_call_def
  http_error_def map_filter_def Let_def

lemma overlap_before_run:
  "map wr_answer (cl_writes (cluster_run example_net (example_cluster 2 2) example_id overlap_before cluster_init)) =
     [Some (Http_ok \<lparr>pres_applied = True, pres_timestamp = Fin 5\<rparr>)]"
  by (simp add: overlap_before_def cluster_eval example_id_def)

lemma overlap_run:
  "map rd_answer (cl_reads (cluster_run example_net (example_cluster 2 2) example_id (overlap_before @ overlap_after) cluster_init)) =
     [Some (Http_ok \<lparr>kres_key = ''k'', kres_value = 7, kres_timestamp = Fin 5, kres_node_id = ''node-1''\<rparr>)]"
  by (simp add: overlap_before_def overlap_after_def cluster_eval example_id_def)

section \<open>Passes against the loop\<close>

text \<open>Passes over calls whose results are settled, up to a bound on their number.\<close>

fun gather_rounds ::
    "('b call_result \<Rightarrow> exn + bool \<times> 'c) \<Rightarrow> (nat \<Rightarrow> pyfloat \<times> wait_event) \<Rightarrow> pyfloat \<Rightarrow> nat \<Rightarrow> nat \<Rightarrow>
     ('b, 'c) gathering \<Rightarrow> ('b, 'c) gathering \<times> (exn + 'c list) option" where
  "gather_rounds outcome env deadline 0 i g = (g, None)"
| "gather_rounds outcome env deadline (Suc fuel) i g =
     (case gather_round outcome (fsub deadline (fst (env i))) (snd (env i)) g of
        (g', None) \<Rightarrow> gather_rounds outcome env deadline fuel (Suc i) g'
      | (g', Some res) \<Rightarrow> (g', Some res))"

lemma gather_rounds_loop:
  assumes "wait_loop (collect (task_result outcome (ga_calls g))) (\<lambda>c. int (length c)) env deadline (ga_needed g) i
      (ga_pending g) (ga_collected g) = (res, left)"
    and "length (ga_pending g) < fuel"
  shows "\<exists>g'. gather_rounds outcome env deadline fuel i g = (g', Some res) \<and> ga_pending g' = left"
  using assms
proof (induction fuel arbitrary: i g)
  case 0
  then show ?case by simp
next
  case (Suc fuel)
  let ?collect = "collect (task_result outcome (ga_calls g))"
  show ?case
  proof (cases "ga_pending g \<noteq> [] \<and> int (length (ga_collected g)) < ga_needed g")
    case False
    then have "wait_loop ?collect (\<lambda>c. int (length c)) env deadline (ga_needed g) i (ga_pending g) (ga_collected g) =
      (Inr (ga_collected g), ga_pending g)"
      by (intro wait_loop_enough) auto
    with False Suc.prems(1) show ?thesis by (auto simp: gather_round_def)
  next
    case True
    define r where "r = wait_round ?collect (fsub deadline (fst (env i))) (snd (env i)) (ga_pending g) (ga_collected g)"
    have loop: "(case r of Round_next p a \<Rightarrow>
          wait_loop ?collect (\<lambda>c. int (length c)) env deadline (ga_needed g) (Suc i) p a
        | Round_break p a \<Rightarrow> (Inr a, p) | Round_raise e p \<Rightarrow> (Inl e, p)) = (res, left)"
      using Suc.prems(1) True by (simp add: wait_loop.simps [of ?collect] r_def)
    show ?thesis
    proof (cases r)
      case (Round_next p a)
      then have "length p < length (ga_pending g)"
        unfolding r_def by (auto elim!: wait_round_cases dest: asyncio_wait_shrinks)
      then show ?thesis
        using Suc.IH [of "g\<lparr>ga_pending := p, ga_collected := a\<rparr>" "Suc i"] Suc.prems(2) loop Round_next True
        by (simp add: gather_round_def r_def)
    qed (use loop True in \<open>auto simp: gather_round_def r_def\<close>)
  qed
qed

section \<open>Overlap of quorums\<close>

lemma quorum_overlap:
  assumes ports: "distinct (map node_port (cc_nodes config))"
    and before: "s = cluster_run net config ids acts cluster_init"
    and wr: "wr \<in> set (cl_writes s)" "rreq_key (wr_request wr) = key" "wr_answer wr = Some (Http_ok wresp)"
    and "after": "s' = cluster_run net config ids acts' s"
    and rd: "length (cl_reads s) \<le> j" "j < length (cl_reads s')" "rd_key (cl_reads s' ! j) = key"
      "rd_answer (cl_reads s' ! j) = Some res" "http_status res = 200 \<or> http_status res = 404"
    and quorums: "int (length (cc_nodes config)) < wr_w wr + rd_r (cl_reads s' ! j)"
    and clean: "clean_run ids key (acts @ acts')" and arrives: "key_arrives net (cc_nodes config) key"
  shows "\<exists>resp. res = Http_ok resp \<and> kres_key resp = key \<and>
    stamp (rreq_entry (wr_request wr)) \<le> (kres_timestamp resp, kres_node_id resp)"
proof -
  let ?W = "written ids key (acts @ acts')" and ?e = "rreq_entry (wr_request wr)"
  have W: "\<forall>e \<in> ?W. stamped e" using clean_run_written [OF clean] by blast
  have al: "allowed ids ?W key a" if "a \<in> set acts \<union> set acts'" for a
    using clean_run_allowed [OF clean subset_refl] that by simp
  have wok: "writes_ok config ?W key s"
    unfolding before by (rule writes_ok_run) (use W al writes_ok_init in auto)
  then have wr_ok: "write_ok config ?W key (cl_stores s) wr"
    using wr by (simp add: writes_ok_def)
  obtain Q where Q: "Q \<subseteq> set (cc_nodes config)" "wr_w wr \<le> int (card Q)"
    "\<forall>n \<in> Q. holds (cl_stores s n) key ?e"
    using write_quorum [OF wr_ok wr(3) ports] by blast
  have "reads_ok config (view ?W Q ?e) key (length (cl_reads s)) s'"
    unfolding "after"
    by (rule reads_ok_run [OF wok W _ ports])
      (use al wr_ok Q(3) arrives in \<open>auto simp: write_ok_def Let_def reads_ok_def\<close>)
  then have rdok: "read_ok config (view ?W Q ?e) (cl_reads s' ! j)"
    using rd(1-3) by (auto simp: reads_ok_def)
  have "\<exists>R held. R \<subseteq> set (cc_nodes config) \<and> rd_r (cl_reads s' ! j) \<le> int (card R) \<and>
      (\<forall>n \<in> R. view ?W Q ?e n (held n)) \<and> newest_of (rd_key (cl_reads s' ! j)) R held res"
    by (rule read_ok_newest [OF rdok rd(4,5)]) (use W in \<open>simp add: view_def\<close>)
  then obtain R held where R: "R \<subseteq> set (cc_nodes config)" "rd_r (cl_reads s' ! j) \<le> int (card R)"
    "\<forall>n \<in> R. view ?W Q ?e n (held n)" "newest_of key R held res"
    unfolding rd(3) by (elim exE conjE) (rule that)
  have "card (set (cc_nodes config)) < card Q + card R"
    using quorums Q(2) R(2) card_length [of "cc_nodes config"] by linarith
  then obtain n where n: "n \<in> Q" "n \<in> R"
    using quorums_intersect [OF _ Q(1) R(1)] by auto
  then obtain c where c: "held n = Some c" "stamp ?e \<le> stamp c"
    using R(3) by (auto simp: view_def)
  then obtain resp where "res = Http_ok resp"
    using R(4) n(2) by (auto simp: newest_of_def)
  then show ?thesis
    using R(4) n(2) c by (auto simp: newest_of_def intro: order_trans)
qed

section \<open>Properties\<close>

text \<open>
  C1. Strict quorums overlap: in a cluster of \<open>N\<close> nodes on distinct ports, let a write of a key have
  been answered 200 with write quorum \<open>w\<close>, and a read of that key, with read quorum \<open>r\<close>, start at any
  node after that answer. If \<open>N < w + r\<close>, then a read that completes never answers 404 and never
  answers with a version older than that write, whatever the interleaving, the losses, the timeouts
  and the other requests, provided the key is not deleted, all its writes carry real timestamps, and it
  is made of unreserved characters, which reach a peer in the URL as they are.
\<close>

theorem quorum_read_sees_acked_write:
  assumes ports: "distinct (map node_port (cc_nodes config))"
    and before: "s = cluster_run net config ids acts cluster_init"
    and wr: "wr \<in> set (cl_writes s)" "rreq_key (wr_request wr) = key" "wr_answer wr = Some (Http_ok wresp)"
    and "after": "s' = cluster_run net config ids acts' s"
    and rd: "length (cl_reads s) \<le> j" "j < length (cl_reads s')" "rd_key (cl_reads s' ! j) = key"
      "rd_answer (cl_reads s' ! j) = Some res" "http_status res = 200 \<or> http_status res = 404"
    and quorums: "int (length (cc_nodes config)) < wr_w wr + rd_r (cl_reads s' ! j)"
    and clean: "clean_run ids key (acts @ acts')"
    and url: "routes_plain net (cc_nodes config)" "url_plain key"
  shows "\<exists>resp. res = Http_ok resp \<and> kres_key resp = key \<and>
    stamp (rreq_entry (wr_request wr)) \<le> (kres_timestamp resp, kres_node_id resp)"
  using url by (intro quorum_overlap [OF assms(1-13)]) (simp add: routes_plain_def)

theorem quorum_read_sees_acked_write_witness:
  "\<exists>resp. rd_answer (cl_reads (cluster_run example_net (example_cluster 2 2) example_id overlap_after
        (cluster_run example_net (example_cluster 2 2) example_id overlap_before cluster_init)) ! 0) = Some (Http_ok resp) \<and>
     (Fin 5, ''node-1'') \<le> (kres_timestamp resp, kres_node_id resp)"
proof -
  let ?s = "cluster_run example_net (example_cluster 2 2) example_id overlap_before cluster_init"
  let ?s' = "cluster_run example_net (example_cluster 2 2) example_id overlap_after ?s"
  let ?res = "Http_ok \<lparr>kres_key = ''k'', kres_value = 7::nat, kres_timestamp = Fin 5, kres_node_id = ''node-1''\<rparr>"
  have wr: "cl_writes ?s \<noteq> []" "wr_answer (cl_writes ?s ! 0) = Some (Http_ok \<lparr>pres_applied = True, pres_timestamp = Fin 5\<rparr>)"
    "wr_w (cl_writes ?s ! 0) = 2" "rreq_key (wr_request (cl_writes ?s ! 0)) = ''k''"
    "stamp (rreq_entry (wr_request (cl_writes ?s ! 0))) = (Fin 5, ''node-1'')" "cl_reads ?s = []"
    by (simp_all add: overlap_before_def cluster_eval example_id_def stamp_def rreq_entry_def)
  have rd: "length (cl_reads ?s') = 1" "rd_answer (cl_reads ?s' ! 0) = Some ?res" "rd_r (cl_reads ?s' ! 0) = 2"
    "rd_key (cl_reads ?s' ! 0) = ''k''"
    by (simp_all add: overlap_before_def overlap_after_def cluster_eval example_id_def)
  have net: "routes_plain example_net (cc_nodes (example_cluster 2 2))" by (simp add: example_net_plain)
  have "\<exists>resp. ?res = Http_ok resp \<and> kres_key resp = ''k'' \<and>
      stamp (rreq_entry (wr_request (cl_writes ?s ! 0))) \<le> (kres_timestamp resp, kres_node_id resp)"
    by (rule quorum_read_sees_acked_write [where config = "example_cluster 2 2" and ids = example_id and
          acts = overlap_before and acts' = overlap_after and s = ?s and s' = ?s' and j = 0 and
          wresp = "\<lparr>pres_applied = True, pres_timestamp = Fin 5\<rparr>"])
      (use wr rd net plain_k in \<open>simp_all add: clean_run_def overlap_before_def overlap_after_def deletes_def\<close>)
  with wr(5) rd(2) show ?thesis by auto
qed

text \<open>
  C33. The bound is sharp: with \<open>w + r = N\<close> the guarantee fails. In a cluster of three nodes with
  \<open>w = 1\<close> and \<open>r = 2\<close> there is a run in which a write is answered 200 and a read started after that
  answer, reaching its full read quorum, is answered 404.
\<close>

theorem boundary_quorum_misses_acked_write:
  "\<exists>(acts :: nat action list) acts' s s'. s = cluster_run example_net (example_cluster 1 2) example_id acts cluster_init \<and>
    s' = cluster_run example_net (example_cluster 1 2) example_id acts' s \<and> clean_run example_id ''k'' (acts @ acts') \<and>
    map (\<lambda>wr. (rreq_key (wr_request wr), map_option http_status (wr_answer wr))) (cl_writes s) = [(''k'', Some 200)] \<and>
    cl_reads s = [] \<and>
    map (\<lambda>rd. (rd_key rd, map_option http_status (rd_answer rd))) (cl_reads s') = [(''k'', Some 404)]"
proof (intro exI conjI)
  let ?acts = "[Client_put (example_node 8001) ''k'' \<lparr>preq_value = 7\<rparr> None (Fin 5), Put_round 0 (Fin 2) (Completed [])]
    :: nat action list"
  let ?acts' = "[Client_get (example_node 8003) ''k'' None [1], Deliver_read 0 0,
      End_read 0 0 (Call_response 404 Body_bad_schema), Get_round 0 (Fin 2) (Completed [0]),
      Get_round 0 (Fin 1) (Completed [])] :: nat action list"
  let ?s = "cluster_run example_net (example_cluster 1 2) example_id ?acts cluster_init"
  show "?s = ?s" "cluster_run example_net (example_cluster 1 2) example_id ?acts' ?s = cluster_run example_net (example_cluster 1 2) example_id ?acts' ?s"
    by (rule refl)+
  show "clean_run example_id ''k'' (?acts @ ?acts')"
    by (simp add: clean_run_def deletes_def)
  show "map (\<lambda>wr. (rreq_key (wr_request wr), map_option http_status (wr_answer wr))) (cl_writes ?s) = [(''k'', Some 200)]"
    "cl_reads ?s = []"
    "map (\<lambda>rd. (rd_key rd, map_option http_status (rd_answer rd)))
       (cl_reads (cluster_run example_net (example_cluster 1 2) example_id ?acts' ?s)) = [(''k'', Some 404)]"
    by (simp_all add: cluster_eval example_id_def)
qed

text \<open>
  C17. Strict quorums do not help a key that the URL changes: the key goes into the URL of a peer's read as it
  is, so where the network hands the peers another key, as for \<open>a?b\<close>, of which a peer gets \<open>a\<close>, there is a
  run in a cluster of three nodes with \<open>w = r = 2\<close> in which a write of the key is answered 200 and a read of
  it started after that answer, reaching its full read quorum, is answered 404.
\<close>

theorem unescaped_key_misses_acked_write:
  assumes "\<forall>n \<in> set (cc_nodes (example_cluster 2 2)). reached_key net n key = Some key'" "key' \<noteq> key"
  shows "\<exists>(acts :: nat action list) acts' s s'. s = cluster_run net (example_cluster 2 2) example_id acts cluster_init \<and>
    s' = cluster_run net (example_cluster 2 2) example_id acts' s \<and> clean_run example_id key (acts @ acts') \<and>
    map (\<lambda>wr. (rreq_key (wr_request wr), wr_w wr, map_option http_status (wr_answer wr))) (cl_writes s) = [(key, 2, Some 200)] \<and>
    cl_reads s = [] \<and>
    map (\<lambda>rd. (rd_key rd, rd_r rd, map_option http_status (rd_answer rd))) (cl_reads s') = [(key, 2, Some 404)]"
proof (intro exI conjI)
  let ?acts = "[Client_put (example_node 8001) key \<lparr>preq_value = 7\<rparr> None (Fin 5), Deliver_write 0 0,
      End_write 0 0 ack_call, Put_round 0 (Fin 2) (Completed [0]), Put_round 0 (Fin 1) (Completed [])] :: nat action list"
  let ?acts' = "[Client_get (example_node 8003) key None [1], Deliver_read 0 0,
      End_read 0 0 (Call_response 404 Body_bad_schema), Get_round 0 (Fin 2) (Completed [0]),
      Get_round 0 (Fin 1) (Completed [])] :: nat action list"
  let ?s = "cluster_run net (example_cluster 2 2) example_id ?acts cluster_init"
  have "reached_key net (example_node 8002) key = Some key'" using assms(1) by (simp add: example_cluster_def)
  note eval = this cluster_eval example_id_def assms(2) assms(2) [symmetric]
  show "?s = ?s" "cluster_run net (example_cluster 2 2) example_id ?acts' ?s = cluster_run net (example_cluster 2 2) example_id ?acts' ?s"
    by (rule refl)+
  show "clean_run example_id key (?acts @ ?acts')"
    by (simp add: clean_run_def deletes_def)
  show "map (\<lambda>wr. (rreq_key (wr_request wr), wr_w wr, map_option http_status (wr_answer wr))) (cl_writes ?s) = [(key, 2, Some 200)]"
    "cl_reads ?s = []"
    "map (\<lambda>rd. (rd_key rd, rd_r rd, map_option http_status (rd_answer rd)))
       (cl_reads (cluster_run net (example_cluster 2 2) example_id ?acts' ?s)) = [(key, 2, Some 404)]"
    by (simp_all add: eval)
qed

theorem unescaped_key_misses_acked_write_witness:
  "\<exists>(acts :: nat action list) acts'. clean_run example_id ''a?b'' (acts @ acts') \<and>
    map (\<lambda>rd. (rd_key rd, rd_r rd, map_option http_status (rd_answer rd)))
      (cl_reads (cluster_run example_net (example_cluster 2 2) example_id acts'
        (cluster_run example_net (example_cluster 2 2) example_id acts cluster_init))) = [(''a?b'', 2, Some 404)]"
proof -
  have "\<forall>n \<in> set (cc_nodes (example_cluster 2 2)). reached_key example_net n ''a?b'' = Some ''a''"
    by (simp add: example_cluster_def example_reached_key)
  moreover have "''a'' \<noteq> ''a?b''" by simp
  ultimately show ?thesis
    by (rule unescaped_key_misses_acked_write [THEN exE]) (elim exE conjE, hypsubst, intro exI conjI, assumption+)
qed

text \<open>
  C35. Reads invent nothing: whatever the quorums and the interleaving, a version that a quorum read of a key
  of unreserved characters answers with was put by a client, or replicated from outside, under exactly that
  key, provided the key is not deleted and all its writes carry real timestamps.
\<close>

theorem quorum_read_returns_written:
  assumes "distinct (map node_port (cc_nodes config))" "clean_run ids key acts"
    and "rd \<in> set (cl_reads (cluster_run net config ids acts cluster_init))" "rd_key rd = key"
    and "rd_answer rd = Some (Http_ok resp)" "routes_plain net (cc_nodes config)" "url_plain key"
  shows "kres_key resp = key \<and>
    \<lparr>vv_value = kres_value resp, vv_timestamp = kres_timestamp resp, vv_node_id = kres_node_id resp\<rparr>
      \<in> written ids key acts"
proof -
  let ?W = "written ids key acts"
  have W: "\<forall>e \<in> ?W. stamped e" using clean_run_written [OF assms(2)] by blast
  have "reads_ok config (view ?W {} undefined) key 0 (cluster_run net config ids acts cluster_init)"
    by (rule reads_ok_run [OF writes_ok_init W _ assms(1)])
      (use clean_run_allowed [OF assms(2) subset_refl] assms(6,7) in
        \<open>auto simp: reads_ok_def cluster_init_def routes_plain_def\<close>)
  then have rdok: "read_ok config (view ?W {} undefined) rd"
    using assms(3,4) by (auto simp: reads_ok_def in_set_conv_nth)
  have "\<exists>R held. R \<subseteq> set (cc_nodes config) \<and> rd_r rd \<le> int (card R) \<and>
      (\<forall>n \<in> R. view ?W {} undefined n (held n)) \<and> newest_of (rd_key rd) R held (Http_ok resp)"
    by (rule read_ok_newest [OF rdok assms(5)]) (use W in \<open>simp_all add: view_def\<close>)
  then show ?thesis using assms(4) by (auto simp: newest_of_def view_def)
qed

theorem quorum_read_returns_written_witness:
  "\<lparr>vv_value = 7::nat, vv_timestamp = Fin 5, vv_node_id = ''node-1''\<rparr>
     \<in> written example_id ''k'' (overlap_before @ overlap_after)"
proof -
  let ?s = "cluster_run example_net (example_cluster 2 2) example_id (overlap_before @ overlap_after) cluster_init"
  let ?resp = "\<lparr>kres_key = ''k'', kres_value = 7::nat, kres_timestamp = Fin 5, kres_node_id = ''node-1''\<rparr>"
  have rd: "length (cl_reads ?s) = 1" "rd_answer (cl_reads ?s ! 0) = Some (Http_ok ?resp)" "rd_key (cl_reads ?s ! 0) = ''k''"
    by (simp_all add: overlap_before_def overlap_after_def cluster_eval example_id_def)
  have "kres_key ?resp = ''k'' \<and>
      \<lparr>vv_value = kres_value ?resp, vv_timestamp = kres_timestamp ?resp, vv_node_id = kres_node_id ?resp\<rparr>
        \<in> written example_id ''k'' (overlap_before @ overlap_after)"
    by (rule quorum_read_returns_written [where net = example_net and config = "example_cluster 2 2" and rd = "cl_reads ?s ! 0"])
      (use rd in \<open>simp_all add: clean_run_def overlap_before_def overlap_after_def deletes_def example_net_plain plain_k\<close>)
  then show ?thesis by simp
qed

text \<open>Every stored version of the key comes from a write the coordinators accepted.\<close>

definition requests :: "'v write_ctx list \<Rightarrow> 'v replicate_request set" where
  "requests wrs = wr_request ` set wrs"

definition attributed :: "string \<Rightarrow> 'v cluster \<Rightarrow> bool" where
  "attributed key s \<longleftrightarrow>
     (\<forall>n c. kv_get (cl_stores s n) key = Some c \<longrightarrow>
        (\<exists>req \<in> requests (cl_writes s). rreq_key req = key \<and> rreq_entry req = c))"

definition no_direct :: "string \<Rightarrow> 'v action \<Rightarrow> bool" where
  "no_direct key a \<longleftrightarrow> (case a of Replicate_direct n body \<Rightarrow> rreq_key body \<noteq> key | _ \<Rightarrow> True)"

lemma requests_simps [simp]:
  "requests (wrs @ [wr]) = insert (wr_request wr) (requests wrs)"
  "i < length wrs \<Longrightarrow> wr_request (wrs ! i) \<in> requests wrs"
  "i < length wrs \<Longrightarrow> wr_request wr = wr_request (wrs ! i) \<Longrightarrow> requests (wrs[i := wr]) = requests wrs"
  unfolding requests_def
  by (simp, simp, metis list.set_map list_update_id map_update)

lemma attributed_step:
  assumes "attributed key s" "no_direct key a" "\<not> deletes key a"
  shows "attributed key (cluster_step net config ids s a)"
proof (cases a)
  case (Client_put n k body w now)
  then show ?thesis
    using assms(1) unfolding attributed_def
    by (auto simp: start_put_def kv_put_as_entry store_simps rreq_entry_def Let_def case_prod_beta
        split: sum.split if_splits)
next
  case (Client_delete n k)
  then show ?thesis
    using assms unfolding attributed_def
    by (auto simp: delete_key_def store_simps deletes_def Let_def case_prod_beta)
next
  case (Replicate_direct n body)
  then show ?thesis
    using assms unfolding attributed_def by (auto simp: store_simps no_direct_def)
next
  case (Deliver_write i t)
  show ?thesis
    using assms(1) unfolding attributed_def Deliver_write cluster_step.simps
    by (auto simp: deliver_write_def store_simps Let_def case_prod_beta split: if_splits)
next
  case (End_write i t r)
  then show ?thesis
    using assms(1) unfolding attributed_def by (auto simp: end_write_def Let_def)
next
  case (Put_round i remaining ev)
  then show ?thesis
    using assms(1) unfolding attributed_def by (auto simp: put_round_def Let_def case_prod_beta)
qed (use assms(1) in \<open>simp_all add: attributed_def\<close>)

text \<open>A write all of whose calls were delivered is held by every node.\<close>

lemma write_everywhere:
  assumes ok: "write_ok config W key stores wr"
    and ports: "distinct (map node_port (cc_nodes config))" and n: "n \<in> set (cc_nodes config)"
    and delivered: "\<forall>c \<in> set (ga_calls (wr_gathering wr)). cs_reply c \<noteq> None"
  shows "holds (stores n) key (rreq_entry (wr_request wr))"
proof (cases "n = wr_node wr")
  case False
  have "node_port n \<noteq> node_port (wr_node wr)"
    using False ports n ok by (auto simp: write_ok_def Let_def distinct_map inj_on_def)
  then have "n \<in> set (peers_excluding config (node_port (wr_node wr)))"
    using n peers_excluding_props(2) [OF ports] by simp
  also have "\<dots> = cs_peer ` set (ga_calls (wr_gathering wr))"
    using ok unfolding write_ok_def Let_def by (metis list.set_map)
  finally obtain c where "c \<in> set (ga_calls (wr_gathering wr))" "n = cs_peer c" by (elim imageE)
  with ok delivered show ?thesis by (force simp: write_ok_def Let_def calls_ok_def)
qed (use ok in \<open>simp add: write_ok_def Let_def\<close>)

text \<open>The versions of the key that the coordinators accepted from clients.\<close>

definition accepted :: "string \<Rightarrow> 'v cluster \<Rightarrow> 'v versioned_value set" where
  "accepted key s = rreq_entry ` {req \<in> requests (cl_writes s). rreq_key req = key}"

text \<open>Once their calls have been delivered, every node has seen all of them, and stores nothing else.\<close>

lemma accepted_delivered:
  assumes "distinct (map node_port (cc_nodes config))" "clean_run ids key acts"
    and s: "s = cluster_run net config ids acts cluster_init"
    and delivered: "\<forall>wr \<in> set (cl_writes s). rreq_key (wr_request wr) = key \<longrightarrow>
      (\<forall>c \<in> set (ga_calls (wr_gathering wr)). cs_reply c \<noteq> None)"
    and "n \<in> set (cc_nodes config)" "e \<in> accepted key s"
  shows "holds (cl_stores s n) key e"
proof -
  obtain wr where wr: "wr \<in> set (cl_writes s)" "rreq_key (wr_request wr) = key" "rreq_entry (wr_request wr) = e"
    using assms(6) by (auto simp: accepted_def requests_def)
  have "writes_ok config (written ids key acts) key s"
    unfolding s
    by (rule writes_ok_run [OF writes_ok_init])
      (use clean_run_written [OF assms(2)] clean_run_allowed [OF assms(2) subset_refl] in auto)
  then have "write_ok config (written ids key acts) key (cl_stores s) wr" using wr by (simp add: writes_ok_def)
  from write_everywhere [OF this assms(1,5)] delivered wr show ?thesis by blast
qed

lemma stored_accepted:
  assumes "clean_run ids key acts" "\<forall>a \<in> set acts. no_direct key a"
    and "kv_get (cl_stores (cluster_run net config ids acts cluster_init) n) key = Some c"
  shows "c \<in> accepted key (cluster_run net config ids acts cluster_init)"
proof -
  have "attributed key (cluster_run net config ids acts cluster_init)"
  proof (rule cluster_run_induct)
    show "attributed key (cluster_step net config ids s a)" if "a \<in> set acts" "attributed key s" for a s
      by (rule attributed_step)
        (use that assms(1,2) in \<open>auto simp: clean_run_def list_all_iff\<close>)
  qed (simp add: attributed_def cluster_init_def store_simps)
  then show ?thesis using assms(3) by (force simp: attributed_def accepted_def)
qed

text \<open>
  C11. Eventual convergence: once every call of every accepted write of a key has been delivered, in
  any order, each node of the cluster holds the newest of the accepted versions of the key, the one whose
  timestamp and node id no other exceeds, and none if there was no write, provided the key was not
  deleted nor replicated from outside, its writes carry real timestamps, and no two different writes
  share both timestamp and node id.
\<close>

theorem cluster_converges:
  assumes ports: "distinct (map node_port (cc_nodes config))"
    and clean: "clean_run ids key acts" "\<forall>a \<in> set acts. no_direct key a"
    and s: "s = cluster_run net config ids acts cluster_init"
    and delivered: "\<forall>wr \<in> set (cl_writes s). rreq_key (wr_request wr) = key \<longrightarrow>
      (\<forall>c \<in> set (ga_calls (wr_gathering wr)). cs_reply c \<noteq> None)"
    and no_tie: "\<forall>e \<in> accepted key s. \<forall>e' \<in> accepted key s. stamp e = stamp e' \<longrightarrow> e = e'"
    and node: "n \<in> set (cc_nodes config)"
  shows "(\<forall>c. kv_get (cl_stores s n) key = Some c \<longleftrightarrow>
      c \<in> accepted key s \<and> (\<forall>e \<in> accepted key s. stamp e \<le> stamp c)) \<and>
    (kv_get (cl_stores s n) key = None \<longleftrightarrow> accepted key s = {})"
proof -
  have stored: "c \<in> accepted key s" if "kv_get (cl_stores s n) key = Some c" for c
    using stored_accepted [OF clean] that s by simp
  have held: "\<exists>d. kv_get (cl_stores s n) key = Some d \<and> stamp e \<le> stamp d" if "e \<in> accepted key s" for e
    using accepted_delivered [OF ports clean(1) s delivered node that] by (simp add: holds_def)
  show ?thesis
  proof (intro conjI allI iffI)
    fix c assume c: "c \<in> accepted key s \<and> (\<forall>e \<in> accepted key s. stamp e \<le> stamp c)"
    then obtain d where d: "kv_get (cl_stores s n) key = Some d" "stamp c \<le> stamp d" using held by blast
    then have "d = c" using c stored [OF d(1)] no_tie by (metis order_antisym)
    with d show "kv_get (cl_stores s n) key = Some c" by simp
  qed (use stored held in fastforce)+
qed

definition converging_run :: "nat action list" where
  "converging_run =
     [Client_put (example_node 8001) ''k'' \<lparr>preq_value = 7\<rparr> None (Fin 5),
      Client_put (example_node 8003) ''k'' \<lparr>preq_value = 8\<rparr> None (Fin 4),
      Deliver_write 1 0, Deliver_write 0 1, Deliver_write 1 1, Deliver_write 0 0]"

lemma converging_accepted:
  "accepted ''k'' (cluster_run example_net (example_cluster 1 1) example_id converging_run cluster_init) =
     {\<lparr>vv_value = 7, vv_timestamp = Fin 5, vv_node_id = ''node-1''\<rparr>,
      \<lparr>vv_value = 8, vv_timestamp = Fin 4, vv_node_id = ''node-3''\<rparr>}"
  by (simp add: accepted_def requests_def converging_run_def cluster_eval example_id_def is_newer_than_def
      rreq_entry_def Collect_conv_if conj_disj_distribR Collect_disj_eq insert_commute)

theorem cluster_converges_witness:
  "kv_get (cl_stores (cluster_run example_net (example_cluster 1 1) example_id converging_run cluster_init)
     (example_node 8002)) ''k'' = Some \<lparr>vv_value = 7, vv_timestamp = Fin 5, vv_node_id = ''node-1''\<rparr>"
proof -
  let ?s = "cluster_run example_net (example_cluster 1 1) example_id converging_run cluster_init"
  have "\<forall>c. kv_get (cl_stores ?s (example_node 8002)) ''k'' = Some c \<longleftrightarrow>
      c \<in> accepted ''k'' ?s \<and> (\<forall>e \<in> accepted ''k'' ?s. stamp e \<le> stamp c)"
    by (rule cluster_converges [where config = "example_cluster 1 1" and acts = converging_run and ids = example_id,
          THEN conjunct1])
      (simp_all add: converging_accepted, simp_all add: converging_run_def clean_run_def no_direct_def deletes_def
        cluster_eval example_id_def is_newer_than_def stamp_def)
  then show ?thesis by (simp add: converging_accepted stamp_def less_eq_prod_def)
qed

text \<open>
  The steps of the transition system are the loop of the handlers: over calls whose results are
  settled, the passes of a coordinator end within one more pass than there are calls, with exactly
  the value or exception \<open>_gather\<close> computes for the same clock readings and wake-ups, and leave pending
  exactly the calls \<open>_gather\<close> hands to the background.
\<close>

lemma gather_rounds_refine_gather:
  fixes outcome :: "'b call_result \<Rightarrow> exn + bool \<times> 'c"
  shows "\<exists>g'. gather_rounds outcome env (fadd start timeout) (Suc (length calls)) 0
      \<lparr>ga_calls = calls, ga_needed = needed, ga_pending = [0..<length calls], ga_collected = []\<rparr> =
      (g', Some (fst (gather timeout (task_result outcome calls) env start (length calls) needed))) \<and>
    ga_pending g' = snd (gather timeout (task_result outcome calls) env start (length calls) needed)"
  by (rule gather_rounds_loop) (simp_all add: gather_def)

end
