(* ===== verification/KV_Leader.thy ===== *)
theory KV_Leader
  imports KV_Calls KV_Config
begin

text \<open>
  \<open>leader_follower/leader.py\<close>: the cluster configuration, the \<open>Replicator\<close> that fans a write out
  and counts acknowledgements, the leader's \<open>PUT\<close> handler, and the semaphore that bounds the calls
  in flight. A follower's task is numbered by its position in the configuration.
\<close>

section \<open>Cluster configuration\<close>

record follower =
  follower_host :: pyval
  follower_port :: int

text \<open>\<open>fmt\<close> is how Python's format prints the host value.\<close>

definition follower_replicate_url :: "(pyval \<Rightarrow> string) \<Rightarrow> follower \<Rightarrow> string" where
  "follower_replicate_url fmt f =
     ''http://'' @ fmt (follower_host f) @ '':'' @ py_str_of_int (follower_port f) @
     ''/internal/replicate''"

record leader_config =
  lc_followers :: "follower list"
  lc_ack_required :: int
  lc_timeout_seconds :: pyfloat

definition follower_of_yaml :: "pyval \<Rightarrow> exn + follower" where
  "follower_of_yaml f =
     bind_exn (py_dict_item f ''host'') (\<lambda>host.
     bind_exn (bind_exn (py_dict_item f ''port'') py_int) (\<lambda>port.
       Inr \<lparr>follower_host = host, follower_port = port\<rparr>))"

definition validate_ack_required :: "int \<Rightarrow> follower list \<Rightarrow> exn + unit" where
  "validate_ack_required ack_required followers =
     require_in_range ack_required ''ack_required'' 0 (int (length followers)) ''followers''"

definition leader_config_from_dict ::
    "(string \<Rightarrow> pyfloat option) \<Rightarrow> pyval \<Rightarrow> exn + leader_config" where
  "leader_config_from_dict float_of_str raw =
     bind_exn (bind_exn (py_dict_get raw ''followers'' (PList [])) py_iter) (\<lambda>items.
     bind_exn (map_exn follower_of_yaml items) (\<lambda>followers.
     bind_exn (bind_exn (py_dict_get raw ''ack_required'' (PInt 0)) py_int) (\<lambda>ack_required.
     bind_exn (bind_exn (py_dict_get raw ''timeout_seconds'' (PFloat (Fin 2))) (py_float float_of_str))
       (\<lambda>timeout_seconds.
     bind_exn (validate_ack_required ack_required followers) (\<lambda>_.
     bind_exn (require_positive timeout_seconds ''timeout_seconds'') (\<lambda>_.
       Inr \<lparr>lc_followers = followers, lc_ack_required = ack_required,
         lc_timeout_seconds = timeout_seconds\<rparr>))))))"

definition leader_config_from_yaml ::
    "(string \<Rightarrow> pyfloat option) \<Rightarrow> pyval \<Rightarrow> exn + leader_config" where
  "leader_config_from_yaml float_of_str doc = leader_config_from_dict float_of_str (yaml_or_empty doc)"

definition with_ack_required :: "leader_config \<Rightarrow> int \<Rightarrow> exn + leader_config" where
  "with_ack_required config ack_required =
     bind_exn (validate_ack_required ack_required (lc_followers config)) (\<lambda>_.
       Inr (config\<lparr>lc_ack_required := ack_required\<rparr>))"

text \<open>The \<open>--ack-required\<close> flag overrides the YAML value when it is given.\<close>

definition leader_resolve_config ::
    "(string \<Rightarrow> pyfloat option) \<Rightarrow> pyval \<Rightarrow> int option \<Rightarrow> exn + leader_config" where
  "leader_resolve_config float_of_str doc ack_flag =
     bind_exn (leader_config_from_yaml float_of_str doc) (\<lambda>config.
       case ack_flag of None \<Rightarrow> Inr config | Some a \<Rightarrow> with_ack_required config a)"

definition leader_config_ok :: "leader_config \<Rightarrow> bool" where
  "leader_config_ok config \<longleftrightarrow>
     0 \<le> lc_ack_required config \<and> lc_ack_required config \<le> int (length (lc_followers config)) \<and>
     \<not> fle (lc_timeout_seconds config) (Fin 0)"

section \<open>Replicator\<close>

text \<open>
  \<open>_send\<close>: \<open>was_closed\<close> is whether the client was already closed when the coroutine started, \<open>r\<close> how its
  POST ended. An ack is any well-formed 2xx answer, applied or not.
\<close>

definition send_task :: "bool \<Rightarrow> replicate_response call_result \<Rightarrow> exn + bool" where
  "send_task was_closed r =
     (if was_closed then Inr False
      else case r of
          Call_httpx_error \<Rightarrow> Inr False
        | Call_raises e \<Rightarrow> Inl e
        | Call_response status body \<Rightarrow>
            if \<not> is_success status then Inr False
            else (case parse_reply body of
                    Inl e \<Rightarrow> Inl e
                  | Inr None \<Rightarrow> Inr False
                  | Inr (Some parsed) \<Rightarrow> Inr True))"

text \<open>\<open>acked += sum(1 for task in done if task.result())\<close>\<close>

fun count_acks :: "(nat \<Rightarrow> exn + bool) \<Rightarrow> nat list \<Rightarrow> int \<Rightarrow> exn + int" where
  "count_acks results [] acked = Inr acked"
| "count_acks results (t # ts) acked =
     (case results t of
        Inl e \<Rightarrow> Inl e
      | Inr b \<Rightarrow> count_acks results ts (acked + (if b then 1 else 0)))"

text \<open>
  \<open>replicate\<close> returns the ack count, or raises, together with the tasks it adds to the set of
  background tasks. The hand-over comes after the loop, so a raising loop hands nothing over.
  \<open>start\<close> is the reading of \<open>loop.time()\<close> the deadline is computed from.
\<close>

definition replicator_replicate ::
    "leader_config \<Rightarrow> (nat \<Rightarrow> exn + bool) \<Rightarrow> (nat \<Rightarrow> pyfloat \<times> wait_event) \<Rightarrow> pyfloat \<Rightarrow>
     (exn + int) \<times> nat list" where
  "replicator_replicate config results env start =
     (let pending = [0..<length (lc_followers config)];
          deadline = fadd start (lc_timeout_seconds config);
          (outcome, left) =
            wait_loop (count_acks results) (\<lambda>acked. acked) env deadline (lc_ack_required config) 0 pending 0
      in case outcome of Inl e \<Rightarrow> (Inl e, []) | Inr acked \<Rightarrow> (Inr acked, left))"

section \<open>The leader's PUT handler\<close>

text \<open>
  The handler's answer, the leader's store after it, the request every follower is sent, and the
  tasks left in the background.
\<close>

record 'v put_leader_out =
  plo_response :: "put_response http_result"
  plo_store :: "'v kvstore"
  plo_payload :: "'v replicate_request"
  plo_background :: "nat list"

text \<open>The end of the handler: 503 unless enough followers acknowledged, and an exception escapes.\<close>

definition resolve_put_leader ::
    "leader_config \<Rightarrow> bool \<Rightarrow> pyfloat \<Rightarrow> exn + int \<Rightarrow> put_response http_result" where
  "resolve_put_leader config local_applied timestamp acked_or_exn =
     (case acked_or_exn of
        Inl e \<Rightarrow> Http_crash e
      | Inr acked \<Rightarrow>
          if acked < lc_ack_required config
          then Http_error (http_error 503
            (Follower_acks_short acked (lc_ack_required config) (lc_timeout_seconds config)))
          else Http_ok \<lparr>pres_applied = local_applied, pres_timestamp = timestamp\<rparr>)"

definition put_key_leader ::
    "string \<Rightarrow> leader_config \<Rightarrow> pyfloat \<Rightarrow> (nat \<Rightarrow> exn + bool) \<Rightarrow> (nat \<Rightarrow> pyfloat \<times> wait_event) \<Rightarrow> pyfloat \<Rightarrow>
     'v kvstore \<Rightarrow> string \<Rightarrow> 'v put_request \<Rightarrow> 'v put_leader_out" where
  "put_key_leader node_id config now results env start storage key body =
     (let timestamp = now;
          (local_applied, storage') = kv_put storage key (preq_value body) timestamp node_id;
          payload = \<lparr>rreq_key = key, rreq_value = preq_value body, rreq_timestamp = timestamp,
            rreq_node_id = node_id\<rparr>;
          (acked_or_exn, background) = replicator_replicate config results env start;
          response = resolve_put_leader config local_applied timestamp acked_or_exn
      in \<lparr>plo_response = response, plo_store = storage', plo_payload = payload,
          plo_background = background\<rparr>)"

text \<open>The leader's routes: the generic app with its PUT replaced.\<close>

definition leader_build_app :: "route list \<Rightarrow> route list \<times> 'v kvstore" where
  "leader_build_app builtin =
     (add_route (replace_route (create_app builtin) ''/kv/{key}'' [''PUT'']) ''/kv/{key}'' ''PUT''
        Ep_put_key_leader, kv_init)"

section \<open>The bound on calls in flight\<close>

definition MAX_CONCURRENT_REPLICATE_CALLS :: nat where
  "MAX_CONCURRENT_REPLICATE_CALLS = 256"

text \<open>
  The shared semaphore over all writes the leader handles. A call first checks that the client is
  open, then takes a slot or queues for one in order; it posts as soon as it has its slot, and the
  end of its POST frees the slot for the first call queued. \<open>posting\<close> pairs each call in flight
  with whether the client was already closed when its POST began: posting on a closed client raises
  a RuntimeError, which is no \<open>httpx.HTTPError\<close>.
\<close>

record send_state =
  sem_value :: nat
  sem_queue :: "nat list"
  posting :: "(nat \<times> bool) list"
  client_closed :: bool
  finished :: "(nat \<times> (exn + bool)) list"

datatype send_event =
    Send_start nat
  | Post_end nat "replicate_response call_result"
  | Client_close

definition closed_error :: exn where
  "closed_error = RuntimeErr ''Cannot send a request, as the client has been closed.''"

definition send_init :: send_state where
  "send_init = \<lparr>sem_value = MAX_CONCURRENT_REPLICATE_CALLS, sem_queue = [], posting = [],
     client_closed = False, finished = []\<rparr>"

text \<open>Freeing a slot: the first queued call gets it, and starts its POST.\<close>

definition sem_release :: "send_state \<Rightarrow> send_state" where
  "sem_release s =
     (case sem_queue s of
        [] \<Rightarrow> s\<lparr>sem_value := sem_value s + 1\<rparr>
      | c # cs \<Rightarrow> s\<lparr>sem_queue := cs, posting := posting s @ [(c, client_closed s)]\<rparr>)"

fun send_step :: "send_state \<Rightarrow> send_event \<Rightarrow> send_state" where
  "send_step s (Send_start c) =
     (if client_closed s then s\<lparr>finished := finished s @ [(c, send_task True Call_httpx_error)]\<rparr>
      else if 0 < sem_value s \<and> sem_queue s = []
      then s\<lparr>sem_value := sem_value s - 1, posting := posting s @ [(c, client_closed s)]\<rparr>
      else s\<lparr>sem_queue := sem_queue s @ [c]\<rparr>)"
| "send_step s (Post_end c r) =
     (case List.find (\<lambda>p. fst p = c) (posting s) of
        None \<Rightarrow> s
      | Some p \<Rightarrow>
          (let r' = (if snd p then Call_raises closed_error else r)
           in sem_release (s\<lparr>posting := remove1 p (posting s),
                finished := finished s @ [(c, send_task False r')]\<rparr>)))"
| "send_step s Client_close = s\<lparr>client_closed := True\<rparr>"

fun send_run :: "send_state \<Rightarrow> send_event list \<Rightarrow> send_state" where
  "send_run s [] = s"
| "send_run s (e # es) = send_run (send_step s e) es"

section \<open>Lemmas\<close>

lemma count_acks_eq:
  "(\<And>t. t \<in> set ts \<Longrightarrow> \<exists>b. results t = Inr b) \<Longrightarrow>
   count_acks results ts acked = Inr (acked + int (length (filter (\<lambda>t. results t = Inr True) ts)))"
proof (induction ts arbitrary: acked)
  case Nil
  then show ?case by simp
next
  case (Cons t ts)
  then obtain b where "results t = Inr b" by auto
  with Cons show ?case by (cases b) auto
qed

text \<open>The leader's loop counts exactly the tasks that returned True.\<close>

lemma count_acks_sum:
  "distinct ts \<Longrightarrow> count_acks results ts acked = Inr n \<Longrightarrow>
   n = acked + (\<Sum>t \<in> set ts. if results t = Inr True then 1 else 0)"
proof (induction ts arbitrary: acked)
  case Nil
  then show ?case by simp
next
  case (Cons t ts)
  then obtain b where "results t = Inr b" "count_acks results ts (acked + (if b then 1 else 0)) = Inr n"
    by (auto split: sum.splits)
  with Cons.IH [OF _ this(2)] Cons.prems(1) show ?case by auto
qed

interpretation acks: counting_absorber "count_acks results" "\<lambda>acked. acked"
    "\<lambda>t. if results t = Inr True then 1 else 0" "\<lambda>t. \<exists>e. results t = Inl e"
    "\<lambda>t. results t = Inr True"
  for results :: "nat \<Rightarrow> exn + bool"
proof unfold_locales
  fix ts acc
  assume "\<And>t. t \<in> set ts \<Longrightarrow> \<not> (\<exists>e. results t = Inl e)"
  then have "\<And>t. t \<in> set ts \<Longrightarrow> \<exists>b. results t = Inr b"
    by (metis Inr_Inl_False sum.exhaust)
  then show "\<exists>acc'. count_acks results ts acc = Inr acc'"
    using count_acks_eq by blast
qed (auto dest: count_acks_sum)

abbreviation follower_tasks :: "leader_config \<Rightarrow> nat set" where
  "follower_tasks config \<equiv> {0..<length (lc_followers config)}"

lemma replicator_sound:
  assumes "replicator_replicate config results env start = (Inr acked, background)"
  shows "distinct background \<and> set background \<subseteq> follower_tasks config \<and>
    acked = int (card {t \<in> follower_tasks config - set background. results t = Inr True})"
proof -
  have "wait_loop (count_acks results) (\<lambda>acked. acked) env (fadd start (lc_timeout_seconds config))
      (lc_ack_required config) 0 [0..<length (lc_followers config)] 0 = (Inr acked, background)"
    using assms by (auto simp: replicator_replicate_def Let_def case_prod_beta prod_eq_iff split: sum.splits)
  from acks.loop_counts [OF this] show ?thesis by simp
qed

lemma replicator_bounds:
  assumes "replicator_replicate config results env start = (Inr acked, background)"
  shows "0 \<le> acked \<and> acked \<le> int (card {t \<in> follower_tasks config. results t = Inr True})"
proof -
  have "card {t \<in> follower_tasks config - set background. results t = Inr True}
    \<le> card {t \<in> follower_tasks config. results t = Inr True}"
    by (intro card_mono) auto
  with replicator_sound [OF assms] show ?thesis by simp
qed

lemma put_key_leader_unfold:
  "put_key_leader node_id config now results env start storage key body =
     \<lparr>plo_response =
        (case fst (replicator_replicate config results env start) of
           Inl e \<Rightarrow> Http_crash e
         | Inr acked \<Rightarrow>
             if acked < lc_ack_required config
             then Http_error (http_error 503
               (Follower_acks_short acked (lc_ack_required config) (lc_timeout_seconds config)))
             else Http_ok \<lparr>pres_applied = fst (kv_put storage key (preq_value body) now node_id),
               pres_timestamp = now\<rparr>),
      plo_store = snd (kv_put storage key (preq_value body) now node_id),
      plo_payload = \<lparr>rreq_key = key, rreq_value = preq_value body, rreq_timestamp = now,
        rreq_node_id = node_id\<rparr>,
      plo_background = snd (replicator_replicate config results env start)\<rparr>"
  by (simp add: put_key_leader_def resolve_put_leader_def Let_def case_prod_beta)

text \<open>The semaphore: slots free and slots taken always add up, and no slot is free while a call queues.\<close>

definition sem_inv :: "send_state \<Rightarrow> bool" where
  "sem_inv s \<longleftrightarrow>
     sem_value s + length (posting s) = MAX_CONCURRENT_REPLICATE_CALLS \<and>
     (sem_queue s \<noteq> [] \<longrightarrow> sem_value s = 0)"

lemma find_SomeD: "List.find P xs = Some x \<Longrightarrow> x \<in> set xs \<and> P x"
  by (induction xs) (auto split: if_splits)

lemma send_step_inv: "sem_inv s \<Longrightarrow> sem_inv (send_step s e)"
proof (cases e)
  case (Post_end c r)
  assume inv: "sem_inv s"
  show ?thesis
  proof (cases "List.find (\<lambda>p. fst p = c) (posting s)")
    case None
    with inv Post_end show ?thesis by simp
  next
    case (Some p)
    then have "length (remove1 p (posting s)) = length (posting s) - 1" "posting s \<noteq> []"
      by (auto simp: length_remove1 dest: find_SomeD)
    with inv Some Post_end show ?thesis
      by (cases "posting s") (auto simp: sem_inv_def sem_release_def Let_def split: list.split)
  qed
qed (auto simp: sem_inv_def)

lemma send_run_inv: "sem_inv s \<Longrightarrow> sem_inv (send_run s es)"
  by (induction es arbitrary: s) (simp_all add: send_step_inv)

lemma send_run_append: "send_run s (es @ fs) = send_run (send_run s es) fs"
  by (induction es arbitrary: s) simp_all

lemma send_run_starts:
  "n \<le> MAX_CONCURRENT_REPLICATE_CALLS \<Longrightarrow>
   send_run send_init (map Send_start [0..<n]) =
     \<lparr>sem_value = MAX_CONCURRENT_REPLICATE_CALLS - n, sem_queue = [],
      posting = map (\<lambda>c. (c, False)) [0..<n], client_closed = False, finished = []\<rparr>"
  by (induction n) (simp_all add: send_init_def send_run_append)

section \<open>Properties\<close>

text \<open>
  C38. Loading a configuration never yields one the write path cannot serve: the required acks lie
  between 0 and the number of followers and the timeout is not zero or negative, whether the value
  comes from the file or from \<open>--ack-required\<close>.
\<close>

theorem leader_resolve_config_ok:
  assumes "leader_resolve_config float_of_str doc ack_flag = Inr config"
  shows "leader_config_ok config"
  using assms
  by (auto simp: leader_resolve_config_def leader_config_from_yaml_def leader_config_from_dict_def
      with_ack_required_def validate_ack_required_def leader_config_ok_def bind_exn_Inr_iff
      split: option.splits)

theorem leader_resolve_config_ok_witness:
  "leader_config_ok \<lparr>lc_followers = [\<lparr>follower_host = PStr ''127.0.0.1'', follower_port = 8001\<rparr>],
     lc_ack_required = 1, lc_timeout_seconds = Fin 2\<rparr>"
  by (rule leader_resolve_config_ok [where float_of_str = "\<lambda>_. None" and ack_flag = "Some 1" and
        doc = "PDict [(''followers'', PList [PDict [(''host'', PStr ''127.0.0.1''), (''port'', PInt 8001)]])]"])
    (simp add: leader_resolve_config_def leader_config_from_yaml_def leader_config_from_dict_def
      yaml_or_empty_def py_falsy_def py_dict_get_def py_dict_item_def py_iter_def follower_of_yaml_def
      with_ack_required_def validate_ack_required_def require_in_range_def require_positive_def)

text \<open>
  No partial success: when the leader answers a PUT with 200, at least \<open>ack_required\<close> distinct
  followers acknowledged the write before the answer, the answer carries the stamped timestamp, and
  the leader's own store holds the write or a version that beats it.
\<close>

theorem leader_put_ok_means_acked:
  assumes "plo_response (put_key_leader node_id config now results env start storage key body) = Http_ok r"
    and "kv_wf storage" "now \<noteq> NaN"
  shows "(\<exists>A \<subseteq> follower_tasks config. lc_ack_required config \<le> int (card A) \<and>
      (\<forall>t \<in> A. results t = Inr True)) \<and>
    pres_timestamp r = now \<and>
    (\<exists>c. kv_get (plo_store (put_key_leader node_id config now results env start storage key body)) key = Some c \<and>
      \<not> is_newer_than \<lparr>vv_value = preq_value body, vv_timestamp = now, vv_node_id = node_id\<rparr> c)"
proof -
  obtain acked where rep: "fst (replicator_replicate config results env start) = Inr acked"
    and enough: "lc_ack_required config \<le> acked" and ts: "pres_timestamp r = now"
    using assms(1) by (auto simp: put_key_leader_unfold split: sum.splits if_splits)
  let ?A = "{t \<in> follower_tasks config. results t = Inr True}"
  have "acked \<le> int (card ?A)"
    using rep replicator_bounds [of config results env start acked] by (metis prod.collapse)
  with enough have "?A \<subseteq> follower_tasks config \<and> lc_ack_required config \<le> int (card ?A) \<and>
      (\<forall>t \<in> ?A. results t = Inr True)" by auto
  moreover have "\<exists>c. kv_get (snd (kv_put storage key (preq_value body) now node_id)) key = Some c \<and>
      \<not> is_newer_than \<lparr>vv_value = preq_value body, vv_timestamp = now, vv_node_id = node_id\<rparr> c"
    unfolding kv_put_as_entry by (rule kvs.put_holds) (use assms in \<open>simp_all add: stamped_def\<close>)
  ultimately show ?thesis using ts by (auto simp: put_key_leader_unfold)
qed

definition example_leader :: "int \<Rightarrow> leader_config" where
  "example_leader acks =
     \<lparr>lc_followers = [\<lparr>follower_host = PStr ''127.0.0.1'', follower_port = 8001\<rparr>,
        \<lparr>follower_host = PStr ''127.0.0.1'', follower_port = 8002\<rparr>],
      lc_ack_required = acks, lc_timeout_seconds = Fin 2\<rparr>"

lemma example_leader_simps [simp]:
  "length (lc_followers (example_leader a)) = 2" "lc_ack_required (example_leader a) = a"
  "lc_timeout_seconds (example_leader a) = Fin 2"
  by (simp_all add: example_leader_def)

lemma example_leader_one_ack:
  "replicator_replicate (example_leader 1) (\<lambda>t. Inr True) (\<lambda>i. (Fin 1, Completed [0])) (Fin 0) = (Inr 1, [1])"
  by (simp add: replicator_replicate_def wait_loop.simps wait_round_def asyncio_wait_def numeral_2_eq_2 Let_def)

theorem leader_put_ok_means_acked_witness:
  "(\<exists>A \<subseteq> follower_tasks (example_leader 1). lc_ack_required (example_leader 1) \<le> int (card A) \<and>
      (\<forall>t \<in> A. (\<lambda>t. Inr True :: exn + bool) t = Inr True)) \<and>
    pres_timestamp \<lparr>pres_applied = True, pres_timestamp = Fin 5\<rparr> = Fin 5 \<and>
    (\<exists>c. kv_get (plo_store (put_key_leader ''leader'' (example_leader 1) (Fin 5) (\<lambda>t. Inr True)
        (\<lambda>i. (Fin 1, Completed [0])) (Fin 0) kv_init ''k'' \<lparr>preq_value = 7::nat\<rparr>)) ''k'' = Some c \<and>
      \<not> is_newer_than \<lparr>vv_value = preq_value \<lparr>preq_value = 7::nat\<rparr>, vv_timestamp = Fin 5, vv_node_id = ''leader''\<rparr> c)"
  by (rule leader_put_ok_means_acked)
    (simp_all add: put_key_leader_unfold example_leader_one_ack kv_put_def Let_def kv_init_def kv_wf_def)

text \<open>
  C12. The write path decides correctly, deadline included: whatever followers hang, fail or answer late,
  the leader answers 200 exactly when the calls that \<open>asyncio.wait\<close> reports while there is time left include
  at least \<open>ack_required\<close> acknowledged ones, and 503 otherwise, provided the handler is not cancelled and
  none of these calls ends in an exception \<open>_send\<close> does not catch.
\<close>

theorem leader_put_decides:
  assumes "reported = in_time env (fadd start (lc_timeout_seconds config)) 0 (follower_tasks config)"
    and "\<And>j. snd (env j) \<noteq> Cancelled" "\<And>t. t \<in> reported \<Longrightarrow> \<exists>b. results t = Inr b"
  shows "http_status (plo_response (put_key_leader node_id config now results env start storage key body)) =
    (if lc_ack_required config \<le> int (card {t \<in> reported. results t = Inr True}) then 200 else 503)"
proof -
  have "\<exists>acked left. wait_loop (count_acks results) (\<lambda>acked. acked) env (fadd start (lc_timeout_seconds config))
      (lc_ack_required config) 0 [0..<length (lc_followers config)] 0 = (Inr acked, left) \<and>
    (lc_ack_required config \<le> acked \<longleftrightarrow>
     lc_ack_required config \<le> 0 + int (card {t \<in> reported. results t = Inr True}))"
    using acks.loop_in_time [of "[0..<length (lc_followers config)]" env "fadd start (lc_timeout_seconds config)" 0
        results "lc_ack_required config" 0] assms by fastforce
  then obtain acked where "fst (replicator_replicate config results env start) = Inr acked"
    "lc_ack_required config \<le> acked \<longleftrightarrow> lc_ack_required config \<le> int (card {t \<in> reported. results t = Inr True})"
    by (auto simp: replicator_replicate_def)
  then show ?thesis by (auto simp: put_key_leader_unfold http_error_def not_less)
qed

text \<open>Both followers acknowledge, but the second wait begins a second after the deadline.\<close>

theorem leader_put_decides_witness:
  "http_status (plo_response (put_key_leader ''leader'' (example_leader 2) (Fin 5) (\<lambda>t. Inr True)
      (\<lambda>i. (Fin (of_nat (2 * i + 1)), Completed [i])) (Fin 0) kv_init ''k'' \<lparr>preq_value = 7::nat\<rparr>)) = 503"
proof -
  have reported: "in_time (\<lambda>i. (Fin (of_nat (2 * i + 1)), Completed [i]))
      (fadd (Fin 0) (lc_timeout_seconds (example_leader 2))) 0 (follower_tasks (example_leader 2)) = {0}"
    using late_pass by (simp add: numeral_2_eq_2)
  show ?thesis
    by (subst leader_put_decides [OF refl]) (use reported in \<open>simp_all only: example_leader_simps, auto\<close>)
qed

text \<open>
  \<open>ack_required = 0\<close> is fire and forget: whatever the followers and the network do, the leader
  answers 200 without waiting and leaves every follower's call running in the background.
\<close>

theorem leader_put_fire_and_forget:
  assumes "lc_ack_required config = 0"
  shows "plo_response (put_key_leader node_id config now results env start storage key body) =
      Http_ok \<lparr>pres_applied = fst (kv_put storage key (preq_value body) now node_id), pres_timestamp = now\<rparr> \<and>
    plo_background (put_key_leader node_id config now results env start storage key body) =
      [0..<length (lc_followers config)]"
  using assms by (simp add: put_key_leader_unfold replicator_replicate_def wait_loop_enough)

theorem leader_put_fire_and_forget_witness:
  "plo_response (put_key_leader ''leader'' (example_leader 0) (Fin 5) (\<lambda>t. Inr False)
      (\<lambda>i. (Fin 9, Cancelled)) (Fin 0) kv_init ''k'' \<lparr>preq_value = 7::nat\<rparr>) =
      Http_ok \<lparr>pres_applied = fst (kv_put kv_init ''k'' (preq_value \<lparr>preq_value = 7::nat\<rparr>) (Fin 5) ''leader''),
        pres_timestamp = Fin 5\<rparr> \<and>
    plo_background (put_key_leader ''leader'' (example_leader 0) (Fin 5) (\<lambda>t. Inr False)
      (\<lambda>i. (Fin 9, Cancelled)) (Fin 0) kv_init ''k'' \<lparr>preq_value = 7::nat\<rparr>) =
      [0..<length (lc_followers (example_leader 0))]"
  by (rule leader_put_fire_and_forget) simp

text \<open>
  A 200 reply whose body is not decodable text escapes the handler: if it is the first call to
  end while an ack is still needed, the client gets a bare 500, and the calls still pending are not
  handed to the background set.
\<close>

theorem leader_put_undecodable_reply:
  assumes "0 < lc_ack_required config" "k < length (lc_followers config)" "is_success status"
    and "results k = send_task False (Call_response status Body_undecodable)"
    and "env 0 = (t, Completed [k])" "\<not> fle (fsub (fadd start (lc_timeout_seconds config)) t) (Fin 0)"
  shows "plo_response (put_key_leader node_id config now results env start storage key body) =
      Http_crash UnicodeDecodeErr \<and>
    plo_background (put_key_leader node_id config now results env start storage key body) = []"
proof -
  have ne: "lc_followers config \<noteq> []"
    using assms(2) by auto
  have "count_acks results [k] 0 = Inl UnicodeDecodeErr"
    using assms(3,4) by (simp add: send_task_def)
  with ne have "wait_loop (count_acks results) (\<lambda>acked. acked) env (fadd start (lc_timeout_seconds config))
      (lc_ack_required config) 0 [0..<length (lc_followers config)] 0 =
    (Inl UnicodeDecodeErr, filter (\<lambda>t. t \<noteq> k) [0..<length (lc_followers config)])"
    using assms(1,2,5,6)
    by (subst wait_loop.simps) (simp add: wait_round_def asyncio_wait_def)
  then show ?thesis by (simp add: put_key_leader_unfold replicator_replicate_def)
qed

theorem leader_put_undecodable_reply_witness:
  "plo_response (put_key_leader ''leader'' (example_leader 1) (Fin 5)
      (\<lambda>t. send_task False (Call_response 200 Body_undecodable)) (\<lambda>i. (Fin 1, Completed [0])) (Fin 0)
      kv_init ''k'' \<lparr>preq_value = 7::nat\<rparr>) = Http_crash UnicodeDecodeErr \<and>
    plo_background (put_key_leader ''leader'' (example_leader 1) (Fin 5)
      (\<lambda>t. send_task False (Call_response 200 Body_undecodable)) (\<lambda>i. (Fin 1, Completed [0])) (Fin 0)
      kv_init ''k'' \<lparr>preq_value = 7::nat\<rparr>) = []"
  by (rule leader_put_undecodable_reply [where k = 0 and status = 200 and t = "Fin 1"])
    (simp_all add: is_success_def)

text \<open>
  C20. The bound on calls in flight holds in every run of the send machine: at most
  \<open>MAX_CONCURRENT_REPLICATE_CALLS\<close> POSTs are under way, and a call only queues when all slots are taken.
\<close>

theorem send_run_bounded:
  "length (posting (send_run send_init es)) \<le> MAX_CONCURRENT_REPLICATE_CALLS \<and>
   (sem_queue (send_run send_init es) = [] \<or>
     length (posting (send_run send_init es)) = MAX_CONCURRENT_REPLICATE_CALLS)"
proof -
  have "sem_inv (send_run send_init es)"
    by (rule send_run_inv) (simp add: sem_inv_def send_init_def)
  then show ?thesis by (auto simp: sem_inv_def)
qed

text \<open>
  C40. The closed-client guard of \<open>_send\<close> does not cover a call queued behind the semaphore: with
  all slots taken, a further call, then the client closing and one POST ending, the queued call
  posts on the closed client and ends in a RuntimeError instead of a failed send.
\<close>

theorem send_queued_call_posts_after_close:
  "(MAX_CONCURRENT_REPLICATE_CALLS, Inl closed_error) \<in> set (finished
     (send_run send_init (map Send_start [0..<MAX_CONCURRENT_REPLICATE_CALLS + 1] @
       [Client_close, Post_end 0 r, Post_end MAX_CONCURRENT_REPLICATE_CALLS r'])))"
proof -
  let ?m = MAX_CONCURRENT_REPLICATE_CALLS
  let ?ps = "map (\<lambda>c. (c, False)) [Suc 0..<?m]"
  have m: "[0..<?m] = 0 # [Suc 0..<?m]"
    by (simp add: upt_conv_Cons MAX_CONCURRENT_REPLICATE_CALLS_def)
  have none: "List.find (\<lambda>p. fst p = ?m) ?ps = None"
    by (auto simp: find_None_iff)
  show ?thesis
    using send_run_starts [of ?m]
    by (simp add: send_run_append m sem_release_def find_append none Let_def send_task_def)
qed

end
