(* ===== verification/KV_Queue.thy ===== *)
theory KV_Queue
  imports KV_Server KV_Config "HOL-Library.Sublist"
begin

text \<open>
  \<open>message_queue/\<close>: the configuration, the topic administration, the producer that logs writes to
  Kafka, and the follower whose consumer task applies the log to its store. Kafka and pydantic are
  not part of the repository: the broker's admin calls, the outcome of a send, the partitioner and
  the JSON codec of a message are parameters.
\<close>

section \<open>MQConfig\<close>

record mq_config =
  mq_bootstrap_servers :: string
  mq_topic :: string
  mq_num_partitions :: int
  mq_consumer_group_prefix :: string

text \<open>\<open>str(x)\<close>; the rendering of floats, lists and dicts is the parameter \<open>repr\<close>.\<close>

fun py_str :: "(pyval \<Rightarrow> string) \<Rightarrow> pyval \<Rightarrow> string" where
  "py_str repr (PStr s) = s"
| "py_str repr PNone = ''None''"
| "py_str repr (PBool b) = (if b then ''True'' else ''False'')"
| "py_str repr (PInt n) = py_str_of_int n"
| "py_str repr v = repr v"

definition mq_config_from_dict :: "(pyval \<Rightarrow> string) \<Rightarrow> pyval \<Rightarrow> exn + mq_config" where
  "mq_config_from_dict repr raw =
     bind_exn (bind_exn (py_dict_get raw ''bootstrap_servers'' (PStr []))
       (\<lambda>v. require_nonempty_str (py_str repr v) ''bootstrap_servers'')) (\<lambda>bootstrap_servers.
     bind_exn (bind_exn (py_dict_get raw ''topic'' (PStr []))
       (\<lambda>v. require_nonempty_str (py_str repr v) ''topic'')) (\<lambda>topic.
     bind_exn (bind_exn (py_dict_get raw ''consumer_group_prefix'' (PStr []))
       (\<lambda>v. require_nonempty_str (py_str repr v) ''consumer_group_prefix'')) (\<lambda>consumer_group_prefix.
     bind_exn (bind_exn (py_dict_get raw ''num_partitions'' (PInt 0)) py_int) (\<lambda>num_partitions.
       if num_partitions < 1 then Inl (NotAtLeastOne ''num_partitions'' num_partitions)
       else Inr \<lparr>mq_bootstrap_servers = bootstrap_servers, mq_topic = topic,
         mq_num_partitions = num_partitions, mq_consumer_group_prefix = consumer_group_prefix\<rparr>))))"

definition mq_config_from_yaml :: "(pyval \<Rightarrow> string) \<Rightarrow> pyval \<Rightarrow> exn + mq_config" where
  "mq_config_from_yaml repr doc = mq_config_from_dict repr (yaml_or_empty doc)"

section \<open>Topic administration\<close>

definition TOPIC_REPLICATION_FACTOR :: int where
  "TOPIC_REPLICATION_FACTOR = 1"

definition TOPIC_DELETE_POLL_TIMEOUT_S :: rat where
  "TOPIC_DELETE_POLL_TIMEOUT_S = 15"

definition TOPIC_DELETE_POLL_INTERVAL_S :: rat where
  "TOPIC_DELETE_POLL_INTERVAL_S = 1 / 2"

text \<open>\<open>for_code\<close> gives the name of Kafka's error class for a code.\<close>

fun raise_on_topic_errors ::
    "(int \<Rightarrow> string) \<Rightarrow> (string \<times> int) list \<Rightarrow> string \<Rightarrow> exn + unit" where
  "raise_on_topic_errors for_code [] tolerate = Inr ()"
| "raise_on_topic_errors for_code ((topic, code) # entries) tolerate =
     (if code \<noteq> 0 \<and> for_code code \<noteq> tolerate then Inl (RuntimeErr topic)
      else raise_on_topic_errors for_code entries tolerate)"

text \<open>
  The admin client over an environment \<open>'b\<close> (the broker and everything else that acts on it): each
  call may raise, and \<open>ad_sleep\<close> lets the environment move on.
\<close>

record 'b admin =
  ad_start :: "'b \<Rightarrow> (exn + unit) \<times> 'b"
  ad_list_topics :: "'b \<Rightarrow> (exn + string list) \<times> 'b"
  ad_create_topics :: "string \<Rightarrow> int \<Rightarrow> int \<Rightarrow> 'b \<Rightarrow> (exn + (string \<times> int) list) \<times> 'b"
  ad_delete_topics :: "string \<Rightarrow> 'b \<Rightarrow> (exn + (string \<times> int) list) \<times> 'b"
  ad_close :: "'b \<Rightarrow> 'b"
  ad_monotonic :: "'b \<Rightarrow> rat"
  ad_sleep :: "rat \<Rightarrow> 'b \<Rightarrow> 'b"

text \<open>A call followed by the rest of the coroutine, with the environment threaded through.\<close>

definition bind_call :: "(exn + 'x) \<times> 'b \<Rightarrow> ('x \<Rightarrow> 'b \<Rightarrow> (exn + 'y) \<times> 'b) \<Rightarrow> (exn + 'y) \<times> 'b" where
  "bind_call c k = (case c of (Inl e, b) \<Rightarrow> (Inl e, b) | (Inr x, b) \<Rightarrow> k x b)"

definition ensure_topic_exists ::
    "'b admin \<Rightarrow> (int \<Rightarrow> string) \<Rightarrow> mq_config \<Rightarrow> 'b \<Rightarrow> (exn + unit) \<times> 'b" where
  "ensure_topic_exists adm for_code config b =
     bind_call (ad_start adm b) (\<lambda>_ b1.
       let (result, b2) =
         bind_call (ad_list_topics adm b1) (\<lambda>topics b2.
           if mq_topic config \<in> set topics then (Inr (), b2)
           else bind_call (ad_create_topics adm (mq_topic config) (mq_num_partitions config)
                  TOPIC_REPLICATION_FACTOR b2) (\<lambda>response b3.
             (raise_on_topic_errors for_code response ''TopicAlreadyExistsError'', b3)))
       in (result, ad_close adm b2))"

text \<open>
  The wait for a deletion to finish. \<open>None\<close> is a loop that has not ended within \<open>fuel\<close> passes.
\<close>

fun poll_deleted ::
    "'b admin \<Rightarrow> string \<Rightarrow> rat \<Rightarrow> nat \<Rightarrow> 'b \<Rightarrow> ((exn + unit) \<times> 'b) option" where
  "poll_deleted adm topic deadline 0 b = None"
| "poll_deleted adm topic deadline (Suc fuel) b =
     (case ad_list_topics adm b of
        (Inl e, b1) \<Rightarrow> Some (Inl e, b1)
      | (Inr topics, b1) \<Rightarrow>
          if topic \<notin> set topics then Some (Inr (), b1)
          else if deadline \<le> ad_monotonic adm b1 then Some (Inl (TimeoutErr topic), b1)
          else poll_deleted adm topic deadline fuel (ad_sleep adm TOPIC_DELETE_POLL_INTERVAL_S b1))"

definition delete_and_wait ::
    "'b admin \<Rightarrow> (int \<Rightarrow> string) \<Rightarrow> string \<Rightarrow> nat \<Rightarrow> 'b \<Rightarrow> ((exn + unit) \<times> 'b) option" where
  "delete_and_wait adm for_code topic fuel b =
     (case ad_list_topics adm b of
        (Inl e, b1) \<Rightarrow> Some (Inl e, b1)
      | (Inr topics, b1) \<Rightarrow>
          if topic \<notin> set topics then Some (Inr (), b1)
          else (case ad_delete_topics adm topic b1 of
              (Inl e, b2) \<Rightarrow> Some (Inl e, b2)
            | (Inr response, b2) \<Rightarrow>
                (case raise_on_topic_errors for_code response ''UnknownTopicOrPartitionError'' of
                   Inl e \<Rightarrow> Some (Inl e, b2)
                 | Inr _ \<Rightarrow>
                     poll_deleted adm topic (ad_monotonic adm b2 + TOPIC_DELETE_POLL_TIMEOUT_S) fuel b2)))"

definition reset_topic ::
    "'b admin \<Rightarrow> (int \<Rightarrow> string) \<Rightarrow> mq_config \<Rightarrow> nat \<Rightarrow> 'b \<Rightarrow> ((exn + unit) \<times> 'b) option" where
  "reset_topic adm for_code config fuel b =
     (case ad_start adm b of
        (Inl e, b1) \<Rightarrow> Some (Inl e, b1)
      | (Inr _, b1) \<Rightarrow>
          (case delete_and_wait adm for_code (mq_topic config) fuel b1 of
             None \<Rightarrow> None
           | Some (Inl e, b2) \<Rightarrow> Some (Inl e, ad_close adm b2)
           | Some (Inr _, b2) \<Rightarrow> Some (ensure_topic_exists adm for_code config (ad_close adm b2))))"

section \<open>Producer\<close>

text \<open>Bytes are characters 0 to 255; \<open>utf8_encode\<close> is \<open>str.encode("utf-8")\<close> on code points below 256.\<close>

type_synonym bytes = "char list"

fun utf8_encode :: "string \<Rightarrow> bytes" where
  "utf8_encode [] = []"
| "utf8_encode (c # cs) =
     (let n = (of_char c :: nat)
      in if n < 128 then c # utf8_encode cs
         else char_of (192 + n div 64) # char_of (128 + n mod 64) # utf8_encode cs)"

text \<open>\<open>dump_json\<close> is pydantic's \<open>model_dump_json\<close>. A message is its key and its value.\<close>

definition build_message ::
    "('v replicate_request \<Rightarrow> string) \<Rightarrow> string \<Rightarrow> 'v \<Rightarrow> pyfloat \<Rightarrow> string \<Rightarrow> bytes \<times> bytes" where
  "build_message dump_json key v timestamp node_id =
     (let message = \<lparr>rreq_key = key, rreq_value = v, rreq_timestamp = timestamp, rreq_node_id = node_id\<rparr>
      in (utf8_encode key, utf8_encode (dump_json message)))"

text \<open>A topic: the messages of each partition in offset order; \<open>partitioner\<close> picks one by the key.\<close>

type_synonym kafka_log = "nat \<Rightarrow> (bytes \<times> bytes) list"

definition publish :: "(bytes \<Rightarrow> nat) \<Rightarrow> bytes \<times> bytes \<Rightarrow> kafka_log \<Rightarrow> kafka_log" where
  "publish partitioner message klog =
     (let p = partitioner (fst message) in klog(p := klog p @ [message]))"

text \<open>
  How \<open>send_and_wait\<close> ends. A failed send may or may not have reached the log.
\<close>

datatype send_result = Send_ok | Send_kafka_error string bool | Send_raises exn bool

definition producer_put_key ::
    "('v replicate_request \<Rightarrow> string) \<Rightarrow> (bytes \<Rightarrow> nat) \<Rightarrow> string \<Rightarrow> bool \<Rightarrow> pyfloat \<Rightarrow> send_result \<Rightarrow>
     string \<Rightarrow> 'v put_request \<Rightarrow> kafka_log \<Rightarrow> put_response http_result \<times> kafka_log" where
  "producer_put_key dump_json partitioner node_id started now sent key body klog =
     (let timestamp = now;
          message = build_message dump_json key (preq_value body) timestamp node_id
      in if \<not> started then (Http_crash (KeyErr ''producer''), klog)
         else case sent of
             Send_ok \<Rightarrow>
               (Http_ok \<lparr>pres_applied = True, pres_timestamp = timestamp\<rparr>, publish partitioner message klog)
           | Send_kafka_error exc logged \<Rightarrow>
               (Http_error (http_error 503 (Kafka_not_confirmed exc)),
                if logged then publish partitioner message klog else klog)
           | Send_raises e logged \<Rightarrow>
               (Http_crash e, if logged then publish partitioner message klog else klog))"

record producer_health_response =
  phres_node_id :: string

definition producer_health :: "string \<Rightarrow> producer_health_response http_result" where
  "producer_health node_id = Http_ok \<lparr>phres_node_id = node_id\<rparr>"

definition producer_build_app :: "route list \<Rightarrow> route list" where
  "producer_build_app builtin =
     add_route (add_route builtin ''/kv/{key}'' ''PUT'' Ep_put_key_producer) ''/health'' ''GET'' Ep_producer_health"

text \<open>Startup makes sure of the topic before the producer is started; only then is it stored.\<close>

definition producer_startup ::
    "'b admin \<Rightarrow> (int \<Rightarrow> string) \<Rightarrow> mq_config \<Rightarrow> ('b \<Rightarrow> (exn + unit) \<times> 'b) \<Rightarrow> 'b \<Rightarrow> (exn + bool) \<times> 'b" where
  "producer_startup adm for_code config start_producer b =
     bind_call (ensure_topic_exists adm for_code config b) (\<lambda>_ b1.
       bind_call (start_producer b1) (\<lambda>_ b2. (Inr True, b2)))"

section \<open>Follower\<close>

record partition_lag =
  pl_partition :: nat
  pl_end_offset :: int
  pl_committed_offset :: "int option"
  pl_lag :: int

record lag_response =
  lag_node_id :: string
  lag_total :: int
  lag_partitions :: "partition_lag list"

text \<open>
  The consumer's assignment is read at once; an empty one ends the function. Then the end offsets are awaited,
  and after them the committed offset of each partition in turn: what each of these calls gives, an
  exception included, is given, and no two of them need to describe the same moment.
\<close>

definition compute_lag ::
    "nat list \<Rightarrow> exn + (nat \<Rightarrow> int) \<Rightarrow> (nat \<Rightarrow> exn + int option) \<Rightarrow> exn + partition_lag list" where
  "compute_lag partitions end_offsets committed_of =
     (if partitions = [] then Inr []
      else bind_exn end_offsets (\<lambda>ends.
        map_exn (\<lambda>tp. bind_exn (committed_of tp) (\<lambda>committed.
          Inr \<lparr>pl_partition = tp, pl_end_offset = ends tp, pl_committed_offset = committed,
            pl_lag = ends tp - (case committed of None \<Rightarrow> 0 | Some c \<Rightarrow> c)\<rparr>)) (sort partitions)))"

text \<open>\<open>parse_json\<close> is pydantic's \<open>model_validate_json\<close>, \<open>None\<close> where it raises a ValidationError.\<close>

definition apply_message ::
    "(bytes \<Rightarrow> 'v replicate_request option) \<Rightarrow> bytes \<Rightarrow> 'v kvstore \<Rightarrow>
     ('v replicate_request \<times> bool) option \<times> 'v kvstore" where
  "apply_message parse_json raw storage =
     (case parse_json raw of
        None \<Rightarrow> (None, storage)
      | Some parsed \<Rightarrow>
          (let (applied, storage') = kv_put storage (rreq_key parsed) (rreq_value parsed)
             (rreq_timestamp parsed) (rreq_node_id parsed)
           in (Some (parsed, applied), storage')))"

text \<open>
  A follower: its store, the next offset its consumer reads in each partition, the offset whose commit
  its consume loop awaits, the offsets its group has committed (kept by the broker), and whether the
  loop is running. The group has this one member.
\<close>

record 'v mq_follower =
  mf_store :: "'v kvstore"
  mf_position :: "nat \<Rightarrow> nat"
  mf_committing :: "(nat \<times> nat) option"
  mf_committed :: "nat \<Rightarrow> nat option"
  mf_running :: bool

definition consumer_group :: "mq_config \<Rightarrow> string \<Rightarrow> string" where
  "consumer_group config node_id = mq_consumer_group_prefix config @ ''-'' @ node_id"

text \<open>
  Start of a process: an empty store, and a consumer that resumes from the committed offsets, or from
  the earliest message where nothing was committed.
\<close>

definition mq_follower_startup :: "(nat \<Rightarrow> nat option) \<Rightarrow> 'v mq_follower" where
  "mq_follower_startup committed =
     \<lparr>mf_store = kv_init, mf_position = (\<lambda>p. case committed p of None \<Rightarrow> 0 | Some c \<Rightarrow> c),
      mf_committing = None, mf_committed = committed, mf_running = True\<rparr>"

text \<open>
  One pass of \<open>_consume_loop\<close> on the next message of partition \<open>p\<close>, up to its \<open>await\<close>: apply the message and
  start to commit the offset after it. When the commit ends the loop goes on, or the exception it raises
  ends the loop; the offset may have reached the broker in that case too.
\<close>

definition consume_message ::
    "(bytes \<Rightarrow> 'v replicate_request option) \<Rightarrow> nat \<Rightarrow> kafka_log \<Rightarrow> 'v mq_follower \<Rightarrow> 'v mq_follower" where
  "consume_message parse_json p klog f =
     (let offset = mf_position f p
      in if \<not> mf_running f \<or> mf_committing f \<noteq> None \<or> length (klog p) \<le> offset then f
         else (let (result, store') = apply_message parse_json (snd (klog p ! offset)) (mf_store f)
               in f\<lparr>mf_store := store', mf_position := (mf_position f)(p := offset + 1),
                    mf_committing := Some (p, offset + 1)\<rparr>))"

datatype commit_result = Commit_ok | Commit_raises bool

definition commit_reached :: "commit_result \<Rightarrow> bool" where
  "commit_reached r = (case r of Commit_ok \<Rightarrow> True | Commit_raises reached \<Rightarrow> reached)"

definition end_commit :: "commit_result \<Rightarrow> 'v mq_follower \<Rightarrow> 'v mq_follower" where
  "end_commit r f =
     (case mf_committing f of
        None \<Rightarrow> f
      | Some (p, offset) \<Rightarrow>
          f\<lparr>mf_committing := None,
            mf_committed := (if commit_reached r then (mf_committed f)(p := Some offset) else mf_committed f),
            mf_running := mf_running f \<and> r = Commit_ok\<rparr>)"

definition get_lag ::
    "string \<Rightarrow> bool \<Rightarrow> nat list \<Rightarrow> exn + (nat \<Rightarrow> int) \<Rightarrow> (nat \<Rightarrow> exn + int option) \<Rightarrow> lag_response http_result" where
  "get_lag node_id started partitions end_offsets committed_of =
     (if \<not> started then Http_error (http_error 503 Consumer_not_started)
      else case compute_lag partitions end_offsets committed_of of
          Inl e \<Rightarrow> Http_crash e
        | Inr lags \<Rightarrow>
            Http_ok \<lparr>lag_node_id = node_id, lag_total = sum_list (map pl_lag lags), lag_partitions = lags\<rparr>)"

definition mq_follower_build_app :: "route list \<Rightarrow> route list \<times> 'v kvstore" where
  "mq_follower_build_app builtin =
     (add_route (create_app builtin) ''/internal/lag'' ''GET'' Ep_get_lag, kv_init)"

section \<open>Runs of one follower against a topic\<close>

datatype mq_event = Logged "bytes \<times> bytes" | Applied nat | Committed commit_result | Restarted

record 'v mq_state =
  ms_log :: kafka_log
  ms_follower :: "'v mq_follower"

definition mq_init :: "'v mq_state" where
  "mq_init = \<lparr>ms_log = (\<lambda>p. []), ms_follower = mq_follower_startup (\<lambda>p. None)\<rparr>"

fun mq_step :: "(bytes \<Rightarrow> 'v replicate_request option) \<Rightarrow> (bytes \<Rightarrow> nat) \<Rightarrow> 'v mq_state \<Rightarrow> mq_event \<Rightarrow> 'v mq_state" where
  "mq_step parse_json partitioner s (Logged m) = s\<lparr>ms_log := publish partitioner m (ms_log s)\<rparr>"
| "mq_step parse_json partitioner s (Applied p) =
     s\<lparr>ms_follower := consume_message parse_json p (ms_log s) (ms_follower s)\<rparr>"
| "mq_step parse_json partitioner s (Committed r) = s\<lparr>ms_follower := end_commit r (ms_follower s)\<rparr>"
| "mq_step parse_json partitioner s Restarted =
     s\<lparr>ms_follower := mq_follower_startup (mf_committed (ms_follower s))\<rparr>"

fun mq_run ::
    "(bytes \<Rightarrow> 'v replicate_request option) \<Rightarrow> (bytes \<Rightarrow> nat) \<Rightarrow> mq_event list \<Rightarrow> 'v mq_state \<Rightarrow> 'v mq_state" where
  "mq_run parse_json partitioner [] s = s"
| "mq_run parse_json partitioner (ev # evs) s = mq_run parse_json partitioner evs (mq_step parse_json partitioner s ev)"

lemma mq_run_append:
  "mq_run parse_json partitioner (xs @ ys) s = mq_run parse_json partitioner ys (mq_run parse_json partitioner xs s)"
  by (induction xs arbitrary: s) simp_all

text \<open>The state a run has reached after its first \<open>k\<close> events.\<close>

definition mq_at ::
    "(bytes \<Rightarrow> 'v replicate_request option) \<Rightarrow> (bytes \<Rightarrow> nat) \<Rightarrow> mq_event list \<Rightarrow> nat \<Rightarrow> 'v mq_state" where
  "mq_at parse_json partitioner evs k = mq_run parse_json partitioner (take k evs) mq_init"

text \<open>
  What \<open>GET /internal/lag\<close> answers in the course of a run: the end offset of partition \<open>p\<close> is that of the
  moment \<open>te p\<close>, its committed offset that of the moment \<open>tc p\<close>.
\<close>

definition lag_reply ::
    "(bytes \<Rightarrow> 'v replicate_request option) \<Rightarrow> (bytes \<Rightarrow> nat) \<Rightarrow> string \<Rightarrow> nat list \<Rightarrow> mq_event list \<Rightarrow>
     (nat \<Rightarrow> nat) \<Rightarrow> (nat \<Rightarrow> nat) \<Rightarrow> lag_response http_result" where
  "lag_reply parse_json partitioner node_id assignment evs te tc =
     get_lag node_id True assignment
       (Inr (\<lambda>p. int (length (ms_log (mq_at parse_json partitioner evs (te p)) p))))
       (\<lambda>p. Inr (map_option int (mf_committed (ms_follower (mq_at parse_json partitioner evs (tc p))) p)))"

text \<open>
  Runs in which the follower is not restarted, every message goes to one of the topic's \<open>n\<close> partitions,
  and the writes of the key carry real timestamps.
\<close>

fun fresh_event ::
    "(bytes \<Rightarrow> 'v replicate_request option) \<Rightarrow> (bytes \<Rightarrow> nat) \<Rightarrow> nat \<Rightarrow> string \<Rightarrow> mq_event \<Rightarrow> bool" where
  "fresh_event parse_json partitioner n key (Logged m) \<longleftrightarrow>
     partitioner (fst m) < n \<and>
     (case parse_json (snd m) of None \<Rightarrow> True | Some r \<Rightarrow> rreq_key r \<noteq> key \<or> rreq_timestamp r \<noteq> NaN)"
| "fresh_event parse_json partitioner n key (Applied p) \<longleftrightarrow> True"
| "fresh_event parse_json partitioner n key (Committed r) \<longleftrightarrow> True"
| "fresh_event parse_json partitioner n key Restarted \<longleftrightarrow> False"

text \<open>The versions of the key the log carries.\<close>

definition logged ::
    "(bytes \<Rightarrow> 'v replicate_request option) \<Rightarrow> string \<Rightarrow> (bytes \<times> bytes) list \<Rightarrow> 'v versioned_value set" where
  "logged parse_json key ms =
     {rreq_entry r | r m. m \<in> set ms \<and> parse_json (snd m) = Some r \<and> rreq_key r = key}"

lemma logged_simps [simp]:
  "logged parse_json key [] = {}"
  "logged parse_json key (ms @ ms') = logged parse_json key ms \<union> logged parse_json key ms'"
  unfolding logged_def by (simp, unfold set_append, blast)

lemma logged_mono: "set ms \<subseteq> set ms' \<Longrightarrow> logged parse_json key ms \<subseteq> logged parse_json key ms'"
  unfolding logged_def by blast

definition committed_offset :: "'v mq_follower \<Rightarrow> nat \<Rightarrow> nat" where
  "committed_offset f p = (case mf_committed f p of None \<Rightarrow> 0 | Some c \<Rightarrow> c)"

definition mq_inv ::
    "(bytes \<Rightarrow> 'v replicate_request option) \<Rightarrow> nat \<Rightarrow> string \<Rightarrow> 'v mq_state \<Rightarrow> bool" where
  "mq_inv parse_json n key s \<longleftrightarrow>
     (let f = ms_follower s; klog = ms_log s in
      store_ok (Collect stamped) key (mf_store f) \<and>
      (\<forall>p. committed_offset f p \<le> mf_position f p \<and> mf_position f p \<le> length (klog p)) \<and>
      (\<forall>p c. mf_committing f = Some (p, c) \<longrightarrow> c = mf_position f p) \<and>
      (\<forall>p. \<forall>e \<in> logged parse_json key (take (mf_position f p) (klog p)). holds (mf_store f) key e) \<and>
      (\<forall>p. logged parse_json key (klog p) \<subseteq> Collect stamped) \<and>
      (\<forall>p. n \<le> p \<longrightarrow> klog p = []) \<and>
      (\<forall>c. kv_get (mf_store f) key = Some c \<longrightarrow> (\<exists>p. c \<in> logged parse_json key (klog p))))"

lemma mq_inv_init: "mq_inv parse_json n key mq_init"
  by (simp add: mq_inv_def mq_init_def mq_follower_startup_def committed_offset_def store_ok_def store_simps)

lemma apply_message_store:
  "snd (apply_message parse_json raw st) =
     (case parse_json raw of None \<Rightarrow> st | Some r \<Rightarrow> snd (kv_put_entry st (rreq_key r) (rreq_entry r)))"
  by (simp add: apply_message_def kv_put_entry_def rreq_entry_def case_prod_beta Let_def split: option.split)

lemma apply_message_inv:
  assumes "store_ok (Collect stamped) key st" "logged parse_json key [m] \<subseteq> Collect stamped"
  shows "evolves (Collect stamped) key st (snd (apply_message parse_json (snd m) st)) \<and>
    (\<forall>e \<in> logged parse_json key [m]. holds (snd (apply_message parse_json (snd m) st)) key e) \<and>
    (\<forall>c. kv_get (snd (apply_message parse_json (snd m) st)) key = Some c \<longrightarrow>
       kv_get st key = Some c \<or> c \<in> logged parse_json key [m])"
proof (cases "parse_json (snd m)")
  case None
  with assms show ?thesis by (auto simp: apply_message_store logged_def evolves_refl)
next
  case (Some r)
  have st: "rreq_key r = key \<Longrightarrow> stamped (rreq_entry r)"
    using assms(2) Some by (auto simp: logged_def)
  have l: "logged parse_json key [m] = (if rreq_key r = key then {rreq_entry r} else {})"
    using Some by (auto simp: logged_def)
  have "evolves (Collect stamped) key st (snd (kv_put_entry st (rreq_key r) (rreq_entry r)))"
    by (rule evolves_put) (use assms(1) st in auto)
  moreover have "rreq_key r = key \<Longrightarrow> holds (snd (kv_put_entry st key (rreq_entry r))) key (rreq_entry r)"
    using put_entry_holds [OF assms(1)] st by auto
  ultimately show ?thesis
    using Some l by (auto simp: apply_message_store store_simps)
qed

lemma mq_inv_logged:
  assumes inv: "mq_inv parse_json n key s" and ev: "fresh_event parse_json partitioner n key (Logged m)"
  shows "mq_inv parse_json n key (mq_step parse_json partitioner s (Logged m))"
proof -
  have "logged parse_json key [m] \<subseteq> Collect stamped"
    using ev by (auto simp: logged_def stamped_def rreq_entry_def split: option.splits)
  moreover have "partitioner (fst m) < n" using ev by simp
  ultimately show ?thesis
    using inv unfolding mq_inv_def by (auto simp: publish_def Let_def le_SucI) metis
qed

lemma mq_inv_applied:
  assumes inv: "mq_inv parse_json n key s"
  shows "mq_inv parse_json n key (mq_step parse_json partitioner s (Applied p))"
proof (cases "\<not> mf_running (ms_follower s) \<or> mf_committing (ms_follower s) \<noteq> None \<or>
    length (ms_log s p) \<le> mf_position (ms_follower s) p")
  case True
  with inv show ?thesis by (auto simp: consume_message_def)
next
  case False
  let ?f = "ms_follower s" and ?l = "ms_log s"
  let ?o = "mf_position ?f p"
  let ?m = "?l p ! ?o"
  let ?st = "snd (apply_message parse_json (snd ?m) (mf_store ?f))"
  have sub: "logged parse_json key [?m] \<subseteq> logged parse_json key (?l p)"
    by (rule logged_mono) (use False in simp)
  have i: "store_ok (Collect stamped) key (mf_store ?f)"
    using inv by (simp add: mq_inv_def Let_def)
  have stamps: "logged parse_json key (?l q) \<subseteq> Collect stamped" for q
    using inv unfolding mq_inv_def Let_def by blast
  note a = apply_message_inv [OF i order_trans [OF sub stamps]]
  have take: "take (Suc ?o) (?l p) = take ?o (?l p) @ [?m]"
    using False by (simp add: take_Suc_conv_app_nth)
  have held: "holds ?st key e" if "e \<in> logged parse_json key (take (mf_position ?f q) (?l q))" for q e
  proof -
    have "holds (mf_store ?f) key e" using inv that by (auto simp: mq_inv_def Let_def)
    moreover have "stamped e"
      using order_trans [OF logged_mono [OF set_take_subset] stamps] that by blast
    ultimately show ?thesis using a by (auto simp: evolves_def)
  qed
  have content: "\<exists>q. c \<in> logged parse_json key (?l q)" if "kv_get ?st key = Some c" for c
    using a that inv sub by (auto simp: mq_inv_def Let_def)
  have s': "mq_step parse_json partitioner s (Applied p) = s\<lparr>ms_follower := ?f\<lparr>mf_store := ?st,
      mf_position := (mf_position ?f)(p := ?o + 1), mf_committing := Some (p, ?o + 1)\<rparr>\<rparr>"
    using False by (simp add: consume_message_def Let_def case_prod_beta)
  show ?thesis
    unfolding s' mq_inv_def using inv a held content False take
    by (auto simp: mq_inv_def Let_def evolves_def committed_offset_def le_SucI)
qed

lemma mq_inv_committed:
  "mq_inv parse_json n key s \<Longrightarrow> mq_inv parse_json n key (mq_step parse_json partitioner s (Committed r))"
  by (auto simp: mq_inv_def end_commit_def committed_offset_def Let_def split: option.split prod.split)

lemma mq_inv_step:
  assumes inv: "mq_inv parse_json n key s" and ev: "fresh_event parse_json partitioner n key ev"
  shows "mq_inv parse_json n key (mq_step parse_json partitioner s ev)"
proof (cases ev)
  case (Logged m)
  then show ?thesis using mq_inv_logged [OF inv] ev by simp
next
  case (Applied p)
  then show ?thesis using mq_inv_applied [OF inv] by simp
next
  case (Committed r)
  then show ?thesis using mq_inv_committed [OF inv] by simp
qed (use ev in simp)

lemma mq_inv_run:
  "mq_inv parse_json n key s \<Longrightarrow> list_all (fresh_event parse_json partitioner n key) evs \<Longrightarrow>
   mq_inv parse_json n key (mq_run parse_json partitioner evs s)"
  by (induction evs arbitrary: s) (simp_all add: mq_inv_step)

lemma mq_inv_at:
  "list_all (fresh_event parse_json partitioner n key) evs \<Longrightarrow> mq_inv parse_json n key (mq_at parse_json partitioner evs k)"
  unfolding mq_at_def by (intro mq_inv_run mq_inv_init) (auto simp: list_all_iff dest: in_set_takeD)

lemma logged_Cons [simp]:
  "logged parse_json key (m # ms) =
     (case parse_json (snd m) of
        None \<Rightarrow> logged parse_json key ms
      | Some r \<Rightarrow> if rreq_key r = key then insert (rreq_entry r) (logged parse_json key ms)
          else logged parse_json key ms)"
proof (cases m)
  case (Pair a b)
  then show ?thesis
    unfolding logged_def by (cases "parse_json b") (simp, auto)
qed

text \<open>Logs and committed offsets only grow.\<close>

definition mq_later :: "'v mq_state \<Rightarrow> 'v mq_state \<Rightarrow> bool" where
  "mq_later s s' \<longleftrightarrow>
     (\<forall>p. prefix (ms_log s p) (ms_log s' p) \<and>
        committed_offset (ms_follower s) p \<le> committed_offset (ms_follower s') p)"

lemma mq_later_length: "mq_later s s' \<Longrightarrow> length (ms_log s p) \<le> length (ms_log s' p)"
  unfolding mq_later_def by (simp add: prefix_length_le)

lemma mq_later_trans: "mq_later s s' \<Longrightarrow> mq_later s' s'' \<Longrightarrow> mq_later s s''"
  unfolding mq_later_def by (meson order_trans prefix_order.trans)

lemma mq_later_step:
  assumes "mq_inv parse_json n key s"
  shows "mq_later s (mq_step parse_json partitioner s ev)"
proof (cases ev)
  case (Committed r)
  with assms show ?thesis
    by (auto simp: mq_later_def mq_inv_def end_commit_def committed_offset_def Let_def split: option.splits prod.splits)
qed (auto simp: mq_later_def publish_def consume_message_def mq_follower_startup_def committed_offset_def Let_def
    split: prod.split)

lemma mq_later_run:
  "mq_inv parse_json n key s \<Longrightarrow> list_all (fresh_event parse_json partitioner n key) evs \<Longrightarrow>
   mq_later s (mq_run parse_json partitioner evs s)"
proof (induction evs arbitrary: s)
  case (Cons ev evs)
  have ev: "fresh_event parse_json partitioner n key ev" and evs: "list_all (fresh_event parse_json partitioner n key) evs"
    using Cons.prems(2) by simp_all
  show ?case
    using mq_later_trans [OF mq_later_step [OF Cons.prems(1)] Cons.IH [OF mq_inv_step [OF Cons.prems(1) ev] evs]] by simp
qed (simp add: mq_later_def)

lemma mq_at_later:
  assumes "list_all (fresh_event parse_json partitioner n key) evs" "j \<le> k"
  shows "mq_later (mq_at parse_json partitioner evs j) (mq_at parse_json partitioner evs k)"
proof -
  obtain more where more: "take k evs = take j evs @ more"
    using take_is_prefix assms(2) by (metis min.absorb1 prefix_def take_take)
  then have "list_all (fresh_event parse_json partitioner n key) more"
    using assms(1) by (metis append_take_drop_id list_all_append)
  then show ?thesis
    using mq_later_run [OF mq_inv_at [OF assms(1), of j]] more by (simp add: mq_at_def mq_run_append)
qed

text \<open>The topic's messages that a follower has not applied.\<close>

definition caught_up :: "nat \<Rightarrow> 'v mq_state \<Rightarrow> bool" where
  "caught_up n s \<longleftrightarrow> (\<forall>p < n. mf_position (ms_follower s) p = length (ms_log s p))"

lemma caught_up_position:
  assumes "mq_inv parse_json n key s" "caught_up n s"
  shows "mf_position (ms_follower s) p = length (ms_log s p)"
proof (cases "p < n")
  case False
  moreover have "\<forall>p. mf_position (ms_follower s) p \<le> length (ms_log s p)" "\<forall>p. n \<le> p \<longrightarrow> ms_log s p = []"
    using assms(1) unfolding mq_inv_def Let_def by blast+
  ultimately show ?thesis by (metis le_zero_eq list.size(3) not_le)
qed (use assms(2) in \<open>simp add: caught_up_def\<close>)

lemma caught_up_holds:
  assumes "mq_inv parse_json n key s" "caught_up n s" "e \<in> logged parse_json key (ms_log s p)"
  shows "holds (mf_store (ms_follower s)) key e"
  using assms caught_up_position [OF assms(1,2), of p] unfolding mq_inv_def Let_def by (metis take_all order_refl)

text \<open>What a reply says about each partition.\<close>

lemma lag_reply_partitions:
  assumes "lag_reply parse_json partitioner node_id assignment evs te tc = Http_ok lag"
  shows "lag_partitions lag = map (\<lambda>p.
      \<lparr>pl_partition = p, pl_end_offset = int (length (ms_log (mq_at parse_json partitioner evs (te p)) p)),
       pl_committed_offset = map_option int (mf_committed (ms_follower (mq_at parse_json partitioner evs (tc p))) p),
       pl_lag = int (length (ms_log (mq_at parse_json partitioner evs (te p)) p)) -
         int (committed_offset (ms_follower (mq_at parse_json partitioner evs (tc p))) p)\<rparr>) (sort assignment) \<and>
    lag_total lag = sum_list (map pl_lag (lag_partitions lag))"
proof -
  have all: "map_exn (\<lambda>p. Inr (g p)) ps = Inr (map g ps)" for g :: "nat \<Rightarrow> partition_lag" and ps
    by (induction ps) (simp_all add: bind_exn_def)
  have offset: "(case map_option int x of None \<Rightarrow> 0 | Some c \<Rightarrow> c) = int (case x of None \<Rightarrow> 0 | Some c \<Rightarrow> c)" for x
    by (cases x) simp_all
  have inr: "bind_exn (Inr x) f = f x" for x and f :: "'c \<Rightarrow> exn + 'd"
    by (simp add: bind_exn_def)
  show ?thesis
    using assms unfolding lag_reply_def get_lag_def compute_lag_def inr offset all
    by (cases "assignment = []") (auto simp: committed_offset_def)
qed

text \<open>
  A reply that covers the topic and reports no positive lag, or a total of zero while nothing was logged: at
  its end the follower has applied all that had been logged when the request came in.
\<close>

definition lag_moments :: "nat \<Rightarrow> nat \<Rightarrow> (nat \<Rightarrow> nat) \<Rightarrow> (nat \<Rightarrow> nat) \<Rightarrow> bool" where
  "lag_moments start finish te tc \<longleftrightarrow> (\<forall>p. start \<le> te p \<and> te p \<le> tc p \<and> tc p \<le> finish)"

definition no_lag ::
    "(bytes \<Rightarrow> 'v replicate_request option) \<Rightarrow> (bytes \<Rightarrow> nat) \<Rightarrow> nat \<Rightarrow> nat list \<Rightarrow> mq_event list \<Rightarrow> nat \<Rightarrow> nat \<Rightarrow>
     lag_response \<Rightarrow> bool" where
  "no_lag parse_json partitioner n assignment evs start finish lag \<longleftrightarrow>
     {0..<n} \<subseteq> set assignment \<and>
     ((\<forall>pl \<in> set (lag_partitions lag). pl_lag pl \<le> 0) \<or>
      lag_total lag = 0 \<and>
      ms_log (mq_at parse_json partitioner evs finish) = ms_log (mq_at parse_json partitioner evs start))"

lemma no_lag_partition:
  assumes fresh: "list_all (fresh_event parse_json partitioner n key) evs" and moments: "lag_moments start finish te tc"
    and reply: "lag_reply parse_json partitioner node_id assignment evs te tc = Http_ok lag"
    and no_lag: "no_lag parse_json partitioner n assignment evs start finish lag" and p: "p < n"
  shows "length (ms_log (mq_at parse_json partitioner evs (te p)) p) \<le>
    committed_offset (ms_follower (mq_at parse_json partitioner evs (tc p))) p"
proof -
  let ?at = "mq_at parse_json partitioner evs"
  let ?lag = "\<lambda>p. int (length (ms_log (?at (te p)) p)) - int (committed_offset (ms_follower (?at (tc p))) p)"
  note parts = lag_reply_partitions [OF reply]
  have p': "p \<in> set assignment" using no_lag p by (auto simp: no_lag_def)
  have "?lag p \<le> 0"
  proof (cases "\<forall>pl \<in> set (lag_partitions lag). pl_lag pl \<le> 0")
    case True
    then have "\<forall>q \<in> set (sort assignment). ?lag q \<le> 0" unfolding parts [THEN conjunct1] by simp
    then show ?thesis using p' by simp
  next
    case False
    then have quiet: "lag_total lag = 0" "ms_log (?at finish) = ms_log (?at start)"
      using no_lag by (auto simp: no_lag_def)
    have "0 \<le> ?lag q" for q
    proof -
      have "committed_offset (ms_follower (?at (tc q))) q \<le> length (ms_log (?at (tc q)) q)"
        using mq_inv_at [OF fresh, of "tc q"] unfolding mq_inv_def Let_def by (meson order_trans)
      moreover have "length (ms_log (?at (tc q)) q) \<le> length (ms_log (?at finish) q)"
        "length (ms_log (?at start) q) \<le> length (ms_log (?at (te q)) q)"
        using moments unfolding lag_moments_def by (blast intro: mq_later_length mq_at_later [OF fresh])+
      ultimately show ?thesis using quiet(2) by simp
    qed
    moreover have "sum_list (map ?lag (sort assignment)) = 0"
    proof -
      have "map pl_lag (lag_partitions lag) = map ?lag (sort assignment)" unfolding parts [THEN conjunct1] by simp
      then show ?thesis using parts [THEN conjunct2] quiet(1) by simp
    qed
    ultimately have "\<forall>q \<in> set (sort assignment). ?lag q = 0"
      by (subst (asm) sum_list_nonneg_eq_0_iff) auto
    then show ?thesis using p' by simp
  qed
  then show ?thesis by simp
qed

lemma no_lag_applied:
  assumes fresh: "list_all (fresh_event parse_json partitioner n key) evs" and moments: "lag_moments start finish te tc"
    and reply: "lag_reply parse_json partitioner node_id assignment evs te tc = Http_ok lag"
    and no_lag: "no_lag parse_json partitioner n assignment evs start finish lag"
    and k: "finish \<le> k" and e: "e \<in> logged parse_json key (ms_log (mq_at parse_json partitioner evs start) p)"
  shows "holds (mf_store (ms_follower (mq_at parse_json partitioner evs k))) key e"
proof -
  let ?at = "mq_at parse_json partitioner evs"
  note inv = mq_inv_at [OF fresh]
  have "p < n" using inv [of start] e by (auto simp: mq_inv_def Let_def intro: ccontr)
  from no_lag_partition [OF fresh moments reply no_lag this]
  have applied: "length (ms_log (?at (te p)) p) \<le> committed_offset (ms_follower (?at (tc p))) p" .
  have later: "mq_later (?at start) (?at (te p))" "mq_later (?at (tc p)) (?at k)" "mq_later (?at start) (?at k)"
    using moments k unfolding lag_moments_def by (meson mq_at_later [OF fresh] order_trans)+
  have "length (ms_log (?at start) p) \<le> mf_position (ms_follower (?at k)) p"
  proof -
    have "length (ms_log (?at start) p) \<le> length (ms_log (?at (te p)) p)" using later(1) by (rule mq_later_length)
    also note applied
    also have "committed_offset (ms_follower (?at (tc p))) p \<le> committed_offset (ms_follower (?at k)) p"
      using later(2) by (simp add: mq_later_def)
    also have "\<dots> \<le> mf_position (ms_follower (?at k)) p" using inv [of k] by (simp add: mq_inv_def Let_def)
    finally show ?thesis .
  qed
  moreover obtain rest where "ms_log (?at k) p = ms_log (?at start) p @ rest"
    using later(3) by (auto simp: mq_later_def prefix_def)
  ultimately have "set (ms_log (?at start) p) \<subseteq> set (take (mf_position (ms_follower (?at k)) p) (ms_log (?at k) p))"
    by simp
  then show ?thesis using logged_mono e inv [of k] unfolding mq_inv_def Let_def by blast
qed

text \<open>Two caught-up followers of the same log: what one has at the key the other has too.\<close>

lemma caught_up_agree:
  assumes t: "mq_inv parse_json n key t" "caught_up n t" "kv_get (mf_store (ms_follower t)) key = Some c"
    and t': "mq_inv parse_json n key t'" "caught_up n t'" and logs: "ms_log t = ms_log s" "ms_log t' = ms_log s"
    and no_tie: "\<forall>p q. \<forall>a \<in> logged parse_json key (ms_log s p). \<forall>b \<in> logged parse_json key (ms_log s q).
      stamp a = stamp b \<longrightarrow> a = b"
  shows "kv_get (mf_store (ms_follower t')) key = Some c"
proof -
  obtain p where p: "c \<in> logged parse_json key (ms_log s p)"
    using t logs unfolding mq_inv_def Let_def by metis
  obtain d where d: "kv_get (mf_store (ms_follower t')) key = Some d" "stamp c \<le> stamp d"
    using caught_up_holds [OF t'] p logs by (auto simp: holds_def)
  obtain q where q: "d \<in> logged parse_json key (ms_log s q)"
    using t' d(1) logs unfolding mq_inv_def Let_def by metis
  have "stamp d \<le> stamp c"
    using caught_up_holds [OF t(1,2)] q logs t(3) by (auto simp: holds_def)
  then have "c = d" using d(2) no_tie p q by (metis order_antisym)
  with d show ?thesis by simp
qed

section \<open>Properties\<close>


definition demo_parse :: "bytes \<Rightarrow> nat replicate_request option" where
  "demo_parse raw =
     (case raw of
        [] \<Rightarrow> None
      | c # cs \<Rightarrow> Some \<lparr>rreq_key = ''k'', rreq_value = of_char c, rreq_timestamp = Fin (of_nat (of_char c)),
          rreq_node_id = ''producer''\<rparr>)"

text \<open>Three messages are logged, the last one malformed, and applied; the commit of the last is still awaited.\<close>

definition demo_events :: "mq_event list" where
  "demo_events = [Logged (''k'', ''a''), Applied 0, Committed Commit_ok, Logged (''k'', ''c''), Applied 0,
     Committed Commit_ok, Logged (''k'', []), Applied 0]"

lemmas mq_eval = mq_init_def mq_follower_startup_def publish_def consume_message_def end_commit_def commit_reached_def
  apply_message_def kv_put_def kv_init_def is_newer_than_def get_lag_def compute_lag_def bind_exn_def Let_def

lemma demo_fresh: "list_all (fresh_event demo_parse (\<lambda>k. 0) 1 ''k'') demo_events"
  by (simp add: demo_events_def demo_parse_def)

text \<open>The request comes in after the second message was logged; its committed offset is read after the commit.\<close>

lemma demo_reply:
  "lag_reply demo_parse (\<lambda>k. 0) ''follower-1'' [0] demo_events (\<lambda>p. 4) (\<lambda>p. 7) =
   Http_ok \<lparr>lag_node_id = ''follower-1'', lag_total = 0,
     lag_partitions = [\<lparr>pl_partition = 0, pl_end_offset = 2, pl_committed_offset = Some 2, pl_lag = 0\<rparr>]\<rparr>"
  by (simp add: lag_reply_def mq_at_def demo_events_def demo_parse_def mq_eval)


text \<open>
  Zero before the start: a follower that has not been assigned its partitions yet reports a total of zero
  whatever the log holds. So does one whose lags, read at different moments, cancel.
\<close>

lemma mq_lag_zero_unassigned:
  "get_lag node_id True [] end_offsets committed_of =
     Http_ok \<lparr>lag_node_id = node_id, lag_total = 0, lag_partitions = []\<rparr>"
  by (simp add: get_lag_def compute_lag_def)

lemma mq_lag_cancels:
  "get_lag node_id True [0, 1] (Inr (\<lambda>p. if p = 0 then 5 else 3)) (\<lambda>p. Inr (Some 4)) =
     Http_ok \<lparr>lag_node_id = node_id, lag_total = 0, lag_partitions =
       [\<lparr>pl_partition = 0, pl_end_offset = 5, pl_committed_offset = Some 4, pl_lag = 1\<rparr>,
        \<lparr>pl_partition = 1, pl_end_offset = 3, pl_committed_offset = Some 4, pl_lag = - 1\<rparr>]\<rparr>"
  by (simp add: get_lag_def compute_lag_def bind_exn_def)

text \<open>
  A restart loses the store but not the committed offsets: right after it every GET answers 404, but the
  committed offsets, which the lag is computed from, are those from before, and no message before them is
  ever read again. Zero lag then no longer means a complete copy.
\<close>

theorem mq_restart_hides_loss:
  "committed_offset (ms_follower (mq_step parse_json partitioner s Restarted)) p =
     committed_offset (ms_follower s) p \<and>
   mf_position (ms_follower (mq_step parse_json partitioner s Restarted)) p = committed_offset (ms_follower s) p \<and>
   ms_log (mq_step parse_json partitioner s Restarted) = ms_log s \<and>
   get_key (mf_store (ms_follower (mq_step parse_json partitioner s Restarted))) key =
     Http_error (http_error 404 (Key_not_found key))"
  by (simp add: mq_follower_startup_def committed_offset_def get_key_def store_simps)


text \<open>A second follower, whose consumer starts when all three messages are in the log.\<close>

definition late_events :: "mq_event list" where
  "late_events = [Logged (''k'', ''a''), Logged (''k'', ''c''), Logged (''k'', []), Applied 0, Committed Commit_ok,
     Applied 0, Committed Commit_ok, Applied 0, Committed (Commit_raises False)]"


lemma loggedI:
  "m \<in> set ms \<Longrightarrow> parse_json (snd m) = Some r \<Longrightarrow> rreq_key r = key \<Longrightarrow> rreq_entry r \<in> logged parse_json key ms"
  unfolding logged_def by blast

lemma message_stays: "m \<in> set (ms_log s p) \<Longrightarrow> m \<in> set (ms_log (mq_run parse_json partitioner evs s) p)"
proof (induction evs arbitrary: s)
  case (Cons ev evs)
  have "set (ms_log s p) \<subseteq> set (ms_log (mq_step parse_json partitioner s ev) p)"
    by (cases ev) (auto simp: publish_def Let_def)
  with Cons show ?case by auto
qed simp

lemma message_logged:
  "m \<in> set (ms_log (mq_run parse_json partitioner (evs @ Logged m # evs') s) (partitioner (fst m)))"
  unfolding mq_run_append by (auto simp: publish_def Let_def intro: message_stays)


definition demo_dump :: "nat replicate_request \<Rightarrow> string" where
  "demo_dump m = (if rreq_value m = 97 then ''a'' else ''c'')"


definition clock_laws :: "'b admin \<Rightarrow> bool" where
  "clock_laws adm \<longleftrightarrow>
     (\<forall>b. ad_monotonic adm b \<le> ad_monotonic adm (snd (ad_list_topics adm b))) \<and>
     (\<forall>d b. ad_monotonic adm b + d \<le> ad_monotonic adm (ad_sleep adm d b))"

lemma poll_deleted_returns:
  assumes "clock_laws adm" "deadline \<le> ad_monotonic adm b + of_nat fuel * TOPIC_DELETE_POLL_INTERVAL_S"
  shows "poll_deleted adm topic deadline (Suc fuel) b \<noteq> None"
  using assms(2)
proof (induction fuel arbitrary: b)
  case 0
  have "ad_monotonic adm b \<le> ad_monotonic adm (snd (ad_list_topics adm b))"
    using assms(1) by (simp add: clock_laws_def)
  with 0 show ?case by (auto split: prod.splits sum.splits)
next
  case (Suc fuel)
  let ?b1 = "snd (ad_list_topics adm b)"
  let ?b2 = "ad_sleep adm TOPIC_DELETE_POLL_INTERVAL_S ?b1"
  have "ad_monotonic adm b \<le> ad_monotonic adm ?b1"
    "ad_monotonic adm ?b1 + TOPIC_DELETE_POLL_INTERVAL_S \<le> ad_monotonic adm ?b2"
    using assms(1) by (simp_all add: clock_laws_def)
  then have "deadline \<le> ad_monotonic adm ?b2 + of_nat fuel * TOPIC_DELETE_POLL_INTERVAL_S"
    using Suc.prems by (simp add: algebra_simps)
  note IH = Suc.IH [OF this]
  show ?case
    by (subst poll_deleted.simps(2)) (use IH in \<open>auto simp del: poll_deleted.simps split: prod.splits sum.splits\<close>)
qed

lemma reset_topic_ends:
  assumes "clock_laws adm"
  shows "\<exists>result b'. reset_topic adm for_code config 31 b = Some (result, b')"
proof -
  have "poll_deleted adm topic (ad_monotonic adm b + TOPIC_DELETE_POLL_TIMEOUT_S) 31 b \<noteq> None" for topic b
    using poll_deleted_returns [OF assms, of "ad_monotonic adm b + TOPIC_DELETE_POLL_TIMEOUT_S" b 30 topic]
    by (simp add: TOPIC_DELETE_POLL_TIMEOUT_S_def TOPIC_DELETE_POLL_INTERVAL_S_def)
  note polled = this
  have waited: "delete_and_wait adm for_code topic 31 b \<noteq> None" for topic b
    unfolding delete_and_wait_def using polled by (simp split: prod.split sum.split)
  have "reset_topic adm for_code config 31 b \<noteq> None"
  proof (cases "ad_start adm b")
    case (Pair r b1)
    then show ?thesis
      using waited [of "mq_topic config" b1]
      by (auto simp: reset_topic_def split: sum.split option.split prod.split)
  qed
  then show ?thesis by auto
qed

text \<open>
  C21. \<open>reset_topic\<close> always comes back: if the clock does not run backwards and a sleep lasts at least
  as long as asked, it returns or raises within 31 passes of its polling loop, for every behaviour of
  the broker; a topic that never disappears makes it raise TimeoutError.
\<close>

theorem reset_topic_returns:
  assumes "clock_laws adm"
  shows "\<exists>result b'. reset_topic adm for_code config 31 b = Some (result, b')"
  using assms by (rule reset_topic_ends)

text \<open>A broker that never gets rid of the topic, with a clock.\<close>

definition stuck_admin :: "rat admin" where
  "stuck_admin = \<lparr>ad_start = Pair (Inr ()), ad_list_topics = Pair (Inr [''t'']),
     ad_create_topics = (\<lambda>t n r. Pair (Inr [(t, 36)])), ad_delete_topics = (\<lambda>t. Pair (Inr [(t, 0)])),
     ad_close = id, ad_monotonic = id, ad_sleep = (+)\<rparr>"

theorem reset_topic_returns_witness:
  "\<exists>result b'. reset_topic stuck_admin (\<lambda>c. []) \<lparr>mq_bootstrap_servers = ''b'', mq_topic = ''t'',
     mq_num_partitions = 1, mq_consumer_group_prefix = ''g''\<rparr> 31 0 = Some (result, b')"
  by (rule reset_topic_returns) (simp add: clock_laws_def stuck_admin_def)

text \<open>
  What a loaded message queue configuration guarantees, and what it does not: the strings are
  non-empty and stripped and there is at least one partition; but a field left blank in the YAML file
  is read as null and accepted as the string \<open>None\<close>.
\<close>

theorem mq_config_checked:
  "(\<forall>config. mq_config_from_dict repr raw = Inr config \<longrightarrow>
      1 \<le> mq_num_partitions config \<and> mq_topic config \<noteq> [] \<and> mq_bootstrap_servers config \<noteq> [] \<and>
      mq_consumer_group_prefix config \<noteq> []) \<and>
   mq_config_from_dict repr (PDict [(''bootstrap_servers'', PStr ''localhost:9092''), (''topic'', PNone),
       (''consumer_group_prefix'', PStr ''g''), (''num_partitions'', PInt 3)]) =
     Inr \<lparr>mq_bootstrap_servers = ''localhost:9092'', mq_topic = ''None'', mq_num_partitions = 3,
       mq_consumer_group_prefix = ''g''\<rparr>"
proof -
  have nonempty: "s \<noteq> []" if "require_nonempty_str v name = Inr s" for v name s
    using that by (auto simp: require_nonempty_str_def Let_def split: if_splits)
  have "1 \<le> mq_num_partitions config \<and> mq_topic config \<noteq> [] \<and> mq_bootstrap_servers config \<noteq> [] \<and>
      mq_consumer_group_prefix config \<noteq> []" if "mq_config_from_dict repr raw = Inr config" for config
    using that unfolding mq_config_from_dict_def bind_exn_Inr_iff
    by (auto split: if_splits dest: nonempty)
  moreover have "mq_config_from_dict repr (PDict [(''bootstrap_servers'', PStr ''localhost:9092''), (''topic'', PNone),
       (''consumer_group_prefix'', PStr ''g''), (''num_partitions'', PInt 3)]) =
     Inr \<lparr>mq_bootstrap_servers = ''localhost:9092'', mq_topic = ''None'', mq_num_partitions = 3,
       mq_consumer_group_prefix = ''g''\<rparr>"
    by (simp add: mq_config_from_dict_def require_nonempty_str_def py_dict_get_def py_strip_def
        py_isspace_def Let_def)
  ultimately show ?thesis by blast
qed

theorem mq_config_checked_witness:
  "1 \<le> mq_num_partitions \<lparr>mq_bootstrap_servers = ''localhost:9092'', mq_topic = ''None'', mq_num_partitions = 3,
       mq_consumer_group_prefix = ''g''\<rparr>"
  using mq_config_checked [of "\<lambda>v. []" "PDict [(''bootstrap_servers'', PStr ''localhost:9092''), (''topic'', PNone),
       (''consumer_group_prefix'', PStr ''g''), (''num_partitions'', PInt 3)]"]
  by blast

end
