(* ===== verification/KV_LoadTest.thy ===== *)
theory KV_LoadTest
  imports KV_Prelude
begin

text \<open>
  \<open>experiments/_load_test_common.py\<close>: the request plan of a load test, the counter and the source of
  truth its workers share, the statistics each worker keeps and how they are merged, and the recording
  of failures and stale reads. Generators of random numbers are parameters: streams determined by
  their seed.
\<close>

section \<open>Request planning\<close>

definition DEFAULT_SEED :: int where
  "DEFAULT_SEED = 42"

record request_plan =
  rp_is_read :: bool
  rp_key :: string
  rp_read_target_index :: "int option"

text \<open>
  What \<open>random.Random(seed)\<close> yields as its \<open>i\<close>-th draw: \<open>getrandbits(64)\<close>, \<open>random()\<close>, and an index
  below a bound, which \<open>choice\<close> and \<open>randrange\<close> draw.
\<close>

record prng =
  getrandbits64 :: "int \<Rightarrow> nat \<Rightarrow> int"
  rng_random :: "int \<Rightarrow> nat \<Rightarrow> rat"
  rng_below :: "int \<Rightarrow> nat \<Rightarrow> int \<Rightarrow> int"

definition derive_seeds :: "prng \<Rightarrow> int \<Rightarrow> nat \<Rightarrow> int list" where
  "derive_seeds g seed n = map (getrandbits64 g seed) [0..<n]"

text \<open>
  One pass of the planning loop, with \<open>i\<close> requests and \<open>t\<close> read targets drawn so far. Drawing from an
  empty list of keys or below zero targets raises.
\<close>

fun plan_requests ::
    "prng \<Rightarrow> int \<Rightarrow> int \<Rightarrow> int \<Rightarrow> string list \<Rightarrow> int \<Rightarrow> rat \<Rightarrow> nat \<Rightarrow> nat \<Rightarrow> nat \<Rightarrow> exn + request_plan list" where
  "plan_requests g mix_seed key_seed target_seed keys num_read_targets read_fraction 0 i t = Inr []"
| "plan_requests g mix_seed key_seed target_seed keys num_read_targets read_fraction (Suc n) i t =
     (let is_read = (rng_random g mix_seed i < read_fraction)
      in if keys = [] then Inl IndexErr
         else let key = keys ! nat (rng_below g key_seed i (int (length keys)))
         in if is_read \<and> num_read_targets \<le> 0 then Inl (ValueErr ''randrange'')
            else let read_target_index =
                       (if is_read then Some (rng_below g target_seed t num_read_targets) else None)
              in bind_exn
                   (plan_requests g mix_seed key_seed target_seed keys num_read_targets read_fraction n (Suc i)
                     (if is_read then Suc t else t))
                   (\<lambda>plan. Inr (\<lparr>rp_is_read = is_read, rp_key = key,
                     rp_read_target_index = read_target_index\<rparr> # plan)))"

definition generate_request_plan ::
    "prng \<Rightarrow> int \<Rightarrow> string list \<Rightarrow> int \<Rightarrow> rat \<Rightarrow> int \<Rightarrow> exn + request_plan list" where
  "generate_request_plan g total_requests keys num_read_targets read_fraction seed =
     (let seeds = derive_seeds g seed 3
      in plan_requests g (seeds ! 0) (seeds ! 1) (seeds ! 2) keys num_read_targets read_fraction
           (nat total_requests) 0 0)"

text \<open>\<open>plan[start:start + size]\<close> for bounds that are not negative.\<close>

definition slice :: "'a list \<Rightarrow> nat \<Rightarrow> nat \<Rightarrow> 'a list" where
  "slice xs start n = take n (drop start xs)"

fun split_chunks :: "'a list \<Rightarrow> nat \<Rightarrow> nat \<Rightarrow> nat \<Rightarrow> nat \<Rightarrow> nat \<Rightarrow> 'a list list" where
  "split_chunks plan base remainder 0 i start = []"
| "split_chunks plan base remainder (Suc n) i start =
     (let chunk_size = base + (if i < remainder then 1 else 0)
      in slice plan start chunk_size # split_chunks plan base remainder n (Suc i) (start + chunk_size))"

text \<open>
  \<open>divmod(len(plan), num_workers)\<close> raises for zero workers; for a negative number the range is empty
  and no chunk is made.
\<close>

definition split_plan :: "'a list \<Rightarrow> int \<Rightarrow> exn + 'a list list" where
  "split_plan plan num_workers =
     (if num_workers = 0 then Inl ZeroDivisionErr
      else if num_workers < 0 then Inr []
      else let n = nat num_workers; base = length plan div n; remainder = length plan mod n
        in Inr (split_chunks plan base remainder n 0 0))"

section \<open>Shared state\<close>

text \<open>\<open>GlobalCounter\<close>: each call under its lock returns the next integer.\<close>

definition next_value :: "int \<Rightarrow> int \<times> int" where
  "next_value counter = (counter, counter + 1)"

record source_entry =
  src_value :: int
  src_timestamp :: pyfloat

type_synonym source_of_truth = "(string \<times> source_entry) list"

definition sot_record :: "source_of_truth \<Rightarrow> string \<Rightarrow> int \<Rightarrow> pyfloat \<Rightarrow> source_of_truth" where
  "sot_record entries key v timestamp =
     (let new = AList.update key \<lparr>src_value = v, src_timestamp = timestamp\<rparr> entries
      in case map_of entries key of
           None \<Rightarrow> new
         | Some current \<Rightarrow> if flt (src_timestamp current) timestamp then new else entries)"

definition sot_snapshot :: "source_of_truth \<Rightarrow> string \<Rightarrow> source_entry option" where
  "sot_snapshot entries key = map_of entries key"

section \<open>Statistics\<close>

datatype operation = Read_op | Write_op

datatype failure_type = Timeout_failure | Connection_error | Other_error | Non_2xx

record failure_event =
  fe_operation :: operation
  fe_failure_type :: failure_type
  fe_key :: string
  fe_node_id :: string
  fe_status_code :: "int option"
  fe_detail :: "string option"
  fe_timestamp :: pyfloat

text \<open>
  A stale event: \<open>se_actual\<close> is \<open>None\<close> for \<open>"missing"\<close>, \<open>se_node_field\<close> the name its node id is stored
  under, and \<open>se_lag\<close> the lag sample the message queue test adds (\<open>None\<close> inside where it failed).
\<close>

record stale_event =
  se_key :: string
  se_node_field :: string
  se_node_id :: string
  se_expected :: pyfloat
  se_actual :: "pyfloat option"
  se_gap_ms :: pyfloat
  se_lag :: "int option option"

record stats =
  total_requests :: int
  total_reads :: int
  total_writes :: int
  comparable_reads :: int
  stale_reads :: int
  stale_events :: "stale_event list"
  failed_reads :: int
  failed_writes :: int
  failure_counts :: "(operation \<times> failure_type) \<Rightarrow> int"
  failure_events :: "failure_event list"

definition stats_init :: stats where
  "stats_init = \<lparr>total_requests = 0, total_reads = 0, total_writes = 0, comparable_reads = 0, stale_reads = 0,
     stale_events = [], failed_reads = 0, failed_writes = 0, failure_counts = (\<lambda>_. 0), failure_events = []\<rparr>"

definition total_failures :: "stats \<Rightarrow> int" where
  "total_failures s = failed_reads s + failed_writes s"

text \<open>The rate in percent, exact.\<close>

definition staleness_rate :: "stats \<Rightarrow> rat" where
  "staleness_rate s =
     (if comparable_reads s = 0 then 0 else 100 * of_int (stale_reads s) / of_int (comparable_reads s))"

definition stats_merge :: "stats \<Rightarrow> stats \<Rightarrow> stats" where
  "stats_merge s other =
     \<lparr>total_requests = total_requests s + total_requests other,
      total_reads = total_reads s + total_reads other,
      total_writes = total_writes s + total_writes other,
      comparable_reads = comparable_reads s + comparable_reads other,
      stale_reads = stale_reads s + stale_reads other,
      stale_events = stale_events s @ stale_events other,
      failed_reads = failed_reads s + failed_reads other,
      failed_writes = failed_writes s + failed_writes other,
      failure_counts = (\<lambda>k. failure_counts s k + failure_counts other k),
      failure_events = failure_events s @ failure_events other\<rparr>"

text \<open>The httpx exceptions the tests tell apart.\<close>

datatype httpx_error = Timeout_exception | Connect_error | Other_httpx_error

fun classify_exception :: "httpx_error \<Rightarrow> failure_type" where
  "classify_exception Timeout_exception = Timeout_failure"
| "classify_exception Connect_error = Connection_error"
| "classify_exception Other_httpx_error = Other_error"

definition record_failure ::
    "pyfloat \<Rightarrow> stats \<Rightarrow> operation \<Rightarrow> failure_type \<Rightarrow> string \<Rightarrow> string \<Rightarrow> int option \<Rightarrow> string option \<Rightarrow> stats" where
  "record_failure now s op failure_type key node_id status_code detail =
     (let s1 = (case op of Read_op \<Rightarrow> s\<lparr>failed_reads := failed_reads s + 1\<rparr>
                 | Write_op \<Rightarrow> s\<lparr>failed_writes := failed_writes s + 1\<rparr>)
      in s1\<lparr>failure_counts := (failure_counts s1)((op, failure_type) := failure_counts s1 (op, failure_type) + 1),
           failure_events := failure_events s1 @
             [\<lparr>fe_operation = op, fe_failure_type = failure_type, fe_key = key, fe_node_id = node_id,
               fe_status_code = status_code, fe_detail = detail, fe_timestamp = now\<rparr>]\<rparr>)"

fun ms_of :: "pyfloat \<Rightarrow> pyfloat" where
  "ms_of (Fin a) = Fin (a * 1000)"
| "ms_of x = x"

definition record_stale ::
    "pyfloat \<Rightarrow> stats \<Rightarrow> string \<Rightarrow> string \<Rightarrow> source_entry \<Rightarrow> pyfloat option \<Rightarrow> string \<Rightarrow> stats" where
  "record_stale now s key node_id expected actual_timestamp node_id_field =
     (let gap_ms = (case actual_timestamp of
              None \<Rightarrow> ms_of (fsub now (src_timestamp expected))
            | Some actual \<Rightarrow> ms_of (fsub (src_timestamp expected) actual))
      in s\<lparr>stale_reads := stale_reads s + 1,
           stale_events := stale_events s @
             [\<lparr>se_key = key, se_node_field = node_id_field, se_node_id = node_id,
               se_expected = src_timestamp expected, se_actual = actual_timestamp, se_gap_ms = gap_ms,
               se_lag = None\<rparr>]\<rparr>)"

section \<open>Reporting\<close>

text \<open>Linear interpolation between the two neighbours of the rank, in exact arithmetic.\<close>

definition percentile :: "rat list \<Rightarrow> rat \<Rightarrow> rat" where
  "percentile values pct =
     (if values = [] then 0
      else let ordered = sort values
        in if length ordered = 1 then ordered ! 0
           else let rank = (pct / 100) * of_nat (length ordered - 1);
                    lower = nat (py_trunc rank);
                    upper = min (lower + 1) (length ordered - 1);
                    fraction = rank - of_nat lower
             in ordered ! lower + (ordered ! upper - ordered ! lower) * fraction)"

section \<open>Lemmas\<close>

lemma slice_append_drop: "slice xs start n @ drop (start + n) xs = drop start xs"
  by (simp add: slice_def add.commute flip: drop_drop)

lemma sum_head: "(\<Sum>j = i..<i + Suc n. f j) = (f i + (\<Sum>j = Suc i..<Suc i + n. f j) :: nat)"
  using sum.atLeast_Suc_lessThan [of i "i + Suc n" f] by simp

lemma split_chunks_concat:
  "concat (split_chunks plan b r n i start) @
     drop (start + (\<Sum>j = i..<i + n. b + (if j < r then 1 else 0))) plan = drop start plan"
proof (induction n arbitrary: i start)
  case 0
  then show ?case by simp
next
  case (Suc n)
  let ?c = "b + (if i < r then 1 else 0)"
  let ?s = "\<lambda>i n. \<Sum>j = i..<i + n. b + (if j < r then 1 else 0)"
  have sum: "?s i (Suc n) = ?c + ?s (Suc i) n"
    by (rule sum_head)
  have "concat (split_chunks plan b r (Suc n) i start) @ drop (start + ?s i (Suc n)) plan =
      slice plan start ?c @ concat (split_chunks plan b r n (Suc i) (start + ?c)) @
        drop (start + ?c + ?s (Suc i) n) plan"
    by (simp only: sum split_chunks.simps Let_def concat.simps append.assoc add.assoc)
  also have "\<dots> = slice plan start ?c @ drop (start + ?c) plan"
    by (simp only: Suc.IH)
  also have "\<dots> = drop start plan" by (rule slice_append_drop)
  finally show ?case .
qed

lemma sum_extra: "(\<Sum>j = 0..<n. b + (if j < r then 1 else 0)) = n * b + min n (r::nat)"
  by (induction n) auto

lemma split_chunks_length [simp]: "length (split_chunks plan b r n i start) = n"
  by (induction n arbitrary: i start) (simp_all add: Let_def)

lemma split_chunks_nth_length:
  assumes "k < n" "start + (\<Sum>j = i..<i + n. b + (if j < r then 1 else 0)) \<le> length plan"
  shows "length (split_chunks plan b r n i start ! k) = b + (if i + k < r then 1 else 0)"
  using assms
proof (induction n arbitrary: i start k)
  case 0
  then show ?case by simp
next
  case (Suc n)
  let ?c = "b + (if i < r then 1 else 0)"
  have "(\<Sum>j = i..<i + Suc n. b + (if j < r then 1 else 0)) =
      ?c + (\<Sum>j = Suc i..<Suc i + n. b + (if j < r then 1 else 0))"
    by (rule sum_head)
  then have fits: "start + ?c + (\<Sum>j = Suc i..<Suc i + n. b + (if j < r then 1 else 0)) \<le> length plan"
    using Suc.prems(2) by simp
  show ?case
  proof (cases k)
    case 0
    then show ?thesis using fits by (simp add: Let_def slice_def)
  next
    case (Suc k')
    then show ?thesis using Suc.IH [of k' "start + ?c" "Suc i"] Suc.prems(1) fits by (simp add: Let_def)
  qed
qed

lemma split_chunks_total:
  assumes "0 < n"
  shows "(\<Sum>j = 0..<0 + n. length plan div n + (if j < length plan mod n then 1 else 0)) = length plan"
proof -
  have "length plan mod n < n" using assms by simp
  then have "n * (length plan div n) + min n (length plan mod n) = length plan" by simp
  then show ?thesis unfolding add_0 by (simp only: sum_extra)
qed

text \<open>The shape of a request: reads carry the index of a target, writes none.\<close>

definition request_ok :: "string list \<Rightarrow> int \<Rightarrow> request_plan \<Rightarrow> bool" where
  "request_ok keys num_read_targets item \<longleftrightarrow>
     rp_key item \<in> set keys \<and>
     (case rp_read_target_index item of
        None \<Rightarrow> \<not> rp_is_read item
      | Some i \<Rightarrow> rp_is_read item \<and> 0 \<le> i \<and> i < num_read_targets)"

text \<open>What the code relies on of \<open>choice\<close> and \<open>randrange\<close>: an index below the bound.\<close>

definition prng_ok :: "prng \<Rightarrow> bool" where
  "prng_ok g \<longleftrightarrow> (\<forall>seed i bound. 0 < bound \<longrightarrow> 0 \<le> rng_below g seed i bound \<and> rng_below g seed i bound < bound)"

lemma plan_requests_ok:
  assumes "prng_ok g" "keys \<noteq> []" "0 < num_read_targets"
  shows "\<exists>plan. plan_requests g ms ks ts keys num_read_targets rf n i t = Inr plan \<and> length plan = n \<and>
           (\<forall>item \<in> set plan. request_ok keys num_read_targets item) \<and>
           map rp_is_read plan = map (\<lambda>j. rng_random g ms j < rf) [i..<i + n]"
proof (induction n arbitrary: i t)
  case 0
  then show ?case by simp
next
  case (Suc n)
  let ?rd = "rng_random g ms i < rf"
  obtain plan where plan:
    "plan_requests g ms ks ts keys num_read_targets rf n (Suc i) (if ?rd then Suc t else t) = Inr plan"
    "length plan = n" "\<forall>item \<in> set plan. request_ok keys num_read_targets item"
    "map rp_is_read plan = map (\<lambda>j. rng_random g ms j < rf) [Suc i..<Suc i + n]"
    using Suc.IH by blast
  have k: "keys ! nat (rng_below g ks i (int (length keys))) \<in> set keys"
    using assms(1,2) by (simp add: prng_ok_def nat_less_iff)
  have t: "0 \<le> rng_below g ts t num_read_targets" "rng_below g ts t num_read_targets < num_read_targets"
    using assms(1,3) by (simp_all add: prng_ok_def)
  have upt: "[i..<i + Suc n] = i # [Suc i..<Suc i + n]" by (simp add: upt_rec)
  show ?case
    using assms(2,3) plan k t unfolding upt by (auto simp: Let_def request_ok_def)
qed

lemma sot_record_snapshot:
  "sot_snapshot (sot_record entries key v ts) k =
     (if k = key \<and> (case sot_snapshot entries key of None \<Rightarrow> True | Some c \<Rightarrow> flt (src_timestamp c) ts)
      then Some \<lparr>src_value = v, src_timestamp = ts\<rparr> else sot_snapshot entries k)"
  by (simp add: sot_record_def sot_snapshot_def update_conv split: option.split)

definition sot_record_all :: "source_of_truth \<Rightarrow> (string \<times> int \<times> pyfloat) list \<Rightarrow> source_of_truth" where
  "sot_record_all entries ws = foldl (\<lambda>es (key, v, ts). sot_record es key v ts) entries ws"

text \<open>What the record keeps: the entries recorded for a key, and the newest of them.\<close>

definition sot_ok :: "(string \<times> int \<times> pyfloat) set \<Rightarrow> source_of_truth \<Rightarrow> bool" where
  "sot_ok W entries \<longleftrightarrow>
     (\<forall>k. case sot_snapshot entries k of
            None \<Rightarrow> \<not> (\<exists>v ts. (k, v, ts) \<in> W)
          | Some c \<Rightarrow> (k, src_value c, src_timestamp c) \<in> W \<and>
                      (\<forall>v ts. (k, v, ts) \<in> W \<longrightarrow> ts \<le> src_timestamp c))"

lemma sot_ok_empty [simp]: "sot_ok {} []"
  by (simp add: sot_ok_def sot_snapshot_def)

lemma sot_ok_record:
  assumes "sot_ok W entries" "ts \<noteq> NaN" "\<forall>(k, v, t) \<in> W. t \<noteq> NaN"
  shows "sot_ok (insert (key, v, ts) W) (sot_record entries key v ts)"
proof -
  have "case sot_snapshot (sot_record entries key v ts) k of
          None \<Rightarrow> \<not> (\<exists>v' t. (k, v', t) \<in> insert (key, v, ts) W)
        | Some c \<Rightarrow> (k, src_value c, src_timestamp c) \<in> insert (key, v, ts) W \<and>
            (\<forall>v' t. (k, v', t) \<in> insert (key, v, ts) W \<longrightarrow> t \<le> src_timestamp c)" for k
    using assms(1) [unfolded sot_ok_def, rule_format, of k] assms(2,3)
    by (auto simp: sot_record_snapshot flt_def not_less split: option.split if_splits; force)
  then show ?thesis by (simp add: sot_ok_def)
qed

lemma sot_ok_record_all:
  assumes "sot_ok W entries" "\<forall>(k, v, t) \<in> W \<union> set ws. t \<noteq> NaN"
  shows "sot_ok (W \<union> set ws) (sot_record_all entries ws)"
  using assms
proof (induction ws arbitrary: W entries)
  case Nil
  then show ?case by (simp add: sot_record_all_def)
next
  case (Cons w ws)
  obtain key v ts where w: "w = (key, v, ts)" by (cases w)
  have "sot_ok (insert w W) (sot_record entries key v ts)"
    using Cons.prems unfolding w by (intro sot_ok_record) auto
  from Cons.IH [OF this] Cons.prems(2) show ?case
    by (simp add: w sot_record_all_def)
qed

lemma sort_nth_mono:
  "i \<le> j \<Longrightarrow> j < length xs \<Longrightarrow> sort xs ! i \<le> sort xs ! j" for xs :: "'a :: linorder list"
  by (simp add: sorted_nth_mono)

lemma interpolate_between:
  fixes a b f :: rat
  assumes "a \<le> b" "0 \<le> f" "f \<le> 1"
  shows "a \<le> a + (b - a) * f" "a + (b - a) * f \<le> b"
proof -
  have "0 \<le> (b - a) * f" using assms by simp
  then show "a \<le> a + (b - a) * f" by simp
  have "(b - a) * f \<le> (b - a) * 1" using assms by (intro mult_left_mono) auto
  then show "a + (b - a) * f \<le> b" by simp
qed

lemma percentile_between_neighbours:
  assumes "values \<noteq> []" "0 \<le> pct" "pct \<le> 100"
  shows "\<exists>i j. i < length values \<and> j < length values \<and>
           sort values ! i \<le> percentile values pct \<and> percentile values pct \<le> sort values ! j"
proof (cases "length values = 1")
  case True
  then show ?thesis
    using assms(1) by (intro exI [of _ 0]) (simp add: percentile_def Let_def)
next
  case False
  define m where "m = length values - 1"
  have "0 < length values" using assms(1) by simp
  then have m: "1 \<le> m" "length values = Suc m"
    using False unfolding m_def by linarith+
  define rank where "rank = (pct / 100) * of_nat m"
  have r0: "0 \<le> rank" using assms(2) by (simp add: rank_def)
  have "rank \<le> 1 * of_nat m"
    unfolding rank_def using assms(3) by (intro mult_right_mono) auto
  then have rm: "rank \<le> of_nat m" by simp
  define l where "l = nat (py_trunc rank)"
  have l: "of_nat l \<le> rank" "rank < of_nat l + 1"
    using r0 floor_correct [of rank] by (simp_all add: l_def py_trunc_def)
  then have lm: "l \<le> m" using rm by (metis of_nat_le_iff order_trans)
  define u where "u = min (l + 1) m"
  have u: "l \<le> u" "u < length values" "l < length values" using lm m by (auto simp: u_def)
  have p: "percentile values pct =
      sort values ! l + (sort values ! u - sort values ! l) * (rank - of_nat l)"
    using assms(1) False by (simp add: percentile_def Let_def rank_def l_def u_def m_def)
  have "sort values ! l \<le> sort values ! u" using u by (intro sort_nth_mono)
  then show ?thesis
    using interpolate_between [of "sort values ! l" "sort values ! u" "rank - of_nat l"] l u
    unfolding p by (intro exI [of _ l] exI [of _ u]) simp
qed

section \<open>Consistency of the statistics\<close>

text \<open>The counters agree with each other and with the logged events.\<close>

definition stats_consistent :: "stats \<Rightarrow> bool" where
  "stats_consistent s \<longleftrightarrow>
     total_requests s = total_reads s + total_writes s \<and>
     stale_reads s = int (length (stale_events s)) \<and> stale_reads s \<le> comparable_reads s \<and>
     failed_reads s = int (length (filter (\<lambda>e. fe_operation e = Read_op) (failure_events s))) \<and>
     failed_writes s = int (length (filter (\<lambda>e. fe_operation e = Write_op) (failure_events s))) \<and>
     (\<forall>op ft. failure_counts s (op, ft) =
        int (length (filter (\<lambda>e. fe_operation e = op \<and> fe_failure_type e = ft) (failure_events s))))"

text \<open>
  The statistics account for so many reads and writes, of which some are still in flight: no read is
  both compared and failed, and none of those is counted that never got a reply.
\<close>

definition stats_account :: "int \<Rightarrow> int \<Rightarrow> int \<Rightarrow> int \<Rightarrow> stats \<Rightarrow> bool" where
  "stats_account reads writes reads_out writes_out s \<longleftrightarrow>
     stats_consistent s \<and> total_reads s = reads \<and> total_writes s = writes \<and>
     comparable_reads s + failed_reads s + reads_out \<le> reads \<and> failed_writes s + writes_out \<le> writes"

lemma stats_account_init [simp]: "stats_account 0 0 0 0 stats_init"
  by (simp add: stats_account_def stats_consistent_def stats_init_def)

lemma stats_account_started:
  assumes "stats_account r w 0 0 s"
  shows "stats_account (r + 1) w ro 0 (s\<lparr>total_requests := total_requests s + 1, total_reads := total_reads s + 1\<rparr>)
           \<longleftrightarrow> comparable_reads s + failed_reads s + ro \<le> r + 1"
    and "stats_account r (w + 1) 0 1 (s\<lparr>total_requests := total_requests s + 1, total_writes := total_writes s + 1\<rparr>)"
  using assms by (auto simp: stats_account_def stats_consistent_def)

lemma stats_account_failed_read:
  "stats_account r w 1 0 s \<Longrightarrow> stats_account r w 0 0 (record_failure now s Read_op ft key node_id st d)"
  by (auto simp: stats_account_def stats_consistent_def record_failure_def)

lemma stats_account_failed_write:
  "stats_account r w 0 1 s \<Longrightarrow> stats_account r w 0 0 (record_failure now s Write_op ft key node_id st d)"
  by (auto simp: stats_account_def stats_consistent_def record_failure_def)

lemma stats_account_written: "stats_account r w 0 1 s \<Longrightarrow> stats_account r w 0 0 s"
  by (simp add: stats_account_def)

lemma stats_account_compared:
  "stats_account r w 1 0 s \<Longrightarrow> stats_account r w 0 0 (s\<lparr>comparable_reads := comparable_reads s + 1\<rparr>)"
  by (simp add: stats_account_def stats_consistent_def)

lemma stats_account_stale:
  "stats_account r w 1 0 s \<Longrightarrow>
     stats_account r w 0 0
       (record_stale now (s\<lparr>comparable_reads := comparable_reads s + 1\<rparr>) key node_id expected actual field)"
  by (simp add: stats_account_def stats_consistent_def record_stale_def Let_def)

lemma stats_account_merge:
  "stats_account r w 0 0 s \<Longrightarrow> stats_account r' w' 0 0 s' \<Longrightarrow> stats_account (r + r') (w + w') 0 0 (stats_merge s s')"
  by (simp add: stats_account_def stats_consistent_def stats_merge_def)

lemma stats_account_rate:
  assumes "stats_account r w 0 0 s"
  shows "0 \<le> staleness_rate s \<and> staleness_rate s \<le> 100"
proof (cases "comparable_reads s = 0")
  case True
  then show ?thesis by (simp add: staleness_rate_def)
next
  case False
  then have "0 < comparable_reads s" "0 \<le> stale_reads s" "stale_reads s \<le> comparable_reads s"
    using assms by (auto simp: stats_account_def stats_consistent_def)
  then show ?thesis by (simp add: staleness_rate_def field_simps)
qed

section \<open>Properties\<close>

text \<open>
  Splitting a plan over workers loses and reorders nothing: the chunks, one per worker, put
  back together in order are the plan, and they are as even as possible, the first
  \<open>len(plan) % num_workers\<close> holding one request more than the others.
\<close>

theorem split_plan_partitions:
  assumes "0 < num_workers"
  shows "\<exists>chunks. split_plan plan num_workers = Inr chunks \<and> concat chunks = plan \<and>
           map length chunks =
             map (\<lambda>k. length plan div nat num_workers + (if k < length plan mod nat num_workers then 1 else 0))
               [0..<nat num_workers]"
proof -
  let ?n = "nat num_workers"
  let ?chunks = "split_chunks plan (length plan div ?n) (length plan mod ?n) ?n 0 0"
  have n: "0 < ?n" using assms by simp
  have "concat ?chunks @ [] = drop 0 plan"
    using split_chunks_concat [of plan "length plan div ?n" "length plan mod ?n" ?n 0 0]
    unfolding add_0 by (simp add: split_chunks_total [OF n, of plan, unfolded add_0])
  moreover have "map length ?chunks =
      map (\<lambda>k. length plan div ?n + (if k < length plan mod ?n then 1 else 0)) [0..<?n]"
  proof (rule nth_equalityI)
    fix k assume "k < length (map length ?chunks)"
    then have k: "k < ?n" by simp
    show "map length ?chunks ! k =
        map (\<lambda>k. length plan div ?n + (if k < length plan mod ?n then 1 else 0)) [0..<?n] ! k"
      using split_chunks_nth_length [OF k, where start = 0 and i = 0 and plan = plan]
        split_chunks_total [OF n, of plan] k by simp
  qed simp
  ultimately show ?thesis using assms by (simp add: split_plan_def Let_def)
qed

theorem split_plan_partitions_witness:
  "\<exists>chunks. split_plan [10::nat, 11, 12, 13, 14] 3 = Inr chunks \<and> concat chunks = [10, 11, 12, 13, 14] \<and>
     map length chunks = [2, 2, 1]"
  using split_plan_partitions [of 3 "[10::nat, 11, 12, 13, 14]"] by (simp add: upt_rec numeral_2_eq_2)

text \<open>
  The request plan of a run has exactly the requests asked for, each on a key of the pool, reads
  (and only they) with the index of an existing read target; and whether request \<open>j\<close> is a read depends
  on the seed of the read/write mix alone, not on the keys or the targets drawn.
\<close>

theorem request_plan_shape:
  assumes "prng_ok g" "keys \<noteq> []" "0 < num_read_targets"
  shows "\<exists>plan. generate_request_plan g requests keys num_read_targets read_fraction seed = Inr plan \<and>
           length plan = nat requests \<and> (\<forall>item \<in> set plan. request_ok keys num_read_targets item) \<and>
           map rp_is_read plan =
             map (\<lambda>j. rng_random g (getrandbits64 g seed 0) j < read_fraction) [0..<nat requests]"
  unfolding generate_request_plan_def Let_def
  using plan_requests_ok [OF assms, of _ _ _ read_fraction "nat requests" 0 0]
  by (simp add: derive_seeds_def)

definition demo_prng :: prng where
  "demo_prng = \<lparr>getrandbits64 = (\<lambda>seed i. seed + int i), rng_random = (\<lambda>seed i. if even i then 1 / 4 else 3 / 4),
     rng_below = (\<lambda>seed i bound. int i mod bound)\<rparr>"

lemma demo_prng_ok: "prng_ok demo_prng"
  by (simp add: prng_ok_def demo_prng_def)

theorem request_plan_shape_witness:
  "\<exists>plan. generate_request_plan demo_prng 3 [''key_0'', ''key_1''] 4 (7 / 10) DEFAULT_SEED = Inr plan \<and>
     length plan = 3 \<and> (\<forall>item \<in> set plan. request_ok [''key_0'', ''key_1''] 4 item) \<and>
     map rp_is_read plan = [True, False, True]"
  using request_plan_shape [OF demo_prng_ok, of "[''key_0'', ''key_1'']" 4 3 "7 / 10" DEFAULT_SEED]
  by (simp add: upt_rec) (simp add: demo_prng_def)

text \<open>
  The source of truth does not depend on the order in which concurrent writes complete: after any
  sequence of confirmed writes, in whatever order, its entry of a key is one of the writes recorded
  for that key, and none recorded for the key has a later timestamp.
\<close>

theorem source_of_truth_keeps_newest:
  assumes "\<forall>(k, v, ts) \<in> set ws. ts \<noteq> NaN"
  shows "sot_ok (set ws) (sot_record_all [] ws)"
  using sot_ok_record_all [of "{}" "[]" ws] assms by simp

theorem source_of_truth_keeps_newest_witness:
  "sot_snapshot (sot_record_all [] [(''k'', 7, Fin 2), (''j'', 8, Fin 1), (''k'', 9, Fin 1)]) ''k'' =
     Some \<lparr>src_value = 7, src_timestamp = Fin 2\<rparr> \<and>
   sot_ok (set [(''k'', 7, Fin 2), (''j'', 8, Fin 1), (''k'', 9, Fin 1)])
     (sot_record_all [] [(''k'', 7, Fin 2), (''j'', 8, Fin 1), (''k'', 9, Fin 1)])"
  using source_of_truth_keeps_newest [of "[(''k'', 7, Fin 2), (''j'', 8, Fin 1), (''k'', 9, Fin 1)]"]
  by (simp add: sot_record_all_def sot_record_def sot_snapshot_def)

text \<open>
  The reported percentile of a nonempty sample, for a percentage from 0 to 100, indexes inside the
  ordered sample and lies between its smallest and its largest value.
\<close>

theorem percentile_within_sample:
  assumes "values \<noteq> []" "0 \<le> pct" "pct \<le> 100"
  shows "Min (set values) \<le> percentile values pct \<and> percentile values pct \<le> Max (set values)"
proof -
  obtain i j where ij: "i < length values" "j < length values"
    "sort values ! i \<le> percentile values pct" "percentile values pct \<le> sort values ! j"
    using percentile_between_neighbours [OF assms] by blast
  have "sort values ! i \<in> set values" "sort values ! j \<in> set values"
    using ij by (metis length_sort nth_mem set_sort)+
  then show ?thesis
    using ij by (meson List.finite_set Max_ge Min_le order_trans)
qed

theorem percentile_within_sample_witness:
  "Min (set [3, 1, 2]) \<le> percentile [3, 1, 2] 95 \<and> percentile [3, 1, 2] 95 \<le> Max (set [3, 1, 2]) \<and>
   percentile [3, 1, 2] 95 = 29 / 10"
proof -
  have "\<lfloor>19 / 10 :: rat\<rfloor> = 1" by (simp add: floor_eq_iff)
  then have "percentile [3, 1, 2] 95 = 29 / 10"
    by (simp add: percentile_def Let_def py_trunc_def)
  then show ?thesis using percentile_within_sample [of "[3, 1, 2]" 95] by simp
qed

end
