(* ===== verification/KV_LoadRuns.thy ===== *)
theory KV_LoadRuns
  imports KV_LoadTest KV_Leader KV_Leaderless
begin

text \<open>
  The three staleness load tests, \<open>experiments/staleness_load_test.py\<close> (leader-follower, prefix
  \<open>lf\<close>), \<open>experiments/leaderless_staleness_load_test.py\<close> (\<open>ll\<close>) and
  \<open>experiments/mq_staleness_load_test.py\<close> (\<open>mq\<close>). A request of a worker is two steps, the code up to
  its HTTP call and the code after it, because between the two the other workers run on the shared
  counter, source of truth and rotation. A run is a sequence of such steps of any workers, in any
  order; replies, clock readings and lag samples are data of the steps.
\<close>

section \<open>HTTP calls of the tests\<close>

record http_request =
  hr_method :: string
  hr_url :: string
  hr_params :: "(string \<times> int) list"
  hr_json :: "int option"

text \<open>
  How a call ends: an httpx exception with its text, or a status with the part of the JSON body the
  code reads, an exception where reading it raises.
\<close>

datatype 'b http_outcome = Httpx_failed httpx_error string | Replied int "exn + 'b"

text \<open>\<open>resp.raise_for_status()\<close> and reading the body, with nothing caught.\<close>

definition checked_body :: "'b http_outcome \<Rightarrow> exn + 'b" where
  "checked_body outcome =
     (case outcome of
        Httpx_failed k detail \<Rightarrow> Inl (OtherErr detail)
      | Replied status body \<Rightarrow> if is_success status then body else Inl (OtherErr ''HTTPStatusError''))"

text \<open>Of a write's body: the truth of \<open>body.get("applied", False)\<close>, and \<open>body["timestamp"]\<close>.\<close>

record write_body =
  wb_applied :: bool
  wb_timestamp :: "exn + pyfloat"

section \<open>Workers\<close>

text \<open>State the workers share; \<open>ls_index\<close> is the rotation's, in the leaderless test.\<close>

record load_shared =
  ls_counter :: int
  ls_sot :: source_of_truth
  ls_index :: nat

text \<open>A call in flight: the request, the key, the node's name in the logs, and what the worker holds.\<close>

datatype pending =
    Pending_read http_request string string source_entry
  | Pending_write http_request string string int

text \<open>The code of one strategy's worker: up to the call of a request, and after the reply of a read or write.\<close>

record worker_code =
  wc_begin :: "load_shared \<Rightarrow> request_plan \<Rightarrow> stats \<Rightarrow> exn + stats \<times> pending option \<times> load_shared"
  wc_end_read :: "pyfloat \<Rightarrow> stats \<Rightarrow> string \<Rightarrow> string \<Rightarrow> source_entry \<Rightarrow> pyfloat http_outcome \<Rightarrow>
    int http_outcome \<Rightarrow> exn + stats"
  wc_end_write :: "pyfloat \<Rightarrow> stats \<Rightarrow> source_of_truth \<Rightarrow> string \<Rightarrow> string \<Rightarrow> int \<Rightarrow> write_body http_outcome \<Rightarrow>
    exn + stats \<times> source_of_truth"

record worker =
  wk_todo :: "request_plan list"
  wk_pending :: "pending option"
  wk_stats :: stats

record load_state =
  st_shared :: load_shared
  st_workers :: "worker list"
  st_raised :: "exn option"

datatype load_event =
    Begin nat
  | End_read nat pyfloat "pyfloat http_outcome" "int http_outcome"
  | End_write nat pyfloat "write_body http_outcome"

text \<open>\<open>xs[i]\<close> of a Python list, negative indices counting from the end.\<close>

definition py_item :: "'a list \<Rightarrow> int \<Rightarrow> exn + 'a" where
  "py_item xs i =
     (if 0 \<le> i \<and> i < int (length xs) then Inr (xs ! nat i)
      else if i < 0 \<and> - int (length xs) \<le> i then Inr (xs ! nat (i + int (length xs)))
      else Inl IndexErr)"

section \<open>The leader-follower test\<close>

definition LEADER_URL :: string where
  "LEADER_URL = ''http://localhost:8000''"

definition NUM_KEYS :: nat where "NUM_KEYS = 100"
definition NUM_WORKERS :: int where "NUM_WORKERS = 50"
definition TOTAL_REQUESTS :: int where "TOTAL_REQUESTS = 10000"
definition READ_FRACTION :: rat where "READ_FRACTION = 7 / 10"

definition KEYS :: "string list" where
  "KEYS = map (\<lambda>i. ''key_'' @ py_str_of_int (int i)) [0..<NUM_KEYS]"

definition lf_base_url :: "(pyval \<Rightarrow> string) \<Rightarrow> follower \<Rightarrow> string" where
  "lf_base_url fmt f = ''http://'' @ fmt (follower_host f) @ '':'' @ py_str_of_int (follower_port f)"

text \<open>\<open>get url\<close> is how a GET of \<open>url\<close> ends, with the \<open>node_id\<close> of its body.\<close>

fun lf_discover_node_ids ::
    "(pyval \<Rightarrow> string) \<Rightarrow> (string \<Rightarrow> string http_outcome) \<Rightarrow> follower list \<Rightarrow> (follower \<times> string) list \<Rightarrow>
     exn + (follower \<times> string) list" where
  "lf_discover_node_ids fmt get [] node_ids = Inr node_ids"
| "lf_discover_node_ids fmt get (follower # followers) node_ids =
     bind_exn (checked_body (get (lf_base_url fmt follower @ ''/health''))) (\<lambda>node_id.
       lf_discover_node_ids fmt get followers (AList.update follower node_id node_ids))"

definition lf_discover_leader_node_id :: "(string \<Rightarrow> string http_outcome) \<Rightarrow> exn + string" where
  "lf_discover_leader_node_id get = checked_body (get (LEADER_URL @ ''/health''))"

definition lf_begin_write :: "string \<Rightarrow> load_shared \<Rightarrow> string \<Rightarrow> pending \<times> load_shared" where
  "lf_begin_write leader_node_id sh key =
     (let (v, counter) = next_value (ls_counter sh)
      in (Pending_write \<lparr>hr_method = ''PUT'', hr_url = LEADER_URL @ ''/kv/'' @ key, hr_params = [], hr_json = Some v\<rparr>
            key leader_node_id v,
          sh\<lparr>ls_counter := counter\<rparr>))"

definition lf_end_write ::
    "pyfloat \<Rightarrow> stats \<Rightarrow> source_of_truth \<Rightarrow> string \<Rightarrow> string \<Rightarrow> int \<Rightarrow> write_body http_outcome \<Rightarrow>
     exn + stats \<times> source_of_truth" where
  "lf_end_write now s sot key leader_node_id v outcome =
     (case outcome of
        Httpx_failed exc detail \<Rightarrow>
          Inr (record_failure now s Write_op (classify_exception exc) key leader_node_id None (Some detail), sot)
      | Replied status body \<Rightarrow>
          if status \<noteq> 200
          then Inr (record_failure now s Write_op Non_2xx key leader_node_id (Some status) None, sot)
          else bind_exn body (\<lambda>b.
            if \<not> wb_applied b then Inr (s, sot)
            else bind_exn (wb_timestamp b) (\<lambda>timestamp. Inr (s, sot_record sot key v timestamp))))"

definition lf_begin_read ::
    "(pyval \<Rightarrow> string) \<Rightarrow> source_of_truth \<Rightarrow> follower \<Rightarrow> (follower \<times> string) list \<Rightarrow> string \<Rightarrow> pending option" where
  "lf_begin_read fmt sot follower follower_node_ids key =
     (case sot_snapshot sot key of
        None \<Rightarrow> None
      | Some expected_before \<Rightarrow>
          let node_id = (case map_of follower_node_ids follower of Some n \<Rightarrow> n
                         | None \<Rightarrow> fmt (follower_host follower) @ '':'' @ py_str_of_int (follower_port follower))
          in Some (Pending_read \<lparr>hr_method = ''GET'', hr_url = lf_base_url fmt follower @ ''/kv/'' @ key,
                 hr_params = [], hr_json = None\<rparr> key node_id expected_before))"

definition lf_end_read ::
    "pyfloat \<Rightarrow> stats \<Rightarrow> string \<Rightarrow> string \<Rightarrow> source_entry \<Rightarrow> pyfloat http_outcome \<Rightarrow> exn + stats" where
  "lf_end_read now s key node_id expected_before outcome =
     (case outcome of
        Httpx_failed exc detail \<Rightarrow>
          Inr (record_failure now s Read_op (classify_exception exc) key node_id None (Some detail))
      | Replied status body \<Rightarrow>
          if status \<noteq> 200 \<and> status \<noteq> 404
          then Inr (record_failure now s Read_op Non_2xx key node_id (Some status) None)
          else let s1 = s\<lparr>comparable_reads := comparable_reads s + 1\<rparr>
            in if status = 404
               then Inr (record_stale now s1 key node_id expected_before None ''follower_node_id'')
               else bind_exn body (\<lambda>actual_timestamp.
                 if flt actual_timestamp (src_timestamp expected_before)
                 then Inr (record_stale now s1 key node_id expected_before (Some actual_timestamp) ''follower_node_id'')
                 else Inr s1))"

text \<open>One pass of \<open>run_worker\<close>'s loop up to the HTTP call.\<close>

definition lf_begin_request ::
    "(pyval \<Rightarrow> string) \<Rightarrow> follower list \<Rightarrow> (follower \<times> string) list \<Rightarrow> string \<Rightarrow> load_shared \<Rightarrow> request_plan \<Rightarrow>
     stats \<Rightarrow> exn + stats \<times> pending option \<times> load_shared" where
  "lf_begin_request fmt followers follower_node_ids leader_node_id sh item s =
     (let s1 = s\<lparr>total_requests := total_requests s + 1\<rparr>
      in if rp_is_read item
         then let s2 = s1\<lparr>total_reads := total_reads s1 + 1\<rparr>
           in case rp_read_target_index item of
                None \<Rightarrow> Inl (OtherErr ''AssertionError'')
              | Some i \<Rightarrow> bind_exn (py_item followers i) (\<lambda>follower.
                  Inr (s2, lf_begin_read fmt (ls_sot sh) follower follower_node_ids (rp_key item), sh))
         else let s2 = s1\<lparr>total_writes := total_writes s1 + 1\<rparr>;
                  (p, sh') = lf_begin_write leader_node_id sh (rp_key item)
           in Inr (s2, Some p, sh'))"

definition lf_code ::
    "(pyval \<Rightarrow> string) \<Rightarrow> follower list \<Rightarrow> (follower \<times> string) list \<Rightarrow> string \<Rightarrow> worker_code" where
  "lf_code fmt followers follower_node_ids leader_node_id =
     \<lparr>wc_begin = lf_begin_request fmt followers follower_node_ids leader_node_id,
      wc_end_read = (\<lambda>now s key node_id expected outcome lag. lf_end_read now s key node_id expected outcome),
      wc_end_write = lf_end_write\<rparr>"

section \<open>The leaderless test\<close>

text \<open>\<open>NodeRotation\<close>: the next node in round robin, and the new index.\<close>

definition next_node :: "node list \<Rightarrow> nat \<Rightarrow> exn + node \<times> nat" where
  "next_node nodes index =
     (if nodes = [] then Inl ZeroDivisionErr else Inr (nodes ! (index mod length nodes), index + 1))"

definition ll_base_url :: "(pyval \<Rightarrow> string) \<Rightarrow> node \<Rightarrow> string" where
  "ll_base_url fmt n = ''http://'' @ fmt (node_host n) @ '':'' @ py_str_of_int (node_port n)"

fun ll_discover_node_ids ::
    "(pyval \<Rightarrow> string) \<Rightarrow> (string \<Rightarrow> string http_outcome) \<Rightarrow> node list \<Rightarrow> (node \<times> string) list \<Rightarrow>
     exn + (node \<times> string) list" where
  "ll_discover_node_ids fmt get [] node_ids = Inr node_ids"
| "ll_discover_node_ids fmt get (node # nodes) node_ids =
     bind_exn (checked_body (get (ll_base_url fmt node @ ''/health''))) (\<lambda>node_id.
       ll_discover_node_ids fmt get nodes (AList.update node node_id node_ids))"

definition ll_begin_write ::
    "(pyval \<Rightarrow> string) \<Rightarrow> node list \<Rightarrow> (node \<times> string) list \<Rightarrow> int option \<Rightarrow> load_shared \<Rightarrow> string \<Rightarrow>
     exn + pending \<times> load_shared" where
  "ll_begin_write fmt nodes node_ids w sh key =
     (let (v, counter) = next_value (ls_counter sh)
      in bind_exn (next_node nodes (ls_index sh)) (\<lambda>(coordinator, index).
           let base_url = ll_base_url fmt coordinator;
               node_id = (case map_of node_ids coordinator of Some n \<Rightarrow> n
                 | None \<Rightarrow> fmt (node_host coordinator) @ '':'' @ py_str_of_int (node_port coordinator));
               write_params = (case w of Some w \<Rightarrow> [(''w'', w)] | None \<Rightarrow> [])
           in Inr (Pending_write \<lparr>hr_method = ''PUT'', hr_url = base_url @ ''/kv/'' @ key,
                     hr_params = write_params, hr_json = Some v\<rparr> key node_id v,
                   sh\<lparr>ls_counter := counter, ls_index := index\<rparr>)))"

definition ll_end_write ::
    "pyfloat \<Rightarrow> stats \<Rightarrow> source_of_truth \<Rightarrow> string \<Rightarrow> string \<Rightarrow> int \<Rightarrow> write_body http_outcome \<Rightarrow>
     exn + stats \<times> source_of_truth" where
  "ll_end_write now s sot key node_id v outcome =
     (case outcome of
        Httpx_failed exc detail \<Rightarrow>
          Inr (record_failure now s Write_op (classify_exception exc) key node_id None (Some detail), sot)
      | Replied status body \<Rightarrow>
          if status \<noteq> 200
          then Inr (record_failure now s Write_op Non_2xx key node_id (Some status) None, sot)
          else bind_exn body (\<lambda>b.
            if \<not> wb_applied b then Inr (s, sot)
            else bind_exn (wb_timestamp b) (\<lambda>timestamp. Inr (s, sot_record sot key v timestamp))))"

definition ll_begin_read ::
    "(pyval \<Rightarrow> string) \<Rightarrow> source_of_truth \<Rightarrow> node \<Rightarrow> (node \<times> string) list \<Rightarrow> int option \<Rightarrow> string \<Rightarrow>
     pending option" where
  "ll_begin_read fmt sot coordinator node_ids r key =
     (case sot_snapshot sot key of
        None \<Rightarrow> None
      | Some expected_before \<Rightarrow>
          let node_id = (case map_of node_ids coordinator of Some n \<Rightarrow> n
                | None \<Rightarrow> fmt (node_host coordinator) @ '':'' @ py_str_of_int (node_port coordinator));
              read_params = (case r of Some r \<Rightarrow> [(''r'', r)] | None \<Rightarrow> [])
          in Some (Pending_read \<lparr>hr_method = ''GET'', hr_url = ll_base_url fmt coordinator @ ''/kv/'' @ key,
                 hr_params = read_params, hr_json = None\<rparr> key node_id expected_before))"

definition ll_end_read ::
    "pyfloat \<Rightarrow> stats \<Rightarrow> string \<Rightarrow> string \<Rightarrow> source_entry \<Rightarrow> pyfloat http_outcome \<Rightarrow> exn + stats" where
  "ll_end_read now s key node_id expected_before outcome =
     (case outcome of
        Httpx_failed exc detail \<Rightarrow>
          Inr (record_failure now s Read_op (classify_exception exc) key node_id None (Some detail))
      | Replied status body \<Rightarrow>
          if status \<noteq> 200 \<and> status \<noteq> 404
          then Inr (record_failure now s Read_op Non_2xx key node_id (Some status) None)
          else let s1 = s\<lparr>comparable_reads := comparable_reads s + 1\<rparr>
            in if status = 404
               then Inr (record_stale now s1 key node_id expected_before None ''coordinator_node_id'')
               else bind_exn body (\<lambda>actual_timestamp.
                 if flt actual_timestamp (src_timestamp expected_before)
                 then Inr (record_stale now s1 key node_id expected_before (Some actual_timestamp)
                        ''coordinator_node_id'')
                 else Inr s1))"

definition ll_begin_request ::
    "(pyval \<Rightarrow> string) \<Rightarrow> node list \<Rightarrow> (node \<times> string) list \<Rightarrow> int option \<Rightarrow> int option \<Rightarrow> load_shared \<Rightarrow>
     request_plan \<Rightarrow> stats \<Rightarrow> exn + stats \<times> pending option \<times> load_shared" where
  "ll_begin_request fmt nodes node_ids w r sh item s =
     (let s1 = s\<lparr>total_requests := total_requests s + 1\<rparr>
      in if rp_is_read item
         then let s2 = s1\<lparr>total_reads := total_reads s1 + 1\<rparr>
           in case rp_read_target_index item of
                None \<Rightarrow> Inl (OtherErr ''AssertionError'')
              | Some i \<Rightarrow> bind_exn (py_item nodes i) (\<lambda>coordinator.
                  Inr (s2, ll_begin_read fmt (ls_sot sh) coordinator node_ids r (rp_key item), sh))
         else let s2 = s1\<lparr>total_writes := total_writes s1 + 1\<rparr>
           in bind_exn (ll_begin_write fmt nodes node_ids w sh (rp_key item)) (\<lambda>(p, sh').
                Inr (s2, Some p, sh')))"

definition ll_code ::
    "(pyval \<Rightarrow> string) \<Rightarrow> node list \<Rightarrow> (node \<times> string) list \<Rightarrow> int option \<Rightarrow> int option \<Rightarrow> worker_code" where
  "ll_code fmt nodes node_ids w r =
     \<lparr>wc_begin = ll_begin_request fmt nodes node_ids w r,
      wc_end_read = (\<lambda>now s key node_id expected outcome lag. ll_end_read now s key node_id expected outcome),
      wc_end_write = ll_end_write\<rparr>"

section \<open>The message queue test\<close>

definition PRODUCER_HOST :: string where "PRODUCER_HOST = ''127.0.0.1''"
definition PRODUCER_PORT :: int where "PRODUCER_PORT = 8200"

definition PRODUCER_URL :: string where
  "PRODUCER_URL = ''http://'' @ PRODUCER_HOST @ '':'' @ py_str_of_int PRODUCER_PORT"

definition FOLLOWER_HOST :: string where "FOLLOWER_HOST = ''127.0.0.1''"
definition FOLLOWER_PORTS :: "int list" where "FOLLOWER_PORTS = [8201, 8202, 8203, 8204]"

definition mq_base_url :: "int \<Rightarrow> string" where
  "mq_base_url port = ''http://'' @ FOLLOWER_HOST @ '':'' @ py_str_of_int port"

fun discover_follower_node_ids ::
    "(string \<Rightarrow> string http_outcome) \<Rightarrow> int list \<Rightarrow> (int \<times> string) list \<Rightarrow> exn + (int \<times> string) list" where
  "discover_follower_node_ids get [] node_ids = Inr node_ids"
| "discover_follower_node_ids get (port # ports) node_ids =
     bind_exn (checked_body (get (mq_base_url port @ ''/health''))) (\<lambda>node_id.
       discover_follower_node_ids get ports (AList.update port node_id node_ids))"

definition discover_producer_node_id :: "(string \<Rightarrow> string http_outcome) \<Rightarrow> exn + string" where
  "discover_producer_node_id get = checked_body (get (PRODUCER_URL @ ''/health''))"

text \<open>The body's \<open>total_lag\<close> is read outside the \<open>try\<close>: where reading it raises, the worker raises.\<close>

definition query_lag :: "int http_outcome \<Rightarrow> exn + int option" where
  "query_lag outcome =
     (case outcome of
        Httpx_failed exc detail \<Rightarrow> Inr None
      | Replied status body \<Rightarrow>
          if \<not> is_success status then Inr None else bind_exn body (\<lambda>total_lag. Inr (Some total_lag)))"

definition mq_begin_write :: "string \<Rightarrow> load_shared \<Rightarrow> string \<Rightarrow> pending \<times> load_shared" where
  "mq_begin_write producer_node_id sh key =
     (let (v, counter) = next_value (ls_counter sh)
      in (Pending_write \<lparr>hr_method = ''PUT'', hr_url = PRODUCER_URL @ ''/kv/'' @ key, hr_params = [],
            hr_json = Some v\<rparr> key producer_node_id v,
          sh\<lparr>ls_counter := counter\<rparr>))"

definition mq_end_write ::
    "pyfloat \<Rightarrow> stats \<Rightarrow> source_of_truth \<Rightarrow> string \<Rightarrow> string \<Rightarrow> int \<Rightarrow> write_body http_outcome \<Rightarrow>
     exn + stats \<times> source_of_truth" where
  "mq_end_write now s sot key producer_node_id v outcome =
     (case outcome of
        Httpx_failed exc detail \<Rightarrow>
          Inr (record_failure now s Write_op (classify_exception exc) key producer_node_id None (Some detail), sot)
      | Replied status body \<Rightarrow>
          if status \<noteq> 200
          then Inr (record_failure now s Write_op Non_2xx key producer_node_id (Some status) None, sot)
          else bind_exn body (\<lambda>b.
            if \<not> wb_applied b then Inr (s, sot)
            else bind_exn (wb_timestamp b) (\<lambda>timestamp. Inr (s, sot_record sot key v timestamp))))"

definition mq_begin_read :: "source_of_truth \<Rightarrow> int \<Rightarrow> (int \<times> string) list \<Rightarrow> string \<Rightarrow> pending option" where
  "mq_begin_read sot port follower_node_ids key =
     (case sot_snapshot sot key of
        None \<Rightarrow> None
      | Some expected_before \<Rightarrow>
          let node_id = (case map_of follower_node_ids port of Some n \<Rightarrow> n
                | None \<Rightarrow> FOLLOWER_HOST @ '':'' @ py_str_of_int port)
          in Some (Pending_read \<lparr>hr_method = ''GET'', hr_url = mq_base_url port @ ''/kv/'' @ key,
                 hr_params = [], hr_json = None\<rparr> key node_id expected_before))"

text \<open>\<open>stats.stale_events[-1]["lag_at_stale_read"] = ...\<close>\<close>

definition set_last_lag :: "stats \<Rightarrow> int option \<Rightarrow> stats" where
  "set_last_lag s lag =
     s\<lparr>stale_events := butlast (stale_events s) @ [(last (stale_events s))\<lparr>se_lag := Some lag\<rparr>]\<rparr>"

definition mq_end_read ::
    "pyfloat \<Rightarrow> stats \<Rightarrow> string \<Rightarrow> string \<Rightarrow> source_entry \<Rightarrow> pyfloat http_outcome \<Rightarrow> int http_outcome \<Rightarrow>
     exn + stats" where
  "mq_end_read now s key node_id expected_before outcome lag =
     (case outcome of
        Httpx_failed exc detail \<Rightarrow>
          Inr (record_failure now s Read_op (classify_exception exc) key node_id None (Some detail))
      | Replied status body \<Rightarrow>
          if status \<noteq> 200 \<and> status \<noteq> 404
          then Inr (record_failure now s Read_op Non_2xx key node_id (Some status) None)
          else let s1 = s\<lparr>comparable_reads := comparable_reads s + 1\<rparr>
            in if status = 404
               then bind_exn (query_lag lag) (\<lambda>sample.
                 Inr (set_last_lag (record_stale now s1 key node_id expected_before None ''follower_node_id'') sample))
               else bind_exn body (\<lambda>actual_timestamp.
                 if flt actual_timestamp (src_timestamp expected_before)
                 then bind_exn (query_lag lag) (\<lambda>sample.
                   Inr (set_last_lag
                     (record_stale now s1 key node_id expected_before (Some actual_timestamp) ''follower_node_id'')
                     sample))
                 else Inr s1))"

definition mq_begin_request ::
    "int list \<Rightarrow> (int \<times> string) list \<Rightarrow> string \<Rightarrow> load_shared \<Rightarrow> request_plan \<Rightarrow> stats \<Rightarrow>
     exn + stats \<times> pending option \<times> load_shared" where
  "mq_begin_request follower_ports follower_node_ids producer_node_id sh item s =
     (let s1 = s\<lparr>total_requests := total_requests s + 1\<rparr>
      in if rp_is_read item
         then let s2 = s1\<lparr>total_reads := total_reads s1 + 1\<rparr>
           in case rp_read_target_index item of
                None \<Rightarrow> Inl (OtherErr ''AssertionError'')
              | Some i \<Rightarrow> bind_exn (py_item follower_ports i) (\<lambda>port.
                  Inr (s2, mq_begin_read (ls_sot sh) port follower_node_ids (rp_key item), sh))
         else let s2 = s1\<lparr>total_writes := total_writes s1 + 1\<rparr>;
                  (p, sh') = mq_begin_write producer_node_id sh (rp_key item)
           in Inr (s2, Some p, sh'))"

definition mq_code :: "int list \<Rightarrow> (int \<times> string) list \<Rightarrow> string \<Rightarrow> worker_code" where
  "mq_code follower_ports follower_node_ids producer_node_id =
     \<lparr>wc_begin = mq_begin_request follower_ports follower_node_ids producer_node_id,
      wc_end_read = mq_end_read, wc_end_write = mq_end_write\<rparr>"

section \<open>A run: workers interleaved\<close>

definition shared_init :: load_shared where
  "shared_init = \<lparr>ls_counter = 0, ls_sot = [], ls_index = 0\<rparr>"

definition start_worker :: "request_plan list \<Rightarrow> worker" where
  "start_worker chunk = \<lparr>wk_todo = chunk, wk_pending = None, wk_stats = stats_init\<rparr>"

definition load_start :: "request_plan list list \<Rightarrow> load_state" where
  "load_start chunks = \<lparr>st_shared = shared_init, st_workers = map start_worker chunks, st_raised = None\<rparr>"

text \<open>
  One step. A step that is not possible (no such worker, a worker that is not at that point) changes
  nothing; after an exception \<open>gather\<close> has raised and the run is over.
\<close>

fun load_step :: "worker_code \<Rightarrow> load_state \<Rightarrow> load_event \<Rightarrow> load_state" where
  "load_step code st (Begin i) =
     (if st_raised st \<noteq> None \<or> length (st_workers st) \<le> i then st
      else let wk = st_workers st ! i
        in case (wk_pending wk, wk_todo wk) of
             (None, item # todo) \<Rightarrow>
               (case wc_begin code (st_shared st) item (wk_stats wk) of
                  Inl e \<Rightarrow> st\<lparr>st_raised := Some e\<rparr>
                | Inr (s, p, sh) \<Rightarrow>
                    st\<lparr>st_shared := sh,
                       st_workers := (st_workers st)[i := \<lparr>wk_todo = todo, wk_pending = p, wk_stats = s\<rparr>]\<rparr>)
           | _ \<Rightarrow> st)"
| "load_step code st (End_read i now outcome lag) =
     (if st_raised st \<noteq> None \<or> length (st_workers st) \<le> i then st
      else let wk = st_workers st ! i
        in case wk_pending wk of
             Some (Pending_read rq key node_id expected) \<Rightarrow>
               (case wc_end_read code now (wk_stats wk) key node_id expected outcome lag of
                  Inl e \<Rightarrow> st\<lparr>st_raised := Some e\<rparr>
                | Inr s \<Rightarrow> st\<lparr>st_workers := (st_workers st)[i := wk\<lparr>wk_pending := None, wk_stats := s\<rparr>]\<rparr>)
           | _ \<Rightarrow> st)"
| "load_step code st (End_write i now outcome) =
     (if st_raised st \<noteq> None \<or> length (st_workers st) \<le> i then st
      else let wk = st_workers st ! i
        in case wk_pending wk of
             Some (Pending_write rq key node_id v) \<Rightarrow>
               (case wc_end_write code now (wk_stats wk) (ls_sot (st_shared st)) key node_id v outcome of
                  Inl e \<Rightarrow> st\<lparr>st_raised := Some e\<rparr>
                | Inr (s, sot) \<Rightarrow>
                    st\<lparr>st_shared := (st_shared st)\<lparr>ls_sot := sot\<rparr>,
                       st_workers := (st_workers st)[i := wk\<lparr>wk_pending := None, wk_stats := s\<rparr>]\<rparr>)
           | _ \<Rightarrow> st)"

definition load_run :: "worker_code \<Rightarrow> load_state \<Rightarrow> load_event list \<Rightarrow> load_state" where
  "load_run code st evs = foldl (load_step code) st evs"

lemma load_run_simps [simp]:
  "load_run code st [] = st"
  "load_run code st (ev # evs) = load_run code (load_step code st ev) evs"
  by (simp_all add: load_run_def)

lemma load_run_append: "load_run code st (xs @ ys) = load_run code (load_run code st xs) ys"
  by (simp add: load_run_def)

definition worker_done :: "worker \<Rightarrow> bool" where
  "worker_done wk \<longleftrightarrow> wk_pending wk = None \<and> wk_todo wk = []"

text \<open>What \<open>gather\<close> yields: the first exception, or the statistics of all workers; \<open>None\<close> before either.\<close>

definition load_gather :: "load_state \<Rightarrow> (exn + stats list) option" where
  "load_gather st =
     (case st_raised st of
        Some e \<Rightarrow> Some (Inl e)
      | None \<Rightarrow> if list_all worker_done (st_workers st) then Some (Inr (map wk_stats (st_workers st))) else None)"

definition merge_all :: "stats list \<Rightarrow> stats" where
  "merge_all results = foldl stats_merge stats_init results"

record load_test_result =
  ltr_stats :: stats
  ltr_elapsed :: pyfloat

text \<open>The end of \<open>run_load_test\<close>, after \<open>gather\<close>.\<close>

definition load_finish :: "pyfloat \<Rightarrow> load_state \<Rightarrow> (exn + load_test_result) option" where
  "load_finish elapsed st =
     (case load_gather st of
        None \<Rightarrow> None
      | Some (Inl e) \<Rightarrow> Some (Inl e)
      | Some (Inr results) \<Rightarrow> Some (Inr \<lparr>ltr_stats = merge_all results, ltr_elapsed = elapsed\<rparr>))"

text \<open>
  \<open>run_load_test\<close> of each test, given the events of its run; \<open>None\<close> when the workers have not
  finished by their end. The configuration is what \<open>ClusterConfig.from_yaml\<close> returned or raised.
\<close>

definition lf_run_load_test ::
    "(pyval \<Rightarrow> string) \<Rightarrow> prng \<Rightarrow> exn + leader_config \<Rightarrow> (string \<Rightarrow> string http_outcome) \<Rightarrow> int \<Rightarrow>
     pyfloat \<Rightarrow> pyfloat \<Rightarrow> load_event list \<Rightarrow> (exn + load_test_result) option" where
  "lf_run_load_test fmt g loaded get seed start now evs =
     (case bind_exn loaded (\<lambda>config.
        let followers = lc_followers config
        in if followers = [] then Inl (SystemExitErr ''no followers configured'')
           else bind_exn (generate_request_plan g TOTAL_REQUESTS KEYS (int (length followers)) READ_FRACTION seed)
             (\<lambda>plan. bind_exn (split_plan plan NUM_WORKERS) (\<lambda>plan_chunks.
               bind_exn (lf_discover_node_ids fmt get followers []) (\<lambda>follower_node_ids.
               bind_exn (lf_discover_leader_node_id get) (\<lambda>leader_node_id.
                 Inr (plan_chunks, lf_code fmt followers follower_node_ids leader_node_id)))))) of
        Inl e \<Rightarrow> Some (Inl e)
      | Inr (plan_chunks, code) \<Rightarrow>
          load_finish (fsub now start) (load_run code (load_start plan_chunks) evs))"

definition ll_run_load_test ::
    "(pyval \<Rightarrow> string) \<Rightarrow> prng \<Rightarrow> exn + cluster_config \<Rightarrow> (string \<Rightarrow> string http_outcome) \<Rightarrow> int option \<Rightarrow>
     int option \<Rightarrow> int \<Rightarrow> pyfloat \<Rightarrow> pyfloat \<Rightarrow> load_event list \<Rightarrow> (exn + load_test_result) option" where
  "ll_run_load_test fmt g loaded get w r seed start now evs =
     (case bind_exn loaded (\<lambda>config.
        let nodes = cc_nodes config
        in if nodes = [] then Inl (SystemExitErr ''no nodes configured'')
           else bind_exn (generate_request_plan g TOTAL_REQUESTS KEYS (int (length nodes)) READ_FRACTION seed)
             (\<lambda>plan. bind_exn (split_plan plan NUM_WORKERS) (\<lambda>plan_chunks.
               bind_exn (ll_discover_node_ids fmt get nodes []) (\<lambda>node_ids.
                 Inr (plan_chunks, ll_code fmt nodes node_ids w r))))) of
        Inl e \<Rightarrow> Some (Inl e)
      | Inr (plan_chunks, code) \<Rightarrow>
          load_finish (fsub now start) (load_run code (load_start plan_chunks) evs))"

definition mq_run_load_test ::
    "prng \<Rightarrow> (string \<Rightarrow> string http_outcome) \<Rightarrow> int \<Rightarrow> int \<Rightarrow> int \<Rightarrow> pyfloat \<Rightarrow> pyfloat \<Rightarrow>
     load_event list \<Rightarrow> (exn + load_test_result) option" where
  "mq_run_load_test g get num_workers num_requests seed start now evs =
     (case
        bind_exn (generate_request_plan g num_requests KEYS (int (length FOLLOWER_PORTS)) READ_FRACTION seed)
          (\<lambda>plan. bind_exn (split_plan plan num_workers) (\<lambda>plan_chunks.
            bind_exn (discover_follower_node_ids get FOLLOWER_PORTS []) (\<lambda>follower_node_ids.
            bind_exn (discover_producer_node_id get) (\<lambda>producer_node_id.
              Inr (plan_chunks, mq_code FOLLOWER_PORTS follower_node_ids producer_node_id))))) of
        Inl e \<Rightarrow> Some (Inl e)
      | Inr (plan_chunks, code) \<Rightarrow>
          load_finish (fsub now start) (load_run code (load_start plan_chunks) evs))"

section \<open>The interface: what a run relies on of the workers' code\<close>

text \<open>The timestamp a write's reply confirms.\<close>

definition confirmed_ts :: "write_body http_outcome \<Rightarrow> pyfloat option" where
  "confirmed_ts outcome =
     (case outcome of
        Replied status (Inr b) \<Rightarrow>
          if status = 200 \<and> wb_applied b
          then (case wb_timestamp b of Inr ts \<Rightarrow> Some ts | Inl e \<Rightarrow> None) else None
      | _ \<Rightarrow> None)"

text \<open>Beginning a request: it is counted, and a call is in flight unless nothing is known of a read's key.\<close>

definition begins ::
    "load_shared \<Rightarrow> request_plan \<Rightarrow> stats \<Rightarrow> stats \<Rightarrow> pending option \<Rightarrow> load_shared \<Rightarrow> bool" where
  "begins sh item s s' p sh' \<longleftrightarrow>
     s' = (if rp_is_read item
           then s\<lparr>total_requests := total_requests s + 1, total_reads := total_reads s + 1\<rparr>
           else s\<lparr>total_requests := total_requests s + 1, total_writes := total_writes s + 1\<rparr>) \<and>
     ls_sot sh' = ls_sot sh \<and>
     (case p of
        None \<Rightarrow> rp_is_read item \<and> ls_counter sh' = ls_counter sh
      | Some (Pending_read rq key node_id expected) \<Rightarrow>
          rp_is_read item \<and> sot_snapshot (ls_sot sh) key = Some expected \<and> ls_counter sh' = ls_counter sh
      | Some (Pending_write rq key node_id v) \<Rightarrow>
          \<not> rp_is_read item \<and> v = ls_counter sh \<and> ls_counter sh' = v + 1)"

text \<open>A stale event is a reply older than what was confirmed before the read, or a missing key.\<close>

definition older_than_expected :: "stale_event \<Rightarrow> bool" where
  "older_than_expected ev \<longleftrightarrow> (case se_actual ev of None \<Rightarrow> True | Some actual \<Rightarrow> flt actual (se_expected ev))"

definition settles_read :: "string \<Rightarrow> source_entry \<Rightarrow> stats \<Rightarrow> stats \<Rightarrow> bool" where
  "settles_read key expected s s' \<longleftrightarrow>
     (\<forall>r w. stats_account r w 1 0 s \<longrightarrow> stats_account r w 0 0 s') \<and>
     (stale_events s' = stale_events s \<or>
      (\<exists>ev. stale_events s' = stale_events s @ [ev] \<and> se_key ev = key \<and>
            se_expected ev = src_timestamp expected \<and> older_than_expected ev))"

definition settles_write ::
    "string \<Rightarrow> int \<Rightarrow> write_body http_outcome \<Rightarrow> stats \<Rightarrow> source_of_truth \<Rightarrow> stats \<Rightarrow> source_of_truth \<Rightarrow> bool" where
  "settles_write key v outcome s sot s' sot' \<longleftrightarrow>
     (\<forall>r w. stats_account r w 0 1 s \<longrightarrow> stats_account r w 0 0 s') \<and> stale_events s' = stale_events s \<and>
     sot' = (case confirmed_ts outcome of Some ts \<Rightarrow> sot_record sot key v ts | None \<Rightarrow> sot)"

text \<open>What a run shows of itself: the values written and the writes confirmed, in order.\<close>

definition step_writes :: "worker_code \<Rightarrow> load_state \<Rightarrow> load_event \<Rightarrow> int list" where
  "step_writes code st ev =
     (case ev of
        Begin i \<Rightarrow>
          if st_raised st \<noteq> None \<or> length (st_workers st) \<le> i \<or> wk_pending (st_workers st ! i) \<noteq> None then []
          else (case wk_pending (st_workers (load_step code st ev) ! i) of
                  Some (Pending_write rq key node_id v) \<Rightarrow> [v] | _ \<Rightarrow> [])
      | _ \<Rightarrow> [])"

fun written_values :: "worker_code \<Rightarrow> load_state \<Rightarrow> load_event list \<Rightarrow> int list" where
  "written_values code st [] = []"
| "written_values code st (ev # evs) = step_writes code st ev @ written_values code (load_step code st ev) evs"

definition step_confirms :: "load_state \<Rightarrow> load_event \<Rightarrow> (string \<times> int \<times> pyfloat) list" where
  "step_confirms st ev =
     (case ev of
        End_write i now outcome \<Rightarrow>
          if st_raised st \<noteq> None \<or> length (st_workers st) \<le> i then []
          else (case wk_pending (st_workers st ! i) of
                  Some (Pending_write rq key node_id v) \<Rightarrow>
                    (case confirmed_ts outcome of Some ts \<Rightarrow> [(key, v, ts)] | None \<Rightarrow> [])
                | _ \<Rightarrow> [])
      | _ \<Rightarrow> [])"

fun confirmed_writes :: "worker_code \<Rightarrow> load_state \<Rightarrow> load_event list \<Rightarrow> (string \<times> int \<times> pyfloat) list" where
  "confirmed_writes code st [] = []"
| "confirmed_writes code st (ev # evs) = step_confirms st ev @ confirmed_writes code (load_step code st ev) evs"

text \<open>Invariants of a worker: what it has counted, and where its expectations come from.\<close>

definition reads_in :: "request_plan list \<Rightarrow> int" where
  "reads_in plan = int (length (filter rp_is_read plan))"

definition writes_in :: "request_plan list \<Rightarrow> int" where
  "writes_in plan = int (length (filter (\<lambda>item. \<not> rp_is_read item) plan))"

lemma reads_writes_in [simp]:
  "reads_in [] = 0" "writes_in [] = 0"
  "reads_in (xs @ ys) = reads_in xs + reads_in ys" "writes_in (xs @ ys) = writes_in xs + writes_in ys"
  "reads_in [item] = (if rp_is_read item then 1 else 0)" "writes_in [item] = (if rp_is_read item then 0 else 1)"
  by (simp_all add: reads_in_def writes_in_def)

lemma reads_writes_total: "reads_in plan + writes_in plan = int (length plan)"
  using sum_length_filter_compl [of rp_is_read plan] unfolding reads_in_def writes_in_def
  by (metis of_nat_add)

fun reads_out :: "pending option \<Rightarrow> int" where
  "reads_out (Some (Pending_read rq key node_id expected)) = 1"
| "reads_out _ = 0"

fun writes_out :: "pending option \<Rightarrow> int" where
  "writes_out (Some (Pending_write rq key node_id v)) = 1"
| "writes_out _ = 0"

definition worker_accounts :: "request_plan list \<Rightarrow> worker \<Rightarrow> bool" where
  "worker_accounts chunk wk \<longleftrightarrow>
     (\<exists>started. chunk = started @ wk_todo wk \<and>
        stats_account (reads_in started) (writes_in started) (reads_out (wk_pending wk)) (writes_out (wk_pending wk))
          (wk_stats wk))"

definition sot_from :: "(string \<times> int \<times> pyfloat) set \<Rightarrow> source_of_truth \<Rightarrow> bool" where
  "sot_from C sot \<longleftrightarrow> (\<forall>k c. sot_snapshot sot k = Some c \<longrightarrow> (k, src_value c, src_timestamp c) \<in> C)"

definition worker_backed :: "(string \<times> int \<times> pyfloat) set \<Rightarrow> worker \<Rightarrow> bool" where
  "worker_backed C wk \<longleftrightarrow>
     (\<forall>rq key node_id c. wk_pending wk = Some (Pending_read rq key node_id c) \<longrightarrow>
        (key, src_value c, src_timestamp c) \<in> C) \<and>
     (\<forall>ev \<in> set (stale_events (wk_stats wk)).
        older_than_expected ev \<and> (\<exists>v. (se_key ev, v, se_expected ev) \<in> C))"

lemma sot_from_mono: "sot_from C sot \<Longrightarrow> C \<subseteq> D \<Longrightarrow> sot_from D sot"
  by (auto simp: sot_from_def)

lemma worker_backed_mono: "worker_backed C wk \<Longrightarrow> C \<subseteq> D \<Longrightarrow> worker_backed D wk"
  unfolding worker_backed_def by (meson subsetD)

lemma sot_from_record:
  "sot_from C sot \<Longrightarrow> sot_from (insert (key, v, ts) C) (sot_record sot key v ts)"
  by (auto simp: sot_from_def sot_record_snapshot split: if_splits option.splits)

lemma all_updated:
  "\<forall>x \<in> set xs. P x \<Longrightarrow> P y \<Longrightarrow> \<forall>x \<in> set (xs[i := y]). P x"
  using set_update_subset_insert [of xs i y] by auto

fun event_worker :: "load_event \<Rightarrow> nat" where
  "event_worker (Begin i) = i"
| "event_worker (End_read i now outcome lag) = i"
| "event_worker (End_write i now outcome) = i"

text \<open>A step changes nothing, raises, or is one of the three kinds of step of a worker.\<close>

lemma begin_step_cases:
  assumes "st_raised st = None" "i < length (st_workers st)" and s': "s' = load_step code st (Begin i)"
  shows "s' = st \<or> (\<exists>e. s' = st\<lparr>st_raised := Some e\<rparr>) \<or>
    (\<exists>item todo s p sh. wk_pending (st_workers st ! i) = None \<and> wk_todo (st_workers st ! i) = item # todo \<and>
       wc_begin code (st_shared st) item (wk_stats (st_workers st ! i)) = Inr (s, p, sh) \<and>
       s' = st\<lparr>st_shared := sh,
         st_workers := (st_workers st)[i := \<lparr>wk_todo = todo, wk_pending = p, wk_stats = s\<rparr>]\<rparr>)"
  using assms(1,2) unfolding s'
  by (auto simp: Let_def split: option.split list.split sum.split prod.split)

lemma end_read_step_cases:
  assumes "st_raised st = None" "i < length (st_workers st)" and s': "s' = load_step code st (End_read i now outcome lag)"
  shows "s' = st \<or> (\<exists>e. s' = st\<lparr>st_raised := Some e\<rparr>) \<or>
    (\<exists>rq key node_id expected s. wk_pending (st_workers st ! i) = Some (Pending_read rq key node_id expected) \<and>
       wc_end_read code now (wk_stats (st_workers st ! i)) key node_id expected outcome lag = Inr s \<and>
       s' = st\<lparr>st_workers := (st_workers st)[i := (st_workers st ! i)\<lparr>wk_pending := None, wk_stats := s\<rparr>]\<rparr>)"
  using assms(1,2) unfolding s'
  by (auto simp: Let_def split: option.split pending.split sum.split)

lemma end_write_step_cases:
  assumes "st_raised st = None" "i < length (st_workers st)" and s': "s' = load_step code st (End_write i now outcome)"
  shows "s' = st \<or> (\<exists>e. s' = st\<lparr>st_raised := Some e\<rparr>) \<or>
    (\<exists>rq key node_id v s sot. wk_pending (st_workers st ! i) = Some (Pending_write rq key node_id v) \<and>
       wc_end_write code now (wk_stats (st_workers st ! i)) (ls_sot (st_shared st)) key node_id v outcome = Inr (s, sot) \<and>
       s' = st\<lparr>st_shared := (st_shared st)\<lparr>ls_sot := sot\<rparr>,
         st_workers := (st_workers st)[i := (st_workers st ! i)\<lparr>wk_pending := None, wk_stats := s\<rparr>]\<rparr>)"
  using assms(1,2) unfolding s'
  by (auto simp: Let_def split: option.split pending.split sum.split prod.split)

lemma load_step_cases [case_names idle raise began read wrote]:
  obtains "load_step code st ev = st"
  | e where "load_step code st ev = st\<lparr>st_raised := Some e\<rparr>"
  | i item todo s p sh where "ev = Begin i" "st_raised st = None" "i < length (st_workers st)"
      "wk_pending (st_workers st ! i) = None" "wk_todo (st_workers st ! i) = item # todo"
      "wc_begin code (st_shared st) item (wk_stats (st_workers st ! i)) = Inr (s, p, sh)"
      "load_step code st ev = st\<lparr>st_shared := sh,
         st_workers := (st_workers st)[i := \<lparr>wk_todo = todo, wk_pending = p, wk_stats = s\<rparr>]\<rparr>"
  | i now outcome lag rq key node_id expected s where "ev = End_read i now outcome lag"
      "st_raised st = None" "i < length (st_workers st)"
      "wk_pending (st_workers st ! i) = Some (Pending_read rq key node_id expected)"
      "wc_end_read code now (wk_stats (st_workers st ! i)) key node_id expected outcome lag = Inr s"
      "load_step code st ev =
         st\<lparr>st_workers := (st_workers st)[i := (st_workers st ! i)\<lparr>wk_pending := None, wk_stats := s\<rparr>]\<rparr>"
  | i now outcome rq key node_id v s sot where "ev = End_write i now outcome"
      "st_raised st = None" "i < length (st_workers st)"
      "wk_pending (st_workers st ! i) = Some (Pending_write rq key node_id v)"
      "wc_end_write code now (wk_stats (st_workers st ! i)) (ls_sot (st_shared st)) key node_id v outcome =
         Inr (s, sot)"
      "load_step code st ev = st\<lparr>st_shared := (st_shared st)\<lparr>ls_sot := sot\<rparr>,
         st_workers := (st_workers st)[i := (st_workers st ! i)\<lparr>wk_pending := None, wk_stats := s\<rparr>]\<rparr>"
proof (cases "st_raised st = None \<and> event_worker ev < length (st_workers st)")
  case False
  then have "load_step code st ev = st" by (cases ev) auto
  then show ?thesis by (rule that(1))
next
  case True
  show ?thesis
  proof (cases ev)
    case (Begin i)
    then show ?thesis using begin_step_cases [OF _ _ refl, of st i code] that(1-3) True by auto
  next
    case (End_read i now outcome lag)
    then show ?thesis using end_read_step_cases [OF _ _ refl, of st i code now outcome lag] that(1,2,4) True by auto
  next
    case (End_write i now outcome)
    then show ?thesis using end_write_step_cases [OF _ _ refl, of st i code now outcome] that(1,2,5) True by auto
  qed
qed

definition state_backed :: "(string \<times> int \<times> pyfloat) set \<Rightarrow> load_state \<Rightarrow> bool" where
  "state_backed C st \<longleftrightarrow> sot_from C (ls_sot (st_shared st)) \<and> (\<forall>wk \<in> set (st_workers st). worker_backed C wk)"

lemma state_backed_mono: "state_backed C st \<Longrightarrow> C \<subseteq> D \<Longrightarrow> state_backed D st"
  unfolding state_backed_def by (meson sot_from_mono worker_backed_mono)

lemma state_backed_update:
  assumes "state_backed C st" "worker_backed C wk"
  shows "sot_from C (ls_sot sh) \<Longrightarrow> state_backed C (st\<lparr>st_shared := sh, st_workers := (st_workers st)[i := wk]\<rparr>)"
    and "state_backed C (st\<lparr>st_workers := (st_workers st)[i := wk]\<rparr>)"
  using assms all_updated [of "st_workers st" "worker_backed C" wk i] by (simp_all add: state_backed_def)

locale load_worker =
  fixes code :: worker_code
  assumes begin_law: "wc_begin code sh item s = Inr (s', p, sh') \<Longrightarrow> begins sh item s s' p sh'"
    and end_read_law:
      "wc_end_read code now s key node_id expected outcome lag = Inr s' \<Longrightarrow> settles_read key expected s s'"
    and end_write_law:
      "wc_end_write code now s sot key node_id v reply = Inr (s', sot') \<Longrightarrow>
         settles_write key v reply s sot s' sot'"
begin

lemma begin_accounts:
  assumes "worker_accounts chunk wk" "wk_pending wk = None" "wk_todo wk = item # todo"
    "begins sh item (wk_stats wk) s p sh'"
  shows "worker_accounts chunk \<lparr>wk_todo = todo, wk_pending = p, wk_stats = s\<rparr>"
proof -
  obtain started where st: "chunk = started @ item # todo"
    "stats_account (reads_in started) (writes_in started) 0 0 (wk_stats wk)"
    using assms(1-3) by (auto simp: worker_accounts_def)
  have "comparable_reads (wk_stats wk) + failed_reads (wk_stats wk) \<le> reads_in started"
    using st(2) by (simp add: stats_account_def)
  then have "stats_account (reads_in (started @ [item])) (writes_in (started @ [item])) (reads_out p) (writes_out p) s"
    using assms(4) stats_account_started [OF st(2)]
    by (auto simp: begins_def split: option.splits pending.splits if_splits)
  then show ?thesis using st(1) by (auto simp: worker_accounts_def intro!: exI [of _ "started @ [item]"])
qed

lemma step_accounts:
  assumes "list_all2 worker_accounts chunks (st_workers st)"
  shows "list_all2 worker_accounts chunks (st_workers (load_step code st ev))"
proof -
  have nth: "worker_accounts (chunks ! i) (st_workers st ! i)" if "i < length (st_workers st)" for i
    using assms that by (simp add: list_all2_conv_all_nth)
  have upd: "list_all2 worker_accounts chunks ((st_workers st)[i := wk])"
    if "i < length (st_workers st) \<Longrightarrow> worker_accounts (chunks ! i) wk" for i wk
  proof (cases "i < length (st_workers st)")
    case True
    then show ?thesis using assms that by (auto simp: list_all2_conv_all_nth nth_list_update)
  next
    case False
    then show ?thesis using assms by (simp add: list_update_beyond)
  qed
  show ?thesis
  proof (cases rule: load_step_cases [of code st ev])
    case (began i item todo s p sh)
    show ?thesis
      using upd [OF begin_accounts [OF nth [OF began(3)] began(4,5) begin_law [OF began(6)]]] began(7) by simp
  next
    case (read i now outcome lag rq key node_id expected s)
    then have "settles_read key expected (wk_stats (st_workers st ! i)) s" using end_read_law by blast
    then have "worker_accounts (chunks ! i) ((st_workers st ! i)\<lparr>wk_pending := None, wk_stats := s\<rparr>)"
      using nth [of i] read(3,4) by (auto simp: worker_accounts_def settles_read_def)
    then show ?thesis using read(6) by (auto intro!: upd)
  next
    case (wrote i now outcome rq key node_id v s sot)
    then have "settles_write key v outcome (wk_stats (st_workers st ! i)) (ls_sot (st_shared st)) s sot"
      using end_write_law by blast
    then have "worker_accounts (chunks ! i) ((st_workers st ! i)\<lparr>wk_pending := None, wk_stats := s\<rparr>)"
      using nth [of i] wrote(3,4) by (auto simp: worker_accounts_def settles_write_def)
    then show ?thesis using wrote(6) by (auto intro!: upd)
  qed (use assms in simp_all)
qed

lemma run_accounts:
  assumes "list_all2 worker_accounts chunks (st_workers st)"
  shows "list_all2 worker_accounts chunks (st_workers (load_run code st evs))"
  using assms by (induction evs arbitrary: st) (simp_all add: step_accounts)

lemma start_accounts: "list_all2 worker_accounts chunks (st_workers (load_start chunks))"
  by (induction chunks) (simp_all add: load_start_def worker_accounts_def start_worker_def)

lemma merge_accounts:
  assumes "list_all2 worker_accounts chunks wks" "list_all worker_done wks" "stats_account r w 0 0 s"
  shows "stats_account (r + reads_in (concat chunks)) (w + writes_in (concat chunks)) 0 0
           (foldl stats_merge s (map wk_stats wks))"
  using assms
proof (induction chunks wks arbitrary: r w s rule: list_all2_induct)
  case Nil
  then show ?case by simp
next
  case (Cons chunk chunks wk wks)
  have "stats_account (reads_in chunk) (writes_in chunk) 0 0 (wk_stats wk)"
    using Cons.hyps(1) Cons.prems(1) by (auto simp: worker_accounts_def worker_done_def)
  from Cons.IH [OF _ stats_account_merge [OF Cons.prems(2) this]] Cons.prems(1)
  show ?case by (simp add: add.assoc)
qed

text \<open>Every request of the plan is accounted for, whatever the interleaving.\<close>

lemma finished_accounts:
  assumes "load_finish elapsed (load_run code (load_start chunks) evs) = Some (Inr result)"
  shows "stats_account (reads_in (concat chunks)) (writes_in (concat chunks)) 0 0 (ltr_stats result)"
proof -
  let ?st = "load_run code (load_start chunks) evs"
  have "list_all worker_done (st_workers ?st)" "ltr_stats result = merge_all (map wk_stats (st_workers ?st))"
    using assms by (auto simp: load_finish_def load_gather_def split: option.splits if_splits)
  then show ?thesis
    using merge_accounts [OF run_accounts [OF start_accounts, of chunks evs], of 0 0 stats_init]
    by (simp add: merge_all_def)
qed

text \<open>The values written are consecutive: none is used twice.\<close>

lemma step_counter:
  "(step_writes code st ev = [] \<and>
      ls_counter (st_shared (load_step code st ev)) = ls_counter (st_shared st)) \<or>
   (step_writes code st ev = [ls_counter (st_shared st)] \<and>
      ls_counter (st_shared (load_step code st ev)) = ls_counter (st_shared st) + 1)"
proof (cases rule: load_step_cases [of code st ev])
  case idle
  then show ?thesis by (auto simp: step_writes_def split: load_event.split)
next
  case (raise e)
  then show ?thesis by (auto simp: step_writes_def split: load_event.split)
next
  case (began i item todo s p sh)
  have "begins (st_shared st) item (wk_stats (st_workers st ! i)) s p sh" using began(6) by (rule begin_law)
  then show ?thesis
    unfolding step_writes_def began(7) using began(1-5)
    by (auto simp: begins_def split: option.splits pending.splits)
next
  case (read i now outcome lag rq key node_id expected s)
  then show ?thesis by (simp add: step_writes_def)
next
  case (wrote i now outcome rq key node_id v s sot)
  then show ?thesis by (simp add: step_writes_def)
qed

lemma run_counter:
  "written_values code st evs =
     [ls_counter (st_shared st)..ls_counter (st_shared (load_run code st evs)) - 1] \<and>
   ls_counter (st_shared st) \<le> ls_counter (st_shared (load_run code st evs))"
proof (induction evs arbitrary: st)
  case Nil
  then show ?case by simp
next
  case (Cons ev evs)
  let ?st = "load_step code st ev"
  show ?case
    using step_counter [of st ev] Cons.IH [of ?st]
      upto_rec1 [of "ls_counter (st_shared st)" "ls_counter (st_shared (load_run code ?st evs)) - 1"]
    by auto
qed

lemma values_distinct: "distinct (written_values code st evs)"
  using run_counter by simp

text \<open>Every expectation and every stale event goes back to a confirmed write.\<close>

lemma begin_backed:
  assumes "state_backed C st" "wk \<in> set (st_workers st)" "begins (st_shared st) item (wk_stats wk) s p sh"
  shows "worker_backed C \<lparr>wk_todo = todo, wk_pending = p, wk_stats = s\<rparr>" "sot_from C (ls_sot sh)"
  using assms by (auto simp: state_backed_def worker_backed_def begins_def sot_from_def split: option.splits if_splits)

lemma read_backed:
  assumes "worker_backed C wk" "wk_pending wk = Some (Pending_read rq key node_id expected)"
    "settles_read key expected (wk_stats wk) s"
  shows "worker_backed C (wk\<lparr>wk_pending := None, wk_stats := s\<rparr>)"
proof -
  have mem: "(key, src_value expected, src_timestamp expected) \<in> C"
    using assms(1,2) by (simp add: worker_backed_def)
  define P where "P ev \<longleftrightarrow> older_than_expected ev \<and> (\<exists>v. (se_key ev, v, se_expected ev) \<in> C)" for ev
  have old: "\<forall>ev \<in> set (stale_events (wk_stats wk)). P ev"
    using assms(1) by (simp add: worker_backed_def P_def)
  have new: "P ev" if "se_key ev = key" "se_expected ev = src_timestamp expected" "older_than_expected ev" for ev
    unfolding P_def that(1,2) using mem that(3) by blast
  have "\<forall>ev \<in> set (stale_events s). P ev"
    using assms(3) old new by (auto simp: settles_read_def)
  then show ?thesis by (simp add: worker_backed_def P_def)
qed

lemma write_backed:
  assumes "state_backed C st" "wk \<in> set (st_workers st)"
    "settles_write key v outcome (wk_stats wk) (ls_sot (st_shared st)) s sot"
    "D = C \<union> (case confirmed_ts outcome of Some ts \<Rightarrow> {(key, v, ts)} | None \<Rightarrow> {})"
  shows "worker_backed D (wk\<lparr>wk_pending := None, wk_stats := s\<rparr>)" "sot_from D sot"
proof -
  have "worker_backed D wk"
    using assms(1,2,4) unfolding state_backed_def by (meson Un_upper1 worker_backed_mono)
  then show "worker_backed D (wk\<lparr>wk_pending := None, wk_stats := s\<rparr>)"
    using assms(3) by (auto simp: worker_backed_def settles_write_def)
  show "sot_from D sot"
    using assms(1,3,4) sot_from_record [of C "ls_sot (st_shared st)" key v]
    by (auto simp: state_backed_def settles_write_def split: option.splits)
qed

lemma step_backed:
  assumes "state_backed C st"
  shows "state_backed (C \<union> set (step_confirms st ev)) (load_step code st ev)"
proof -
  let ?D = "C \<union> set (step_confirms st ev)"
  have D: "state_backed ?D st" using assms by (rule state_backed_mono) simp
  show ?thesis
  proof (cases rule: load_step_cases [of code st ev])
    case idle
    then show ?thesis using D by simp
  next
    case (raise e)
    then show ?thesis using D by (simp add: state_backed_def)
  next
    case (began i item todo s p sh)
    have "begins (st_shared st) item (wk_stats (st_workers st ! i)) s p sh" using began(6) by (rule begin_law)
    note b = begin_backed [OF D nth_mem [OF began(3)] this]
    show ?thesis unfolding began(7) by (rule state_backed_update(1) [OF D b])
  next
    case (read i now outcome lag rq key node_id expected s)
    have "worker_backed ?D (st_workers st ! i)" using D read(3) by (simp add: state_backed_def)
    then have "worker_backed ?D ((st_workers st ! i)\<lparr>wk_pending := None, wk_stats := s\<rparr>)"
      using read_backed [OF _ read(4) end_read_law [OF read(5)]] by blast
    then show ?thesis unfolding read(6) by (rule state_backed_update(2) [OF D])
  next
    case (wrote i now outcome rq key node_id v s sot)
    have eq: "?D = C \<union> (case confirmed_ts outcome of Some ts \<Rightarrow> {(key, v, ts)} | None \<Rightarrow> {})"
      using wrote(1-4) by (auto simp: step_confirms_def split: option.splits)
    note w = write_backed [OF assms nth_mem [OF wrote(3)] end_write_law [OF wrote(5)] eq]
    show ?thesis unfolding wrote(6) by (rule state_backed_update(1) [OF D w(1)]) (simp add: w(2))
  qed
qed

lemma run_backed:
  "state_backed C st \<Longrightarrow> state_backed (C \<union> set (confirmed_writes code st evs)) (load_run code st evs)"
proof (induction evs arbitrary: st C)
  case Nil
  then show ?case by simp
next
  case (Cons ev evs)
  show ?case using Cons.IH [OF step_backed [OF Cons.prems, of ev]] by (simp add: Un_assoc)
qed

lemma start_backed: "state_backed {} (load_start chunks)"
  by (auto simp: state_backed_def load_start_def shared_init_def start_worker_def worker_backed_def
      sot_from_def sot_snapshot_def stats_init_def)

lemma merged_events:
  "stale_events (foldl stats_merge s results) = stale_events s @ concat (map stale_events results)"
  by (induction results arbitrary: s) (simp_all add: stats_merge_def)

lemma finished_stale_backed:
  assumes "load_finish elapsed (load_run code (load_start chunks) evs) = Some (Inr result)"
    "ev \<in> set (stale_events (ltr_stats result))"
  shows "older_than_expected ev \<and>
         (\<exists>v. (se_key ev, v, se_expected ev) \<in> set (confirmed_writes code (load_start chunks) evs))"
proof -
  let ?st = "load_run code (load_start chunks) evs"
  have "ltr_stats result = merge_all (map wk_stats (st_workers ?st))"
    using assms(1) by (auto simp: load_finish_def load_gather_def split: option.splits if_splits)
  then obtain wk where "wk \<in> set (st_workers ?st)" "ev \<in> set (stale_events (wk_stats wk))"
    using assms(2) by (auto simp: merge_all_def merged_events stats_init_def)
  then show ?thesis
    using run_backed [OF start_backed, of chunks evs] by (auto simp: state_backed_def worker_backed_def)
qed

end

lemma settles_read_failed:
  "settles_read key expected s (record_failure now s Read_op ft key node_id st d)"
  by (auto simp: settles_read_def stats_account_failed_read) (simp add: record_failure_def)

lemma settles_read_compared:
  "settles_read key expected s (s\<lparr>comparable_reads := comparable_reads s + 1\<rparr>)"
  by (auto simp: settles_read_def stats_account_compared)

lemma settles_read_stale:
  assumes "case actual of None \<Rightarrow> True | Some a \<Rightarrow> flt a (src_timestamp expected)"
  shows "settles_read key expected s
     (record_stale now (s\<lparr>comparable_reads := comparable_reads s + 1\<rparr>) key node_id expected actual field)"
proof -
  have "\<exists>ev. stale_events (record_stale now (s\<lparr>comparable_reads := comparable_reads s + 1\<rparr>) key node_id expected
          actual field) = stale_events s @ [ev] \<and> se_key ev = key \<and> se_expected ev = src_timestamp expected \<and>
        older_than_expected ev"
    using assms by (cases actual) (simp_all add: record_stale_def older_than_expected_def)
  then show ?thesis using stats_account_stale by (simp add: settles_read_def)
qed

lemma settles_read_lag:
  assumes "settles_read key expected s s'" "stale_events s' \<noteq> []" "stale_events s' \<noteq> stale_events s"
  shows "settles_read key expected s (set_last_lag s' lag)"
proof -
  obtain ev where ev: "stale_events s' = stale_events s @ [ev]" "se_key ev = key"
    "se_expected ev = src_timestamp expected" "older_than_expected ev"
    using assms(1,3) by (auto simp: settles_read_def)
  have "stats_account r w 0 0 s' \<Longrightarrow> stats_account r w 0 0 (set_last_lag s' lag)" for r w
    using ev(1) by (simp add: stats_account_def stats_consistent_def set_last_lag_def)
  moreover have "stale_events (set_last_lag s' lag) = stale_events s @ [ev\<lparr>se_lag := Some lag\<rparr>]"
    using ev(1) by (simp add: set_last_lag_def)
  moreover have "older_than_expected (ev\<lparr>se_lag := Some lag\<rparr>)"
    using ev(4) by (simp add: older_than_expected_def split: option.splits)
  ultimately show ?thesis
    using assms(1) ev(2,3) by (auto simp: settles_read_def)
qed

lemma settles_write_failed:
  "confirmed_ts reply = None \<Longrightarrow>
     settles_write key v reply s sot (record_failure now s Write_op ft key' node_id st d) sot"
  by (simp add: settles_write_def stats_account_failed_write) (simp add: record_failure_def)

lemma settles_write_done:
  "sot' = (case confirmed_ts reply of Some ts \<Rightarrow> sot_record sot key v ts | None \<Rightarrow> sot) \<Longrightarrow>
     settles_write key v reply s sot s sot'"
  by (auto simp: settles_write_def stats_account_written)

lemmas settles = settles_read_failed settles_read_compared settles_read_stale settles_write_failed settles_write_done

text \<open>The workers of the three tests provide the interface.\<close>

lemma record_stale_events [simp]:
  "stale_events (record_stale now (s\<lparr>comparable_reads := c\<rparr>) key node_id expected actual field) \<noteq> stale_events s"
  "stale_events (record_stale now s key node_id expected actual field) \<noteq> []"
  by (simp_all add: record_stale_def)

interpretation lf: load_worker "lf_code fmt followers node_ids leader_node_id"
proof
  fix now s sot key node_id v and expected :: source_entry and reply and outcome and lag and s' sot'
  show "settles_read key expected s s'"
    if "wc_end_read (lf_code fmt followers node_ids leader_node_id) now s key node_id expected outcome lag = Inr s'"
    using that by (auto simp: lf_code_def lf_end_read_def Let_def bind_exn_Inr_iff intro!: settles
        split: http_outcome.splits if_splits)
  show "settles_write key v reply s sot s' sot'"
    if "wc_end_write (lf_code fmt followers node_ids leader_node_id) now s sot key node_id v reply = Inr (s', sot')"
    using that by (auto simp: lf_code_def lf_end_write_def Let_def bind_exn_Inr_iff confirmed_ts_def intro!: settles
        split: http_outcome.splits if_splits)
next
  fix sh item s s' p sh'
  assume "wc_begin (lf_code fmt followers node_ids leader_node_id) sh item s = Inr (s', p, sh')"
  then show "begins sh item s s' p sh'"
    by (auto simp: lf_code_def lf_begin_request_def lf_begin_read_def lf_begin_write_def next_value_def Let_def
        bind_exn_Inr_iff begins_def split: if_splits option.splits)
qed

interpretation ll: load_worker "ll_code fmt nodes node_ids w r"
proof
  fix now s sot key node_id v and expected :: source_entry and reply and outcome and lag and s' sot'
  show "settles_read key expected s s'"
    if "wc_end_read (ll_code fmt nodes node_ids w r) now s key node_id expected outcome lag = Inr s'"
    using that by (auto simp: ll_code_def ll_end_read_def Let_def bind_exn_Inr_iff intro!: settles
        split: http_outcome.splits if_splits)
  show "settles_write key v reply s sot s' sot'"
    if "wc_end_write (ll_code fmt nodes node_ids w r) now s sot key node_id v reply = Inr (s', sot')"
    using that by (auto simp: ll_code_def ll_end_write_def Let_def bind_exn_Inr_iff confirmed_ts_def intro!: settles
        split: http_outcome.splits if_splits)
next
  fix sh item s s' p sh'
  assume "wc_begin (ll_code fmt nodes node_ids w r) sh item s = Inr (s', p, sh')"
  then show "begins sh item s s' p sh'"
    by (auto simp: ll_code_def ll_begin_request_def ll_begin_read_def ll_begin_write_def next_value_def Let_def
        bind_exn_Inr_iff begins_def split: if_splits option.splits)
qed

interpretation mq: load_worker "mq_code ports node_ids producer_node_id"
proof
  fix now s sot key node_id v and expected :: source_entry and reply and outcome and lag and s' sot'
  show "settles_read key expected s s'"
    if "wc_end_read (mq_code ports node_ids producer_node_id) now s key node_id expected outcome lag = Inr s'"
    using that by (auto simp: mq_code_def mq_end_read_def Let_def bind_exn_Inr_iff intro!: settles settles_read_lag
        split: http_outcome.splits if_splits)
  show "settles_write key v reply s sot s' sot'"
    if "wc_end_write (mq_code ports node_ids producer_node_id) now s sot key node_id v reply = Inr (s', sot')"
    using that by (auto simp: mq_code_def mq_end_write_def Let_def bind_exn_Inr_iff confirmed_ts_def intro!: settles
        split: http_outcome.splits if_splits)
next
  fix sh item s s' p sh'
  assume "wc_begin (mq_code ports node_ids producer_node_id) sh item s = Inr (s', p, sh')"
  then show "begins sh item s s' p sh'"
    by (auto simp: mq_code_def mq_begin_request_def mq_begin_read_def mq_begin_write_def next_value_def Let_def
        bind_exn_Inr_iff begins_def split: if_splits option.splits)
qed

section \<open>Properties\<close>

text \<open>
  A run of the three tests in miniature: two workers, one writing and then reading the key the other
  reads first; the first read finds nothing recorded and issues no request, the last is stale.
\<close>

definition demo_fmt :: "pyval \<Rightarrow> string" where
  "demo_fmt host = (case host of PStr s \<Rightarrow> s | _ \<Rightarrow> [])"

definition demo_nodes :: "node list" where
  "demo_nodes = [\<lparr>node_host = PStr ''127.0.0.1'', node_port = 8001\<rparr>, \<lparr>node_host = PStr ''127.0.0.1'', node_port = 8002\<rparr>]"

definition demo_followers :: "follower list" where
  "demo_followers = [\<lparr>follower_host = PStr ''127.0.0.1'', follower_port = 8001\<rparr>]"

definition demo_chunks :: "request_plan list list" where
  "demo_chunks =
     [[\<lparr>rp_is_read = False, rp_key = ''key_0'', rp_read_target_index = None\<rparr>,
       \<lparr>rp_is_read = True, rp_key = ''key_0'', rp_read_target_index = Some 0\<rparr>],
      [\<lparr>rp_is_read = True, rp_key = ''key_0'', rp_read_target_index = Some 0\<rparr>]]"

definition demo_run :: "load_event list" where
  "demo_run =
     [Begin 0, Begin 1, End_write 0 (Fin 5) (Replied 200 (Inr \<lparr>wb_applied = True, wb_timestamp = Inr (Fin 4)\<rparr>)),
      Begin 0, End_read 0 (Fin 7) (Replied 200 (Inr (Fin 2))) (Replied 200 (Inr 1))]"

lemmas demo_eval = load_finish_def load_gather_def merge_all_def stats_merge_def load_start_def start_worker_def
  shared_init_def stats_init_def demo_chunks_def demo_run_def next_value_def py_item_def worker_done_def
  sot_snapshot_def sot_record_def record_stale_def Let_def

lemmas ll_eval = demo_eval ll_code_def ll_begin_request_def ll_begin_write_def ll_begin_read_def ll_end_write_def
  ll_end_read_def demo_nodes_def next_node_def

lemmas lf_eval = demo_eval lf_code_def lf_begin_request_def lf_begin_write_def lf_begin_read_def lf_end_write_def
  lf_end_read_def demo_followers_def

text \<open>
  C36. Accounting of the leaderless load test: however its workers interleave and whatever the nodes
  reply, a run that completes has counted every request of the plan exactly once, as a read or a
  write; no read is both compared and failed, as many stale reads and failures are logged as
  counted, per operation and kind, and no more reads are stale than were compared.
\<close>

theorem ll_load_test_accounts:
  assumes "load_finish elapsed (load_run (ll_code fmt nodes node_ids w r) (load_start chunks) evs) = Some (Inr result)"
  shows "stats_account (reads_in (concat chunks)) (writes_in (concat chunks)) 0 0 (ltr_stats result) \<and>
         total_requests (ltr_stats result) = int (length (concat chunks)) \<and>
         0 \<le> staleness_rate (ltr_stats result) \<and> staleness_rate (ltr_stats result) \<le> 100"
proof -
  note a = ll.finished_accounts [OF assms]
  then have "total_requests (ltr_stats result) = reads_in (concat chunks) + writes_in (concat chunks)"
    by (simp add: stats_account_def stats_consistent_def)
  then show ?thesis using a stats_account_rate [OF a] reads_writes_total by simp
qed

theorem ll_load_test_accounts_witness:
  "\<exists>result. load_finish (Fin 1) (load_run (ll_code demo_fmt demo_nodes [] (Some 1) None) (load_start demo_chunks)
       demo_run) = Some (Inr result) \<and>
     stats_account 2 1 0 0 (ltr_stats result) \<and> total_requests (ltr_stats result) = 3 \<and>
     comparable_reads (ltr_stats result) = 1 \<and> stale_reads (ltr_stats result) = 1"
proof -
  have "\<exists>result. load_finish (Fin 1) (load_run (ll_code demo_fmt demo_nodes [] (Some 1) None)
      (load_start demo_chunks) demo_run) = Some (Inr result) \<and>
      comparable_reads (ltr_stats result) = 1 \<and> stale_reads (ltr_stats result) = 1"
    by (simp add: ll_eval)
  then show ?thesis
    using ll_load_test_accounts [where chunks = demo_chunks and evs = demo_run]
    by (fastforce simp: demo_chunks_def reads_in_def writes_in_def)
qed

text \<open>
  C37. The leader-follower load test does not report staleness that is not there: every stale read it
  logs returned an entry older than, or no entry for, a write of that key which this run itself saw
  confirmed with a 200, an applied flag and that timestamp.
\<close>

theorem lf_stale_reads_are_real:
  assumes "load_finish elapsed
      (load_run (lf_code fmt followers node_ids leader_node_id) (load_start chunks) evs) = Some (Inr result)"
    and "ev \<in> set (stale_events (ltr_stats result))"
  shows "older_than_expected ev \<and>
         (\<exists>v. (se_key ev, v, se_expected ev) \<in>
            set (confirmed_writes (lf_code fmt followers node_ids leader_node_id) (load_start chunks) evs))"
  using assms by (rule lf.finished_stale_backed)

theorem lf_stale_reads_are_real_witness:
  "\<exists>result ev. load_finish (Fin 1) (load_run (lf_code demo_fmt demo_followers [] ''leader'')
       (load_start demo_chunks) demo_run) = Some (Inr result) \<and> stale_events (ltr_stats result) = [ev] \<and>
     se_actual ev = Some (Fin 2) \<and> se_expected ev = Fin 4 \<and> older_than_expected ev"
proof -
  obtain result ev where r: "load_finish (Fin 1) (load_run (lf_code demo_fmt demo_followers [] ''leader'')
       (load_start demo_chunks) demo_run) = Some (Inr result)" "stale_events (ltr_stats result) = [ev]"
    "se_actual ev = Some (Fin 2)" "se_expected ev = Fin 4"
    by (simp add: lf_eval)
  then have "older_than_expected ev"
    using lf_stale_reads_are_real [OF r(1), of ev] by simp
  with r show ?thesis by blast
qed

text \<open>
  Values are traceable: in a run of the leaderless test the writes issued by all workers, in the
  order they are issued, carry the consecutive values from 0 on, so no value is ever written twice.
\<close>

theorem ll_written_values_unique:
  "written_values (ll_code fmt nodes node_ids w r) (load_start chunks) evs =
     [0..ls_counter (st_shared (load_run (ll_code fmt nodes node_ids w r) (load_start chunks) evs)) - 1] \<and>
   distinct (written_values (ll_code fmt nodes node_ids w r) (load_start chunks) evs)"
  using ll.run_counter [of fmt nodes node_ids w r "load_start chunks" evs]
  by (simp add: ll.values_distinct load_start_def shared_init_def)

end
