(* ===== verification/KV_LeaderCluster.thy ===== *)
theory KV_LeaderCluster
  imports KV_Leader KV_Cluster
begin

text \<open>
  A leader and its followers as a transition system over whole runs: client requests at the leader and
  at the followers, the delivery of each replicate call, the end of each call at the leader, and the
  passes of each write's \<open>replicate\<close> loop are separate steps that interleave freely. The steps are made of
  the handlers of \<open>KV_Server\<close> and \<open>KV_Leader\<close>; followers are numbered as in the configuration.
\<close>

section \<open>The cluster\<close>

text \<open>
  One replicate call: what the follower's handler answered once the request was delivered, and the value
  of the task \<open>_send\<close> once it ended. A call is delivered at most once, and may fail at the leader whether
  it was delivered or not; an ack is the follower's own reply.
\<close>

record leader_call =
  lcall_reply :: "replicate_response http_result option"
  lcall_result :: "(exn + bool) option"

record 'v leader_write =
  lw_request :: "'v replicate_request"
  lw_applied :: bool
  lw_calls :: "leader_call list"
  lw_pending :: "nat list"
  lw_acked :: int
  lw_answer :: "put_response http_result option"

record 'v lf_cluster =
  lfc_leader :: "'v kvstore"
  lfc_followers :: "nat \<Rightarrow> 'v kvstore"
  lfc_writes :: "'v leader_write list"

definition lf_init :: "'v lf_cluster" where
  "lf_init = \<lparr>lfc_leader = kv_init, lfc_followers = (\<lambda>t. kv_init), lfc_writes = []\<rparr>"

text \<open>
  A request at the leader is a \<open>PUT\<close> the leader replicates or is served like on any node; \<open>Send_delivered\<close>,
  \<open>Send_ended\<close> and \<open>Put_pass\<close> name a write by its number and a call by its follower. \<open>Send_ended\<close> says whether
  the client was closed when the call began.
\<close>

datatype 'v lf_action =
    Leader_request "'v request"
  | Follower_request nat "'v request"
  | Send_delivered nat nat
  | Send_ended nat nat bool "replicate_response call_result"
  | Put_pass nat pyfloat wait_event

definition lf_start_put ::
    "leader_config \<Rightarrow> string \<Rightarrow> 'v lf_cluster \<Rightarrow> string \<Rightarrow> 'v put_request \<Rightarrow> pyfloat \<Rightarrow> 'v lf_cluster" where
  "lf_start_put config node_id s key body now =
     (let (applied, store') = kv_put (lfc_leader s) key (preq_value body) now node_id;
          payload = \<lparr>rreq_key = key, rreq_value = preq_value body, rreq_timestamp = now, rreq_node_id = node_id\<rparr>;
          n = length (lc_followers config)
      in s\<lparr>lfc_leader := store',
           lfc_writes := lfc_writes s @ [\<lparr>lw_request = payload, lw_applied = applied,
             lw_calls = replicate n \<lparr>lcall_reply = None, lcall_result = None\<rparr>,
             lw_pending = [0..<n], lw_acked = 0, lw_answer = None\<rparr>]\<rparr>)"

definition send_delivered :: "'v lf_cluster \<Rightarrow> nat \<Rightarrow> nat \<Rightarrow> 'v lf_cluster" where
  "send_delivered s i t =
     (if i < length (lfc_writes s) \<and> t < length (lw_calls (lfc_writes s ! i)) then
        let wr = lfc_writes s ! i; c = lw_calls wr ! t
        in if lcall_reply c \<noteq> None then s
           else (let (rep, store') = replicate_key (lfc_followers s t) (lw_request wr)
                 in s\<lparr>lfc_followers := (lfc_followers s)(t := store'),
                      lfc_writes := (lfc_writes s)[i := wr\<lparr>lw_calls := (lw_calls wr)[t := c\<lparr>lcall_reply := Some rep\<rparr>]\<rparr>]\<rparr>)
      else s)"

definition send_may_end :: "leader_call \<Rightarrow> bool \<Rightarrow> replicate_response call_result \<Rightarrow> bool" where
  "send_may_end c was_closed r \<longleftrightarrow>
     lcall_result c = None \<and>
     (send_task was_closed r = Inr True \<longrightarrow> map_option reply_call (lcall_reply c) = Some r)"

definition send_ended :: "'v lf_cluster \<Rightarrow> nat \<Rightarrow> nat \<Rightarrow> bool \<Rightarrow> replicate_response call_result \<Rightarrow> 'v lf_cluster" where
  "send_ended s i t was_closed r =
     (if i < length (lfc_writes s) \<and> t < length (lw_calls (lfc_writes s ! i)) then
        let wr = lfc_writes s ! i; c = lw_calls wr ! t
        in if send_may_end c was_closed r
           then s\<lparr>lfc_writes := (lfc_writes s)[i := wr\<lparr>lw_calls :=
                  (lw_calls wr)[t := c\<lparr>lcall_result := Some (send_task was_closed r)\<rparr>]\<rparr>]\<rparr>
           else s
      else s)"

definition send_result :: "leader_call list \<Rightarrow> nat \<Rightarrow> exn + bool" where
  "send_result calls t =
     (case lcall_result (calls ! t) of None \<Rightarrow> Inl (OtherErr ''InvalidStateError'') | Some r \<Rightarrow> r)"

definition sends_possible :: "leader_call list \<Rightarrow> wait_event \<Rightarrow> bool" where
  "sends_possible calls ev =
     (case ev of
        Cancelled \<Rightarrow> True
      | Completed ts \<Rightarrow> list_all (\<lambda>t. t < length calls \<and> lcall_result (calls ! t) \<noteq> None) ts)"

text \<open>One pass of the loop of \<open>replicate\<close>, and the answer of the handler if the pass ended it.\<close>

definition put_pass_write :: "leader_config \<Rightarrow> pyfloat \<Rightarrow> wait_event \<Rightarrow> 'v leader_write \<Rightarrow> 'v leader_write" where
  "put_pass_write config remaining ev wr =
     (let answer = (\<lambda>acked. Some (resolve_put_leader config (lw_applied wr) (rreq_timestamp (lw_request wr)) acked))
      in if lw_pending wr \<noteq> [] \<and> lw_acked wr < lc_ack_required config
         then case wait_round (count_acks (send_result (lw_calls wr))) remaining ev (lw_pending wr) (lw_acked wr) of
             Round_next pending acked \<Rightarrow> wr\<lparr>lw_pending := pending, lw_acked := acked\<rparr>
           | Round_break pending acked \<Rightarrow>
               wr\<lparr>lw_pending := pending, lw_acked := acked, lw_answer := answer (Inr acked)\<rparr>
           | Round_raise e pending \<Rightarrow> wr\<lparr>lw_pending := pending, lw_answer := answer (Inl e)\<rparr>
         else wr\<lparr>lw_answer := answer (Inr (lw_acked wr))\<rparr>)"

definition put_pass :: "leader_config \<Rightarrow> 'v lf_cluster \<Rightarrow> nat \<Rightarrow> pyfloat \<Rightarrow> wait_event \<Rightarrow> 'v lf_cluster" where
  "put_pass config s i remaining ev =
     (if i < length (lfc_writes s) then
        let wr = lfc_writes s ! i
        in if lw_answer wr \<noteq> None \<or> \<not> sends_possible (lw_calls wr) ev then s
           else s\<lparr>lfc_writes := (lfc_writes s)[i := put_pass_write config remaining ev wr]\<rparr>
      else s)"

text \<open>\<open>node_id\<close> is the leader's id, \<open>fid t\<close> that of follower \<open>t\<close>.\<close>

fun lf_step :: "leader_config \<Rightarrow> string \<Rightarrow> (nat \<Rightarrow> string) \<Rightarrow> 'v lf_cluster \<Rightarrow> 'v lf_action \<Rightarrow> 'v lf_cluster" where
  "lf_step config node_id fid s (Leader_request (Req_put key body now)) = lf_start_put config node_id s key body now"
| "lf_step config node_id fid s (Leader_request r) = s\<lparr>lfc_leader := snd (serve node_id r (lfc_leader s))\<rparr>"
| "lf_step config node_id fid s (Follower_request t r) =
     s\<lparr>lfc_followers := (lfc_followers s)(t := snd (serve (fid t) r (lfc_followers s t)))\<rparr>"
| "lf_step config node_id fid s (Send_delivered i t) = send_delivered s i t"
| "lf_step config node_id fid s (Send_ended i t was_closed r) = send_ended s i t was_closed r"
| "lf_step config node_id fid s (Put_pass i remaining ev) = put_pass config s i remaining ev"

fun lf_run :: "leader_config \<Rightarrow> string \<Rightarrow> (nat \<Rightarrow> string) \<Rightarrow> 'v lf_action list \<Rightarrow> 'v lf_cluster \<Rightarrow> 'v lf_cluster" where
  "lf_run config node_id fid [] s = s"
| "lf_run config node_id fid (a # as) s = lf_run config node_id fid as (lf_step config node_id fid s a)"

lemma lf_run_append:
  "lf_run config node_id fid (as @ bs) s = lf_run config node_id fid bs (lf_run config node_id fid as s)"
  by (induction as arbitrary: s) simp_all

lemma lf_run_induct:
  assumes "I s" "\<And>a s. a \<in> set as \<Longrightarrow> I s \<Longrightarrow> I (lf_step config node_id fid s a)"
  shows "I (lf_run config node_id fid as s)"
  using assms by (induction as arbitrary: s) auto

section \<open>What requests write\<close>

text \<open>The entry a request served by the node \<open>node_id\<close> writes to the key.\<close>

fun request_entry :: "string \<Rightarrow> string \<Rightarrow> 'v request \<Rightarrow> 'v versioned_value option" where
  "request_entry node_id key (Req_put k body now) =
     (if k = key then Some \<lparr>vv_value = preq_value body, vv_timestamp = now, vv_node_id = node_id\<rparr> else None)"
| "request_entry node_id key (Req_replicate body) = (if rreq_key body = key then Some (rreq_entry body) else None)"
| "request_entry node_id key _ = None"

lemma serve_store:
  "snd (serve node_id r st) =
     (case r of
        Req_put k body now \<Rightarrow>
          snd (kv_put_entry st k \<lparr>vv_value = preq_value body, vv_timestamp = now, vv_node_id = node_id\<rparr>)
      | Req_replicate body \<Rightarrow> snd (kv_put_entry st (rreq_key body) (rreq_entry body))
      | Req_delete k \<Rightarrow> snd (kv_delete st k)
      | _ \<Rightarrow> st)"
  by (cases r) (simp_all add: put_key_def delete_key_def kv_put_as_entry Let_def case_prod_beta)

text \<open>A request that may only write entries of \<open>W\<close> to the key, and does not delete it.\<close>

definition request_allowed :: "string \<Rightarrow> 'v versioned_value set \<Rightarrow> string \<Rightarrow> 'v request \<Rightarrow> bool" where
  "request_allowed node_id W key r \<longleftrightarrow> r \<noteq> Req_delete key \<and> (\<forall>e. request_entry node_id key r = Some e \<longrightarrow> e \<in> W)"

lemma evolves_serve:
  assumes "store_ok W key st" "\<forall>e \<in> W. stamped e" "request_allowed node_id W key r"
  shows "evolves W key st (snd (serve node_id r st))"
  unfolding serve_store
  using assms
  by (cases r) (auto simp: request_allowed_def intro: evolves_refl evolves_put evolves_delete)

fun lf_action_entry :: "string \<Rightarrow> (nat \<Rightarrow> string) \<Rightarrow> string \<Rightarrow> 'v lf_action \<Rightarrow> 'v versioned_value option" where
  "lf_action_entry node_id fid key (Leader_request r) = request_entry node_id key r"
| "lf_action_entry node_id fid key (Follower_request t r) = request_entry (fid t) key r"
| "lf_action_entry node_id fid key _ = None"

fun lf_deletes :: "string \<Rightarrow> 'v lf_action \<Rightarrow> bool" where
  "lf_deletes key (Leader_request (Req_delete k)) = (k = key)"
| "lf_deletes key (Follower_request t (Req_delete k)) = (k = key)"
| "lf_deletes key _ = False"

definition lf_written :: "string \<Rightarrow> (nat \<Rightarrow> string) \<Rightarrow> string \<Rightarrow> 'v lf_action list \<Rightarrow> 'v versioned_value set" where
  "lf_written node_id fid key acts = {e. Some e \<in> lf_action_entry node_id fid key ` set acts}"

text \<open>Runs in which the key is never deleted and every write to it carries a real timestamp.\<close>

definition lf_clean :: "string \<Rightarrow> (nat \<Rightarrow> string) \<Rightarrow> string \<Rightarrow> 'v lf_action list \<Rightarrow> bool" where
  "lf_clean node_id fid key acts \<longleftrightarrow>
     list_all (\<lambda>a. \<not> lf_deletes key a \<and>
       (case lf_action_entry node_id fid key a of None \<Rightarrow> True | Some e \<Rightarrow> vv_timestamp e \<noteq> NaN)) acts"

lemma lf_clean_written: "lf_clean node_id fid key acts \<Longrightarrow> \<forall>e \<in> lf_written node_id fid key acts. stamped e"
  by (force simp: lf_clean_def lf_written_def list_all_iff stamped_def split: option.splits)

definition lf_allowed :: "string \<Rightarrow> (nat \<Rightarrow> string) \<Rightarrow> 'v versioned_value set \<Rightarrow> string \<Rightarrow> 'v lf_action \<Rightarrow> bool" where
  "lf_allowed node_id fid W key a \<longleftrightarrow>
     \<not> lf_deletes key a \<and> (\<forall>e. lf_action_entry node_id fid key a = Some e \<longrightarrow> e \<in> W)"

lemma lf_clean_allowed:
  "lf_clean node_id fid key acts \<Longrightarrow> a \<in> set acts \<Longrightarrow> lf_allowed node_id fid (lf_written node_id fid key acts) key a"
  by (force simp: lf_clean_def list_all_iff lf_allowed_def lf_written_def image_iff)

lemma lf_allowed_request [simp]:
  "lf_allowed node_id fid W key (Leader_request r) \<longleftrightarrow> request_allowed node_id W key r"
  "lf_allowed node_id fid W key (Follower_request t r) \<longleftrightarrow> request_allowed (fid t) W key r"
  by (cases r; auto simp: lf_allowed_def request_allowed_def)+

section \<open>The invariant of a write\<close>

text \<open>
  \<open>acks_ok\<close>: the acks counted so far are results of calls no longer pending, and each of those acks is the
  reply of a follower the call was delivered to.
\<close>

definition acked_calls :: "'v leader_write \<Rightarrow> nat set" where
  "acked_calls wr =
     {t. t < length (lw_calls wr) \<and> t \<notin> set (lw_pending wr) \<and> lcall_result (lw_calls wr ! t) = Some (Inr True)}"

definition acks_ok :: "leader_config \<Rightarrow> 'v leader_write \<Rightarrow> bool" where
  "acks_ok config wr \<longleftrightarrow>
     length (lw_calls wr) = length (lc_followers config) \<and>
     distinct (lw_pending wr) \<and> set (lw_pending wr) \<subseteq> {0..<length (lw_calls wr)} \<and>
     (\<forall>t < length (lw_calls wr). lcall_result (lw_calls wr ! t) = Some (Inr True) \<longrightarrow> lcall_reply (lw_calls wr ! t) \<noteq> None) \<and>
     lw_acked wr \<le> int (card (acked_calls wr)) \<and>
     (\<forall>resp. lw_answer wr = Some (Http_ok resp) \<longrightarrow> lc_ack_required config \<le> lw_acked wr)"

definition lw_ok ::
    "leader_config \<Rightarrow> 'v versioned_value set \<Rightarrow> string \<Rightarrow> 'v kvstore \<Rightarrow> (nat \<Rightarrow> 'v kvstore) \<Rightarrow> 'v leader_write \<Rightarrow> bool" where
  "lw_ok config W key leader followers wr \<longleftrightarrow>
     (let e = rreq_entry (lw_request wr) in
      e \<in> W \<and> holds leader key e \<and> acks_ok config wr \<and>
      (\<forall>t < length (lw_calls wr). lcall_reply (lw_calls wr ! t) \<noteq> None \<longrightarrow> holds (followers t) key e))"

definition lf_ok :: "leader_config \<Rightarrow> 'v versioned_value set \<Rightarrow> string \<Rightarrow> 'v lf_cluster \<Rightarrow> bool" where
  "lf_ok config W key s \<longleftrightarrow>
     store_ok W key (lfc_leader s) \<and> (\<forall>t. store_ok W key (lfc_followers s t)) \<and>
     (\<forall>wr \<in> set (lfc_writes s). rreq_key (lw_request wr) = key \<longrightarrow>
        lw_ok config W key (lfc_leader s) (lfc_followers s) wr)"

text \<open>The stores of a cluster evolve together.\<close>

definition lf_evolves :: "'v versioned_value set \<Rightarrow> string \<Rightarrow> 'v lf_cluster \<Rightarrow> 'v lf_cluster \<Rightarrow> bool" where
  "lf_evolves W key s s' \<longleftrightarrow>
     evolves W key (lfc_leader s) (lfc_leader s') \<and> (\<forall>t. evolves W key (lfc_followers s t) (lfc_followers s' t))"

lemma lw_ok_mono:
  assumes "lw_ok config W key (lfc_leader s) (lfc_followers s) wr" "lf_evolves W key s s'"
  shows "lw_ok config W key (lfc_leader s') (lfc_followers s') wr"
  using assms by (auto simp: lw_ok_def lf_evolves_def evolves_def Let_def)

lemma lf_ok_init: "lf_ok config W key lf_init"
  by (simp add: lf_ok_def lf_init_def store_ok_def store_simps)

text \<open>A step keeps the invariant if the stores evolve and each write is an old one or satisfies it anew.\<close>

lemma lf_ok_change:
  assumes "lf_ok config W key s" "lf_evolves W key s s'"
    and "\<And>wr. wr \<in> set (lfc_writes s') \<Longrightarrow> rreq_key (lw_request wr) = key \<Longrightarrow>
      wr \<in> set (lfc_writes s) \<or> lw_ok config W key (lfc_leader s') (lfc_followers s') wr"
  shows "lf_ok config W key s'"
proof -
  have "lw_ok config W key (lfc_leader s') (lfc_followers s') wr"
    if "wr \<in> set (lfc_writes s')" "rreq_key (lw_request wr) = key" for wr
    using assms(3) [OF that] assms(1) that(2) lw_ok_mono [OF _ assms(2)] by (auto simp: lf_ok_def)
  then show ?thesis using assms(2) by (auto simp: lf_ok_def lf_evolves_def evolves_def)
qed

lemma lf_ok_update:
  assumes ok: "lf_ok config W key s" "i < length (lfc_writes s)"
    and "lfc_writes s' = (lfc_writes s)[i := wr]" "lf_evolves W key s s'"
    and "rreq_key (lw_request wr) = rreq_key (lw_request (lfc_writes s ! i))"
    and "rreq_key (lw_request wr) = key \<Longrightarrow>
      lw_ok config W key (lfc_leader s') (lfc_followers s') (lfc_writes s ! i) \<Longrightarrow>
      lw_ok config W key (lfc_leader s') (lfc_followers s') wr"
  shows "lf_ok config W key s'"
proof (rule lf_ok_change [OF ok(1) assms(4)])
  fix w
  assume w: "w \<in> set (lfc_writes s')" "rreq_key (lw_request w) = key"
  have "lw_ok config W key (lfc_leader s') (lfc_followers s') (lfc_writes s ! i)"
    if "rreq_key (lw_request (lfc_writes s ! i)) = key"
    using ok that lw_ok_mono [OF _ assms(4)] by (auto simp: lf_ok_def)
  then show "w \<in> set (lfc_writes s) \<or> lw_ok config W key (lfc_leader s') (lfc_followers s') w"
    using w assms(3,5,6) set_update_subset_insert by fastforce
qed

lemma lf_evolves_refl: "lf_ok config W key s \<Longrightarrow> lfc_leader s' = lfc_leader s \<Longrightarrow>
  lfc_followers s' = lfc_followers s \<Longrightarrow> lf_evolves W key s s'"
  by (simp add: lf_evolves_def lf_ok_def evolves_refl)

section \<open>Steps keep the invariant\<close>

lemma acks_ok_next:
  assumes ok: "acks_ok config wr" "lw_answer wr = None"
    and r: "wait_round (count_acks (send_result (lw_calls wr))) remaining ev (lw_pending wr) (lw_acked wr) = Round_next p a"
  shows "acks_ok config (wr\<lparr>lw_pending := p, lw_acked := a\<rparr>)"
proof -
  have d: "distinct (lw_pending wr)" using ok by (simp add: acks_ok_def)
  note n = acks.round_next [OF r d]
  let ?new = "{t \<in> set (lw_pending wr) - set p. send_result (lw_calls wr) t = Inr True}"
  let ?wr = "wr\<lparr>lw_pending := p, lw_acked := a\<rparr>"
  have a: "a = lw_acked wr + int (card ?new)"
    using n by (simp add: acks.sum_weight)
  have "acked_calls wr \<union> ?new \<subseteq> acked_calls ?wr"
    using ok n by (auto simp: acks_ok_def acked_calls_def send_result_def split: option.splits)
  moreover have "acked_calls wr \<inter> ?new = {}" "finite (acked_calls wr)" "finite (acked_calls ?wr)"
    by (auto simp: acked_calls_def)
  ultimately have "card (acked_calls wr) + card ?new \<le> card (acked_calls ?wr)"
    by (metis (no_types, lifting) card_Un_disjoint card_mono finite_Un finite_subset)
  then have "a \<le> int (card (acked_calls ?wr))"
    using ok a by (simp add: acks_ok_def)
  then show ?thesis using ok n by (auto simp: acks_ok_def)
qed

lemma acks_ok_pass:
  assumes "acks_ok config wr" "lw_answer wr = None"
  shows "acks_ok config (put_pass_write config remaining ev wr)"
proof (cases "lw_pending wr \<noteq> [] \<and> lw_acked wr < lc_ack_required config")
  case False
  then show ?thesis
    using assms by (auto simp: put_pass_write_def acks_ok_def acked_calls_def resolve_put_leader_def Let_def)
next
  case True
  let ?r = "wait_round (count_acks (send_result (lw_calls wr))) remaining ev (lw_pending wr) (lw_acked wr)"
  have d: "distinct (lw_pending wr)" using assms(1) by (simp add: acks_ok_def)
  show ?thesis
  proof (cases ?r)
    case (Round_next p a)
    then show ?thesis using True acks_ok_next [OF assms] by (simp add: put_pass_write_def)
  next
    case (Round_break p a)
    then show ?thesis
      using assms True wait_round_break [OF Round_break]
      by (auto simp: put_pass_write_def acks_ok_def acked_calls_def resolve_put_leader_def Let_def)
  next
    case (Round_raise e p)
    note r = wait_round_raise [OF Round_raise d]
    have "acked_calls wr \<subseteq> acked_calls (wr\<lparr>lw_pending := p, lw_answer := Some (Http_crash e)\<rparr>)"
      using r by (auto simp: acked_calls_def)
    then have "card (acked_calls wr) \<le> card (acked_calls (wr\<lparr>lw_pending := p, lw_answer := Some (Http_crash e)\<rparr>))"
      by (rule card_mono [rotated]) (simp add: acked_calls_def)
    then show ?thesis
      using assms True Round_raise r
      by (auto simp: put_pass_write_def acks_ok_def resolve_put_leader_def)
  qed
qed

lemma put_pass_write_simps [simp]:
  "lw_request (put_pass_write config remaining ev wr) = lw_request wr"
  "lw_calls (put_pass_write config remaining ev wr) = lw_calls wr"
  "lw_applied (put_pass_write config remaining ev wr) = lw_applied wr"
  by (auto simp: put_pass_write_def Let_def split: round.split)

lemma lf_step_leader:
  assumes ok: "lf_ok config W key s" and W: "\<forall>e \<in> W. stamped e" and al: "request_allowed node_id W key r"
    and s'_def: "s' = lf_step config node_id fid s (Leader_request r)"
  shows "lf_ok config W key s' \<and> lf_evolves W key s s'"
proof -
  have st: "store_ok W key (lfc_leader s)" "\<And>t. store_ok W key (lfc_followers s t)"
    using ok by (auto simp: lf_ok_def)
  have stores: "lfc_leader s' = snd (serve node_id r (lfc_leader s))" "lfc_followers s' = lfc_followers s"
    unfolding s'_def by (cases r; simp add: lf_start_put_def put_key_def Let_def case_prod_beta)+
  have ev: "lf_evolves W key s s'"
    using evolves_serve [OF st(1) W al] st(2) by (simp add: lf_evolves_def stores evolves_refl)
  moreover have "lf_ok config W key s'"
  proof (rule lf_ok_change [OF ok ev])
    fix wr
    assume wr: "wr \<in> set (lfc_writes s')" "rreq_key (lw_request wr) = key"
    show "wr \<in> set (lfc_writes s) \<or> lw_ok config W key (lfc_leader s') (lfc_followers s') wr"
    proof (cases "wr \<in> set (lfc_writes s)")
      case False
      then obtain body now where r: "r = Req_put key body now"
        and req: "lw_request wr = \<lparr>rreq_key = key, rreq_value = preq_value body, rreq_timestamp = now, rreq_node_id = node_id\<rparr>"
        and rest: "lw_calls wr = replicate (length (lc_followers config)) \<lparr>lcall_reply = None, lcall_result = None\<rparr>"
          "lw_pending wr = [0..<length (lc_followers config)]" "lw_acked wr = 0" "lw_answer wr = None"
        using wr unfolding s'_def by (cases r) (auto simp: lf_start_put_def Let_def case_prod_beta)
      have W': "rreq_entry (lw_request wr) \<in> W"
        using al unfolding req r by (simp add: request_allowed_def rreq_entry_def)
      then have "holds (lfc_leader s') key (rreq_entry (lw_request wr))"
        using put_entry_holds [OF st(1) W W'] unfolding stores serve_store r req by (simp add: rreq_entry_def)
      then show ?thesis using W' by (simp add: lw_ok_def acks_ok_def rest)
    qed simp
  qed
  ultimately show ?thesis by blast
qed

lemma lf_step_follower:
  assumes ok: "lf_ok config W key s" and W: "\<forall>e \<in> W. stamped e" and al: "request_allowed (fid t) W key r"
    and s'_def: "s' = lf_step config node_id fid s (Follower_request t r)"
  shows "lf_ok config W key s' \<and> lf_evolves W key s s'"
proof -
  have st: "store_ok W key (lfc_leader s)" "\<And>t. store_ok W key (lfc_followers s t)"
    using ok by (auto simp: lf_ok_def)
  have ev: "lf_evolves W key s s'"
    using evolves_serve [OF st(2) W al] st by (simp add: lf_evolves_def s'_def evolves_refl)
  moreover have "lf_ok config W key s'"
    by (rule lf_ok_change [OF ok ev]) (simp add: s'_def)
  ultimately show ?thesis by blast
qed

lemma lf_step_delivered:
  assumes ok: "lf_ok config W key s" and W: "\<forall>e \<in> W. stamped e"
  shows "lf_ok config W key (send_delivered s i t) \<and> lf_evolves W key s (send_delivered s i t)"
proof (cases "send_delivered s i t = s")
  case True
  then show ?thesis using ok lf_evolves_refl [OF ok] by simp
next
  case False
  let ?wr = "lfc_writes s ! i"
  let ?e = "rreq_entry (lw_request ?wr)"
  let ?k = "rreq_key (lw_request ?wr)"
  let ?s' = "send_delivered s i t"
  let ?c = "(lw_calls ?wr ! t)\<lparr>lcall_reply := Some (fst (replicate_key (lfc_followers s t) (lw_request ?wr)))\<rparr>"
  let ?wr' = "?wr\<lparr>lw_calls := (lw_calls ?wr)[t := ?c]\<rparr>"
  let ?followers = "(lfc_followers s)(t := snd (kv_put_entry (lfc_followers s t) ?k ?e))"
  have i: "i < length (lfc_writes s)" "t < length (lw_calls ?wr)"
    and s': "?s' = s\<lparr>lfc_followers := ?followers, lfc_writes := (lfc_writes s)[i := ?wr']\<rparr>"
    using False by (auto simp: send_delivered_def Let_def case_prod_beta split: if_splits)
  have st: "store_ok W key (lfc_leader s)" "\<And>t. store_ok W key (lfc_followers s t)"
    using ok by (auto simp: lf_ok_def)
  have inW: "?k = key \<Longrightarrow> ?e \<in> W"
    using ok i(1) by (auto simp: lf_ok_def lw_ok_def Let_def)
  have ev: "lf_evolves W key s ?s'"
    using evolves_put [OF st(2) W inW] st by (simp add: s' lf_evolves_def evolves_refl)
  moreover have "lf_ok config W key ?s'"
  proof (rule lf_ok_update [OF ok i(1) _ ev, of ?wr'])
    assume k: "rreq_key (lw_request ?wr') = key" and "lw_ok config W key (lfc_leader ?s') (lfc_followers ?s') ?wr"
    moreover have "holds (?followers t) key ?e"
      using put_entry_holds [OF st(2) W inW] k by simp
    moreover have "acked_calls ?wr' = acked_calls ?wr"
      using i(2) by (auto simp: acked_calls_def nth_list_update split: if_splits)
    ultimately show "lw_ok config W key (lfc_leader ?s') (lfc_followers ?s') ?wr'"
      using i(2) by (auto simp: s' lw_ok_def acks_ok_def Let_def nth_list_update)
  qed (simp_all add: s')
  ultimately show ?thesis by blast
qed

lemma lf_step_ended:
  assumes ok: "lf_ok config W key s"
  shows "lf_ok config W key (send_ended s i t was_closed r) \<and> lf_evolves W key s (send_ended s i t was_closed r)"
proof (cases "send_ended s i t was_closed r = s")
  case True
  then show ?thesis using ok lf_evolves_refl [OF ok] by simp
next
  case False
  let ?wr = "lfc_writes s ! i"
  let ?c = "(lw_calls ?wr ! t)\<lparr>lcall_result := Some (send_task was_closed r)\<rparr>"
  let ?wr' = "?wr\<lparr>lw_calls := (lw_calls ?wr)[t := ?c]\<rparr>"
  let ?s' = "send_ended s i t was_closed r"
  have i: "i < length (lfc_writes s)" "t < length (lw_calls ?wr)" "send_may_end (lw_calls ?wr ! t) was_closed r"
    and s': "?s' = s\<lparr>lfc_writes := (lfc_writes s)[i := ?wr']\<rparr>"
    using False by (auto simp: send_ended_def Let_def split: if_splits)
  have ev: "lf_evolves W key s ?s'"
    by (rule lf_evolves_refl [OF ok]) (simp_all add: s')
  have "acked_calls ?wr \<subseteq> acked_calls ?wr'" "finite (acked_calls ?wr')"
    using i(2,3) by (auto simp: acked_calls_def send_may_end_def nth_list_update)
  then have "card (acked_calls ?wr) \<le> card (acked_calls ?wr')" by (rule card_mono [rotated])
  then have "acks_ok config ?wr'" if "acks_ok config ?wr"
    using that i(2,3) by (auto simp: acks_ok_def send_may_end_def nth_list_update)
  then have "lf_ok config W key ?s'"
    using i(2) by (intro lf_ok_update [OF ok i(1) _ ev, of ?wr']) (auto simp: s' lw_ok_def nth_list_update Let_def)
  with ev show ?thesis by blast
qed

lemma lf_step_pass:
  assumes ok: "lf_ok config W key s"
  shows "lf_ok config W key (put_pass config s i remaining ev) \<and>
    lf_evolves W key s (put_pass config s i remaining ev)"
proof (cases "put_pass config s i remaining ev = s")
  case True
  then show ?thesis using ok lf_evolves_refl [OF ok] by simp
next
  case False
  let ?wr' = "put_pass_write config remaining ev (lfc_writes s ! i)"
  let ?s' = "put_pass config s i remaining ev"
  have i: "i < length (lfc_writes s)" "lw_answer (lfc_writes s ! i) = None"
    and s': "?s' = s\<lparr>lfc_writes := (lfc_writes s)[i := ?wr']\<rparr>"
    using False by (auto simp: put_pass_def Let_def split: if_splits)
  have ev: "lf_evolves W key s ?s'"
    by (rule lf_evolves_refl [OF ok]) (simp_all add: s')
  have "lf_ok config W key ?s'"
    using acks_ok_pass [OF _ i(2)]
    by (intro lf_ok_update [OF ok i(1) _ ev, of ?wr']) (auto simp: s' lw_ok_def Let_def)
  with ev show ?thesis by blast
qed

lemma lf_ok_step:
  assumes "lf_ok config W key s" "\<forall>e \<in> W. stamped e" "lf_allowed node_id fid W key a"
  shows "lf_ok config W key (lf_step config node_id fid s a) \<and> lf_evolves W key s (lf_step config node_id fid s a)"
proof (cases a)
  case (Leader_request r)
  then show ?thesis using lf_step_leader [OF assms(1,2) _ refl] assms(3) by simp
next
  case (Follower_request t r)
  then show ?thesis using lf_step_follower [OF assms(1,2) _ refl] assms(3) by simp
qed (use assms lf_step_delivered lf_step_ended lf_step_pass in simp_all)

lemma lf_ok_run:
  assumes "lf_ok config W key s" "\<forall>e \<in> W. stamped e" "\<And>a. a \<in> set acts \<Longrightarrow> lf_allowed node_id fid W key a"
  shows "lf_ok config W key (lf_run config node_id fid acts s) \<and> lf_evolves W key s (lf_run config node_id fid acts s)"
proof (rule lf_run_induct)
  show "lf_ok config W key s \<and> lf_evolves W key s s" using assms(1) lf_evolves_refl [OF assms(1)] by simp
  fix a s'
  assume a: "a \<in> set acts" and s': "lf_ok config W key s' \<and> lf_evolves W key s s'"
  then have "lf_ok config W key (lf_step config node_id fid s' a) \<and> lf_evolves W key s' (lf_step config node_id fid s' a)"
    using lf_ok_step [OF _ assms(2) assms(3) [OF a]] by simp
  then show "lf_ok config W key (lf_step config node_id fid s' a) \<and> lf_evolves W key s (lf_step config node_id fid s' a)"
    using s' by (auto simp: lf_evolves_def evolves_def)
qed

section \<open>Where stored versions come from\<close>

text \<open>
  \<open>lf_sole\<close>: the key is written by \<open>PUT\<close> at the leader only. Then every stored version of it is the one of
  a write the leader replicates.
\<close>

fun lf_sole :: "string \<Rightarrow> 'v lf_action \<Rightarrow> bool" where
  "lf_sole key (Leader_request (Req_replicate body)) = (rreq_key body \<noteq> key)"
| "lf_sole key (Follower_request t r) = (request_entry '''' key r = None)"
| "lf_sole key _ = True"

definition lf_sources :: "string \<Rightarrow> 'v lf_cluster \<Rightarrow> 'v versioned_value set" where
  "lf_sources key s = rreq_entry ` {req \<in> lw_request ` set (lfc_writes s). rreq_key req = key}"

definition lf_attributed :: "string \<Rightarrow> 'v lf_cluster \<Rightarrow> bool" where
  "lf_attributed key s \<longleftrightarrow>
     (\<forall>st \<in> insert (lfc_leader s) (range (lfc_followers s)). \<forall>c. kv_get st key = Some c \<longrightarrow> c \<in> lf_sources key s)"

lemma lf_sources_update:
  assumes "i < length (lfc_writes s)" "lw_request wr = lw_request (lfc_writes s ! i)"
    and "lfc_writes s' = (lfc_writes s)[i := wr]"
  shows "lf_sources key s' = lf_sources key s"
proof -
  have "map lw_request (lfc_writes s') = map lw_request (lfc_writes s)"
    using assms by (simp add: map_update list_update_same_conv)
  then have "lw_request ` set (lfc_writes s') = lw_request ` set (lfc_writes s)"
    by (metis list.set_map)
  then show ?thesis by (simp add: lf_sources_def)
qed

lemma lf_attributed_same:
  assumes "lf_attributed key s" "lf_sources key s \<subseteq> lf_sources key s'"
    and "\<And>c. kv_get (lfc_leader s') key = Some c \<Longrightarrow> kv_get (lfc_leader s) key = Some c \<or> c \<in> lf_sources key s'"
    and "\<And>t c. kv_get (lfc_followers s' t) key = Some c \<Longrightarrow>
      kv_get (lfc_followers s t) key = Some c \<or> c \<in> lf_sources key s'"
  shows "lf_attributed key s'"
  using assms unfolding lf_attributed_def by blast

lemma serve_get:
  "kv_get (snd (serve node_id r st)) key = Some c \<Longrightarrow> request_entry node_id key r = Some c \<or> kv_get st key = Some c"
  unfolding serve_store by (cases r) (auto simp: store_simps split: if_splits)

lemma request_entry_None: "request_entry n key r = None \<longleftrightarrow> request_entry n' key r = None"
  by (cases r) auto

lemma lf_sources_start:
  "lf_sources key (lf_start_put config node_id s k body now) =
     lf_sources key s \<union> {e. request_entry node_id key (Req_put k body now) = Some e}"
proof -
  have "lw_request ` set (lfc_writes (lf_start_put config node_id s k body now)) =
    insert \<lparr>rreq_key = k, rreq_value = preq_value body, rreq_timestamp = now, rreq_node_id = node_id\<rparr>
      (lw_request ` set (lfc_writes s))"
    by (simp add: lf_start_put_def Let_def case_prod_beta)
  moreover have "{req \<in> insert q A. rreq_key req = key} =
      (if rreq_key q = key then insert q {req \<in> A. rreq_key req = key} else {req \<in> A. rreq_key req = key})"
    for q :: "'a replicate_request" and A
    by auto
  ultimately show ?thesis by (simp add: lf_sources_def rreq_entry_def)
qed

lemma lf_start_put_stores:
  "lfc_leader (lf_start_put config node_id s k body now) = snd (serve node_id (Req_put k body now) (lfc_leader s))"
  "lfc_followers (lf_start_put config node_id s k body now) = lfc_followers s"
  by (simp_all add: lf_start_put_def put_key_def Let_def case_prod_beta)

lemma lf_attributed_leader:
  assumes "lf_attributed key s" "lf_sole key (Leader_request r)"
  shows "lf_attributed key (lf_step config node_id fid s (Leader_request r))"
proof (cases "\<exists>k body now. r = Req_put k body now")
  case True
  then show ?thesis
    by (intro lf_attributed_same [OF assms(1)])
      (auto simp: lf_sources_start lf_start_put_stores simp del: serve.simps request_entry.simps dest: serve_get)
next
  case False
  then have s': "lf_step config node_id fid s (Leader_request r) = s\<lparr>lfc_leader := snd (serve node_id r (lfc_leader s))\<rparr>"
    by (cases r) auto
  have none: "request_entry node_id key r = None"
    using False assms(2) by (cases r) auto
  show ?thesis
    unfolding s' using none
    by (intro lf_attributed_same [OF assms(1)]) (auto simp: lf_sources_def dest: serve_get)
qed

lemma lf_attributed_delivered:
  assumes "lf_attributed key s"
  shows "lf_attributed key (send_delivered s i t)"
proof (cases "send_delivered s i t = s")
  case False
  let ?s' = "send_delivered s i t"
  have i: "i < length (lfc_writes s)" using False by (auto simp: send_delivered_def split: if_splits)
  have src: "lf_sources key ?s' = lf_sources key s"
    using False by (intro lf_sources_update [OF i]) (auto simp: send_delivered_def Let_def case_prod_beta split: if_splits)
  have leader: "lfc_leader ?s' = lfc_leader s"
    by (simp add: send_delivered_def Let_def case_prod_beta)
  have followers: "c \<in> lf_sources key ?s'"
    if "kv_get (lfc_followers ?s' u) key = Some c" "kv_get (lfc_followers s u) key \<noteq> Some c" for u c
    using that i unfolding src
    by (auto simp: send_delivered_def lf_sources_def store_simps Let_def case_prod_beta split: if_splits)
  show ?thesis
    by (rule lf_attributed_same [OF assms]) (use src leader followers in auto)
qed (use assms in simp)

lemma lf_sources_rounds:
  "lf_sources key (send_ended s i t was_closed r) = lf_sources key s"
  "lf_sources key (put_pass config s i remaining ev) = lf_sources key s"
proof -
  show "lf_sources key (send_ended s i t was_closed r) = lf_sources key s"
  proof (cases "send_ended s i t was_closed r = s")
    case False
    then have "i < length (lfc_writes s)" by (auto simp: send_ended_def split: if_splits)
    then show ?thesis
      using False by (intro lf_sources_update) (auto simp: send_ended_def Let_def split: if_splits)
  qed simp
  show "lf_sources key (put_pass config s i remaining ev) = lf_sources key s"
  proof (cases "put_pass config s i remaining ev = s")
    case False
    then have "i < length (lfc_writes s)" by (auto simp: put_pass_def split: if_splits)
    then show ?thesis
      using False by (intro lf_sources_update) (auto simp: put_pass_def Let_def split: if_splits)
  qed simp
qed

lemma lf_attributed_step:
  assumes "lf_attributed key s" "lf_sole key a"
  shows "lf_attributed key (lf_step config node_id fid s a)"
proof (cases a)
  case (Leader_request r)
  then show ?thesis using lf_attributed_leader assms by blast
next
  case (Follower_request t r)
  then have "request_entry (fid t) key r = None"
    using assms(2) request_entry_None by auto
  then show ?thesis
    unfolding Follower_request
    by (intro lf_attributed_same [OF assms(1)]) (auto simp: lf_sources_def dest: serve_get split: if_splits)
next
  case (Send_delivered i t)
  then show ?thesis using lf_attributed_delivered [OF assms(1)] by simp
next
  case (Send_ended i t was_closed r)
  then show ?thesis
    using lf_sources_rounds(1) [of key s i t was_closed r]
    by (intro lf_attributed_same [OF assms(1)]) (auto simp: send_ended_def Let_def split: if_splits)
next
  case (Put_pass i remaining ev)
  then show ?thesis
    using lf_sources_rounds(2) [of key config s i remaining ev]
    by (intro lf_attributed_same [OF assms(1)]) (auto simp: put_pass_def Let_def split: if_splits)
qed

lemma lf_attributed_run:
  assumes "\<forall>a \<in> set acts. lf_sole key a"
  shows "lf_attributed key (lf_run config node_id fid acts lf_init)"
proof (rule lf_run_induct)
  show "lf_attributed key lf_init" by (simp add: lf_attributed_def lf_init_def store_simps)
qed (use assms lf_attributed_step in blast)

section \<open>Passes against the loop\<close>

text \<open>The passes of one write over calls whose results are settled, up to a bound on their number.\<close>

fun put_passes ::
    "leader_config \<Rightarrow> (nat \<Rightarrow> pyfloat \<times> wait_event) \<Rightarrow> pyfloat \<Rightarrow> nat \<Rightarrow> nat \<Rightarrow> 'v leader_write \<Rightarrow> 'v leader_write" where
  "put_passes config env deadline 0 i wr = wr"
| "put_passes config env deadline (Suc fuel) i wr =
     (if lw_answer wr \<noteq> None then wr
      else put_passes config env deadline fuel (Suc i)
             (put_pass_write config (fsub deadline (fst (env i))) (snd (env i)) wr))"

lemma put_passes_done: "lw_answer wr = Some a \<Longrightarrow> put_passes config env deadline fuel i wr = wr"
  by (cases fuel) simp_all

lemma put_passes_loop:
  assumes "wait_loop (count_acks (send_result (lw_calls wr))) (\<lambda>acked. acked) env deadline (lc_ack_required config) i
      (lw_pending wr) (lw_acked wr) = (res, left)"
    and "length (lw_pending wr) < fuel" "lw_answer wr = None"
  shows "lw_answer (put_passes config env deadline fuel i wr) =
      Some (resolve_put_leader config (lw_applied wr) (rreq_timestamp (lw_request wr)) res) \<and>
    lw_pending (put_passes config env deadline fuel i wr) = left"
  using assms
proof (induction fuel arbitrary: i wr)
  case 0
  then show ?case by simp
next
  case (Suc fuel)
  let ?count = "count_acks (send_result (lw_calls wr))"
  show ?case
  proof (cases "lw_pending wr \<noteq> [] \<and> lw_acked wr < lc_ack_required config")
    case False
    then have "(res, left) = (Inr (lw_acked wr), lw_pending wr)"
      using Suc.prems(1) wait_loop_enough [of "lw_pending wr" "lc_ack_required config" "\<lambda>acked. acked" "lw_acked wr" ?count]
      by auto
    with False Suc.prems(3) show ?thesis
      by (auto simp: put_pass_write_def put_passes_done Let_def)
  next
    case True
    define r where "r = wait_round ?count (fsub deadline (fst (env i))) (snd (env i)) (lw_pending wr) (lw_acked wr)"
    have loop: "(case r of Round_next p a \<Rightarrow>
          wait_loop ?count (\<lambda>acked. acked) env deadline (lc_ack_required config) (Suc i) p a
        | Round_break p a \<Rightarrow> (Inr a, p) | Round_raise e p \<Rightarrow> (Inl e, p)) = (res, left)"
      using Suc.prems(1) True by (simp add: wait_loop.simps [of ?count] r_def)
    show ?thesis
    proof (cases r)
      case (Round_next p a)
      then have "length p < length (lw_pending wr)"
        unfolding r_def by (auto elim!: wait_round_cases dest: asyncio_wait_shrinks)
      then show ?thesis
        using Suc.IH [of "wr\<lparr>lw_pending := p, lw_acked := a\<rparr>" "Suc i"] Suc.prems(2,3) loop Round_next True
        by (simp add: put_pass_write_def r_def)
    qed (use loop True Suc.prems(3) in \<open>auto simp: put_pass_write_def put_passes_done r_def\<close>)
  qed
qed

section \<open>What an acknowledged write is worth\<close>

lemma lf_clean_run_ok:
  assumes "s = lf_run config node_id fid acts lf_init" "s' = lf_run config node_id fid acts' s"
    and "lf_clean node_id fid key (acts @ acts')"
  shows "lf_ok config (lf_written node_id fid key (acts @ acts')) key s \<and>
    lf_evolves (lf_written node_id fid key (acts @ acts')) key s s'"
proof -
  let ?W = "lf_written node_id fid key (acts @ acts')"
  have al: "lf_allowed node_id fid ?W key a" if "a \<in> set acts \<union> set acts'" for a
    using lf_clean_allowed [OF assms(3)] that by simp
  note W = lf_clean_written [OF assms(3)]
  have "lf_ok config ?W key s" unfolding assms(1) using lf_ok_run [OF lf_ok_init W al] by blast
  then show ?thesis unfolding assms(2) using lf_ok_run [OF _ W al] by blast
qed

lemma acked_write_held:
  assumes "s = lf_run config node_id fid acts lf_init" "s' = lf_run config node_id fid acts' s"
    and "lf_clean node_id fid key (acts @ acts')"
    and "wr \<in> set (lfc_writes s)" "rreq_key (lw_request wr) = key" "lw_answer wr = Some (Http_ok resp)"
  shows "holds (lfc_leader s') key (rreq_entry (lw_request wr)) \<and>
    lc_ack_required config \<le>
      int (card {t \<in> follower_tasks config. holds (lfc_followers s' t) key (rreq_entry (lw_request wr))}) \<and>
    (lc_ack_required config = int (length (lc_followers config)) \<longrightarrow>
      (\<forall>t \<in> follower_tasks config. holds (lfc_followers s' t) key (rreq_entry (lw_request wr))))"
proof -
  let ?F = "{t \<in> follower_tasks config. holds (lfc_followers s' t) key (rreq_entry (lw_request wr))}"
  have wok: "lw_ok config (lf_written node_id fid key (acts @ acts')) key (lfc_leader s') (lfc_followers s') wr"
    using lf_clean_run_ok [OF assms(1-3)] assms(4,5) by (auto simp: lf_ok_def intro: lw_ok_mono [of _ _ _ s])
  then have "acked_calls wr \<subseteq> ?F" by (auto simp: lw_ok_def acks_ok_def acked_calls_def Let_def)
  then have "card (acked_calls wr) \<le> card ?F" by (rule card_mono [rotated]) simp
  then have count: "lc_ack_required config \<le> int (card ?F)"
    using wok assms(6) by (auto simp: lw_ok_def acks_ok_def Let_def)
  moreover have "?F = follower_tasks config" if "lc_ack_required config = int (length (lc_followers config))"
    by (rule card_seteq) (use count that in auto)
  ultimately show ?thesis using wok by (auto simp: lw_ok_def Let_def)
qed

section \<open>Example runs\<close>

definition follower_name :: "nat \<Rightarrow> string" where
  "follower_name t = ''follower'' @ py_str_of_int (int t + 1)"

definition sent_at :: "rat \<Rightarrow> nat lf_action" where
  "sent_at t = Leader_request (Req_put ''k'' \<lparr>preq_value = 7\<rparr> (Fin t))"

definition acked_run :: "nat lf_action list" where
  "acked_run = [sent_at 5, Send_delivered 0 0, Send_ended 0 0 False ack_call, Put_pass 0 (Fin 2) (Completed [0]),
     Send_delivered 0 1, Send_ended 0 1 False ack_call, Put_pass 0 (Fin 1) (Completed [1]), Put_pass 0 (Fin 1) (Completed [])]"

lemmas lf_eval = lf_init_def lf_start_put_def send_delivered_def send_ended_def send_may_end_def put_pass_def
  put_pass_write_def sends_possible_def send_result_def send_task_def resolve_put_leader_def wait_round_def
  asyncio_wait_def replicate_key_def kv_put_def kv_init_def kv_get_def get_key_def is_success_def ack_call_def
  http_error_def sent_at_def numeral_2_eq_2 Let_def

lemma acked_run_answer:
  "map lw_answer (lfc_writes (lf_run (example_leader 2) ''leader'' fid acked_run lf_init)) =
     [Some (Http_ok \<lparr>pres_applied = True, pres_timestamp = Fin 5\<rparr>)]"
  by (simp add: acked_run_def lf_eval)

section \<open>Properties\<close>

text \<open>A \<open>GET\<close> of the key on the store answers 200 with a version not older than \<open>e\<close>.\<close>

definition serves :: "'v kvstore \<Rightarrow> string \<Rightarrow> 'v versioned_value \<Rightarrow> bool" where
  "serves st key e \<longleftrightarrow>
     (case get_key st key of
        Http_ok resp \<Rightarrow> kres_key resp = key \<and> stamp e \<le> (kres_timestamp resp, kres_node_id resp)
      | _ \<Rightarrow> False)"

lemma serves_holds [simp]: "serves st key e = holds st key e"
  by (auto simp: serves_def get_key_def holds_def stamp_def split: option.splits)

text \<open>
  C6. What an acknowledged write is worth: from the moment the leader has answered a write of a key with
  200, in every later state, the leader and at least \<open>ack_required\<close> of its followers answer a \<open>GET\<close> of the
  key with that version or a newer one, as long as the key is not deleted and its writes carry real
  timestamps; with \<open>ack_required\<close> equal to the number of followers every one of
  them does, so no read anywhere is stale. This holds for every interleaving and loss, and whatever else is
  requested at the leader or at the followers.
\<close>

theorem leader_acked_write_served:
  assumes "s = lf_run config node_id fid acts lf_init" "s' = lf_run config node_id fid acts' s"
    and "lf_clean node_id fid key (acts @ acts')"
    and "wr \<in> set (lfc_writes s)" "rreq_key (lw_request wr) = key" "lw_answer wr = Some (Http_ok resp)"
  shows "serves (lfc_leader s') key (rreq_entry (lw_request wr)) \<and>
    lc_ack_required config \<le>
      int (card {t \<in> follower_tasks config. serves (lfc_followers s' t) key (rreq_entry (lw_request wr))}) \<and>
    (lc_ack_required config = int (length (lc_followers config)) \<longrightarrow>
      (\<forall>t \<in> follower_tasks config. serves (lfc_followers s' t) key (rreq_entry (lw_request wr))))"
  using acked_write_held [OF assms] by simp

theorem leader_acked_write_served_witness:
  "\<exists>e :: nat versioned_value. stamp e = (Fin 5, ''leader'') \<and>
     serves (lfc_followers (lf_run (example_leader 2) ''leader'' follower_name (acked_run @ [sent_at 4]) lf_init) 1) ''k'' e"
proof -
  let ?s = "lf_run (example_leader 2) ''leader'' follower_name acked_run lf_init"
  let ?s' = "lf_run (example_leader 2) ''leader'' follower_name [sent_at 4] ?s"
  obtain wr where wr: "lfc_writes ?s = [wr]" "lw_answer wr = Some (Http_ok \<lparr>pres_applied = True, pres_timestamp = Fin 5\<rparr>)"
    using acked_run_answer [of follower_name] by auto
  have req: "map lw_request (lfc_writes ?s) = [\<lparr>rreq_key = ''k'', rreq_value = 7, rreq_timestamp = Fin 5, rreq_node_id = ''leader''\<rparr>]"
    by (simp add: acked_run_def lf_eval)
  have "\<forall>t \<in> follower_tasks (example_leader 2). serves (lfc_followers ?s' t) ''k'' (rreq_entry (lw_request wr))"
    using leader_acked_write_served [where config = "example_leader 2" and node_id = "''leader''" and fid = follower_name and
        acts = acked_run and acts' = "[sent_at 4]" and key = "''k''" and wr = wr and
        resp = "\<lparr>pres_applied = True, pres_timestamp = Fin 5\<rparr>", OF refl refl] wr req
    by (simp add: lf_clean_def acked_run_def sent_at_def)
  then have "serves (lfc_followers ?s' 1) ''k'' (rreq_entry (lw_request wr))" by simp
  moreover have "stamp (rreq_entry (lw_request wr)) = (Fin 5, ''leader'')"
    using wr req by (simp add: stamp_def rreq_entry_def)
  ultimately show ?thesis unfolding lf_run_append by blast
qed

text \<open>
  C34. The bound is exact: with fewer acks required than there are followers, a write can be answered 200
  while a follower that was not among the acks answers 404 to a read started afterwards.
\<close>

theorem leader_weak_ack_read_misses:
  "\<exists>acts :: nat lf_action list. let s = lf_run (example_leader 1) ''leader'' follower_name acts lf_init in
     lf_clean ''leader'' follower_name ''k'' acts \<and>
     map (map_option http_status \<circ> lw_answer) (lfc_writes s) = [Some 200] \<and>
     http_status (get_key (lfc_followers s 1) ''k'') = 404"
proof (rule exI)
  show "let s = lf_run (example_leader 1) ''leader'' follower_name
      [sent_at 5, Send_delivered 0 0, Send_ended 0 0 False ack_call, Put_pass 0 (Fin 2) (Completed [0]),
       Put_pass 0 (Fin 1) (Completed [])] lf_init in
     lf_clean ''leader'' follower_name ''k''
      [sent_at 5, Send_delivered 0 0, Send_ended 0 0 False ack_call, Put_pass 0 (Fin 2) (Completed [0]),
       Put_pass 0 (Fin 1) (Completed [])] \<and>
     map (map_option http_status \<circ> lw_answer) (lfc_writes s) = [Some 200] \<and>
     http_status (get_key (lfc_followers s 1) ''k'') = 404"
    by (simp add: lf_eval lf_clean_def)
qed

text \<open>
  C7. Where \<open>PUT\<close> at the leader is the only way a key is written, no follower is ever ahead of the leader:
  each version a follower holds was stamped by the leader, which still holds it or a newer one. Once every
  replicate call of the key's writes was delivered, in any order, all followers hold exactly the leader's
  version, provided no two different writes share a timestamp. This is so where the key is not deleted, at the
  leader or at a follower, and the leader's clock gives numbers.
\<close>

theorem followers_converge_to_leader:
  assumes "s = lf_run config node_id fid acts lf_init"
    and "lf_clean node_id fid key acts" "\<forall>a \<in> set acts. lf_sole key a"
    and "t < length (lc_followers config)"
  shows "(\<forall>c. kv_get (lfc_followers s t) key = Some c \<longrightarrow> c \<in> lf_sources key s \<and> serves (lfc_leader s) key c) \<and>
    ((\<forall>wr \<in> set (lfc_writes s). rreq_key (lw_request wr) = key \<longrightarrow> (\<forall>c \<in> set (lw_calls wr). lcall_reply c \<noteq> None)) \<longrightarrow>
     inj_on stamp (lf_sources key s) \<longrightarrow>
     kv_get (lfc_followers s t) key = kv_get (lfc_leader s) key)"
proof -
  let ?W = "lf_written node_id fid key acts"
  have ok: "lf_ok config ?W key s"
    unfolding assms(1) using lf_ok_run [OF lf_ok_init lf_clean_written lf_clean_allowed] assms(2) by blast
  have attr: "lf_attributed key s"
    unfolding assms(1) using lf_attributed_run [OF assms(3)] .
  have src: "\<exists>wr \<in> set (lfc_writes s). rreq_key (lw_request wr) = key \<and> rreq_entry (lw_request wr) = c \<and>
      lw_ok config ?W key (lfc_leader s) (lfc_followers s) wr" if "c \<in> lf_sources key s" for c
    using that ok by (auto simp: lf_sources_def lf_ok_def)
  have up: "c \<in> lf_sources key s \<and> holds (lfc_leader s) key c" if "kv_get (lfc_followers s t) key = Some c" for c
  proof -
    have c: "c \<in> lf_sources key s" using attr that by (auto simp: lf_attributed_def)
    with src [OF c] show ?thesis by (auto simp: lw_ok_def Let_def)
  qed
  have "kv_get (lfc_followers s t) key = kv_get (lfc_leader s) key"
    if delivered: "\<forall>wr \<in> set (lfc_writes s). rreq_key (lw_request wr) = key \<longrightarrow> (\<forall>c \<in> set (lw_calls wr). lcall_reply c \<noteq> None)"
      and inj: "inj_on stamp (lf_sources key s)"
  proof (cases "kv_get (lfc_leader s) key")
    case None
    then show ?thesis using up by (cases "kv_get (lfc_followers s t) key") (auto simp: holds_def)
  next
    case (Some d)
    then have d: "d \<in> lf_sources key s" using attr by (auto simp: lf_attributed_def)
    have "holds (lfc_followers s t) key d"
      using src [OF d] delivered assms(4) by (auto simp: lw_ok_def acks_ok_def Let_def)
    then obtain c where c: "kv_get (lfc_followers s t) key = Some c" "stamp d \<le> stamp c"
      by (auto simp: holds_def)
    with up [OF c(1)] Some have "c \<in> lf_sources key s" "stamp c = stamp d"
      by (auto simp: holds_def)
    then show ?thesis using inj d c(1) Some by (auto dest: inj_onD)
  qed
  with up show ?thesis by simp
qed

definition reordered_run :: "nat lf_action list" where
  "reordered_run = [sent_at 5, sent_at 6, Send_delivered 1 0, Send_delivered 0 0, Send_delivered 0 1, Send_delivered 1 1]"

theorem followers_converge_to_leader_witness:
  "kv_get (lfc_followers (lf_run (example_leader 1) ''leader'' follower_name reordered_run lf_init) 0) ''k'' =
   kv_get (lfc_leader (lf_run (example_leader 1) ''leader'' follower_name reordered_run lf_init)) ''k''"
proof -
  let ?s = "lf_run (example_leader 1) ''leader'' follower_name reordered_run lf_init"
  have "lf_clean ''leader'' follower_name ''k'' reordered_run" "\<forall>a \<in> set reordered_run. lf_sole ''k'' a"
    by (simp_all add: reordered_run_def lf_clean_def sent_at_def)
  moreover have "\<forall>wr \<in> set (lfc_writes ?s). rreq_key (lw_request wr) = ''k'' \<longrightarrow> (\<forall>c \<in> set (lw_calls wr). lcall_reply c \<noteq> None)"
    "inj_on stamp (lf_sources ''k'' ?s)"
    by (auto simp: reordered_run_def lf_eval lf_sources_def rreq_entry_def stamp_def is_newer_than_def inj_on_def)
  ultimately show ?thesis
    using followers_converge_to_leader [where config = "example_leader 1" and acts = reordered_run and key = "''k''" and
        t = 0, OF refl] by simp
qed

text \<open>
  A follower that does not apply a replicated write is no sign of another writer or of a clock gone
  wrong: with the leader as the only writer and increasing timestamps, two writes in flight whose calls
  overtake each other make the follower answer \<open>applied\<close> false to the earlier one.
\<close>

theorem overtaken_write_not_applied:
  "let s = lf_run (example_leader 1) ''leader'' follower_name reordered_run lf_init in
     list_all (lf_sole ''k'') reordered_run \<and>
     map (\<lambda>wr. (lw_applied wr, rreq_timestamp (lw_request wr))) (lfc_writes s) = [(True, Fin 5), (True, Fin 6)] \<and>
     map lcall_reply (lw_calls (lfc_writes s ! 0)) =
       [Some (Http_ok \<lparr>rres_applied = False\<rparr>), Some (Http_ok \<lparr>rres_applied = True\<rparr>)]"
  by (simp add: reordered_run_def lf_eval is_newer_than_def)

text \<open>
  The steps of the transition system are the handler: a write started at the leader whose calls have
  settled is answered by its passes, within one more pass than there are followers, with exactly what the
  handler answers for the same stores, call results, clock readings and wake-ups, and leaves the store the
  handler leaves.
\<close>

lemma put_passes_refine_put:
  assumes "s' = lf_start_put config node_id s key body now"
    and "wr = last (lfc_writes s')\<lparr>lw_calls := calls\<rparr>"
  shows "lw_answer (put_passes config env (fadd start (lc_timeout_seconds config))
      (Suc (length (lc_followers config))) 0 wr) =
    Some (plo_response (put_key_leader node_id config now (send_result calls) env start (lfc_leader s) key body)) \<and>
    lfc_leader s' = plo_store (put_key_leader node_id config now (send_result calls) env start (lfc_leader s) key body)"
proof -
  obtain res left where loop: "wait_loop (count_acks (send_result calls)) (\<lambda>acked. acked) env
      (fadd start (lc_timeout_seconds config)) (lc_ack_required config) 0 [0..<length (lc_followers config)] 0 = (res, left)"
    by fastforce
  then have "fst (replicator_replicate config (send_result calls) env start) = res"
    by (auto simp: replicator_replicate_def split: sum.split)
  moreover have "lw_answer (put_passes config env (fadd start (lc_timeout_seconds config))
      (Suc (length (lc_followers config))) 0 wr) =
    Some (resolve_put_leader config (lw_applied wr) (rreq_timestamp (lw_request wr)) res)"
    using put_passes_loop [of wr env "fadd start (lc_timeout_seconds config)" config 0 res left "Suc (length (lc_followers config))"] loop
    by (simp add: assms lf_start_put_def Let_def case_prod_beta)
  ultimately show ?thesis
    by (simp add: assms lf_start_put_def put_key_leader_def Let_def case_prod_beta)
qed

end
