(* ===== verification/KV_ResultsDoc.thy ===== *)
theory KV_ResultsDoc
  imports KV_Prelude
begin

text \<open>
  \<open>experiments/_results_doc.py\<close>: the section writer of the results document, as a function from the
  old text of the file to the new one, and what it keeps of the text.
\<close>

section \<open>Sections of the results document\<close>

text \<open>\<open>text.find(sub)\<close>: the first position at which \<open>sub\<close> occurs.\<close>

fun is_prefix :: "string \<Rightarrow> string \<Rightarrow> bool" where
  "is_prefix [] ys = True"
| "is_prefix (x # xs) [] = False"
| "is_prefix (x # xs) (y # ys) = (x = y \<and> is_prefix xs ys)"

fun py_find :: "string \<Rightarrow> string \<Rightarrow> nat option" where
  "py_find sub [] = (if sub = [] then Some 0 else None)"
| "py_find sub (c # cs) =
     (if is_prefix sub (c # cs) then Some 0 else map_option Suc (py_find sub cs))"

definition begin_marker :: "string \<Rightarrow> string" where
  "begin_marker marker = ''<!-- BEGIN:'' @ marker @ '' -->''"

definition end_marker :: "string \<Rightarrow> string" where
  "end_marker marker = ''<!-- END:'' @ marker @ '' -->''"

definition newline :: char where
  "newline = CHR 0x0A"

definition rstrip_newlines :: "string \<Rightarrow> string" where
  "rstrip_newlines s = rev (dropWhile (\<lambda>c. c = newline) (rev s))"

text \<open>The new text of the file; \<open>old\<close> is empty when there is no file yet.\<close>

definition replace_section :: "string \<Rightarrow> string \<Rightarrow> string \<Rightarrow> string" where
  "replace_section old marker content =
     (let begin_text = begin_marker marker;
          end_text = end_marker marker;
          section_text = begin_text @ [newline] @ py_strip content @ [newline] @ end_text;
          appended = (if py_strip old \<noteq> []
            then rstrip_newlines old @ [newline, newline] @ section_text @ [newline]
            else section_text @ [newline])
      in case (py_find begin_text old, py_find end_text old) of
           (Some start_idx, Some end_idx) \<Rightarrow>
             if start_idx < end_idx
             then take start_idx old @ section_text @ drop (end_idx + length end_text) old
             else appended
         | _ \<Rightarrow> appended)"

section \<open>Lemmas: finding markers\<close>

lemma is_prefix_iff: "is_prefix xs ys \<longleftrightarrow> take (length xs) ys = xs"
  by (induction xs ys rule: is_prefix.induct) auto

text \<open>\<open>sub\<close> occurs in \<open>s\<close> at position \<open>i\<close>; \<open>find\<close> is the first such position.\<close>

definition occurs_at :: "string \<Rightarrow> string \<Rightarrow> nat \<Rightarrow> bool" where
  "occurs_at sub s i \<longleftrightarrow> (\<exists>xs ys. s = xs @ sub @ ys \<and> length xs = i)"

lemma occurs_at_0: "occurs_at sub s 0 \<longleftrightarrow> is_prefix sub s"
  unfolding occurs_at_def is_prefix_iff by (auto simp: append_eq_conv_conj) (metis append_take_drop_id)

lemma occurs_at_Suc: "occurs_at sub (c # s) (Suc i) \<longleftrightarrow> occurs_at sub s i"
  unfolding occurs_at_def by (auto simp: Cons_eq_append_conv) (metis append_Cons length_Cons)

lemma occurs_at_length: "occurs_at sub s i \<Longrightarrow> i + length sub \<le> length s"
  by (auto simp: occurs_at_def)

lemma occurs_at_append: "occurs_at sub s i \<Longrightarrow> occurs_at sub (s @ t) i"
  unfolding occurs_at_def by (metis append.assoc)

lemma py_find_spec:
  assumes "sub \<noteq> []"
  shows "case py_find sub s of
           Some i \<Rightarrow> occurs_at sub s i \<and> (\<forall>k < i. \<not> occurs_at sub s k)
         | None \<Rightarrow> \<forall>k. \<not> occurs_at sub s k"
proof (induction s)
  case Nil
  then show ?case using assms occurs_at_length [of sub "[]"] by fastforce
next
  case (Cons c s)
  have all: "(\<forall>k. \<not> occurs_at sub (c # s) k) \<longleftrightarrow> \<not> is_prefix sub (c # s) \<and> (\<forall>k. \<not> occurs_at sub s k)"
    by (metis occurs_at_0 occurs_at_Suc not0_implies_Suc)
  have "(\<forall>k < Suc i. \<not> occurs_at sub (c # s) k) \<longleftrightarrow> \<not> is_prefix sub (c # s) \<and> (\<forall>k < i. \<not> occurs_at sub s k)" for i
    by (auto simp: occurs_at_0 occurs_at_Suc less_Suc_eq_0_disj)
  then show ?case
    using Cons.IH all by (auto simp: occurs_at_0 occurs_at_Suc split: option.splits)
qed

lemma py_find_SomeI:
  "sub \<noteq> [] \<Longrightarrow> occurs_at sub s i \<Longrightarrow> (\<And>k. k < i \<Longrightarrow> \<not> occurs_at sub s k) \<Longrightarrow> py_find sub s = Some i"
  using py_find_spec [of sub s] by (auto split: option.splits) (metis linorder_neqE_nat)

lemma py_find_SomeD:
  "sub \<noteq> [] \<Longrightarrow> py_find sub s = Some i \<Longrightarrow> occurs_at sub s i"
  "sub \<noteq> [] \<Longrightarrow> py_find sub s = Some i \<Longrightarrow> k < i \<Longrightarrow> \<not> occurs_at sub s k"
  using py_find_spec [of sub s] by auto

lemma py_find_None_iff: "sub \<noteq> [] \<Longrightarrow> py_find sub s = None \<longleftrightarrow> (\<forall>k. \<not> occurs_at sub s k)"
  using py_find_spec [of sub s] by (auto split: option.splits)

lemma py_find_here [simp]: "sub \<noteq> [] \<Longrightarrow> py_find sub (sub @ xs) = Some 0"
  by (rule py_find_SomeI) (auto simp: occurs_at_def)

lemma py_find_split:
  assumes "sub \<noteq> []" "py_find sub s = Some i"
  shows "s = take i s @ sub @ drop (i + length sub) s" and "py_find sub (take i s @ sub) = Some i"
proof -
  obtain xs ys where s: "s = xs @ sub @ ys" "length xs = i"
    using py_find_SomeD(1) [OF assms] by (auto simp: occurs_at_def)
  have parts: "take i s = xs" "drop (i + length sub) s = ys"
    unfolding s(1) using s(2) by simp_all
  show "s = take i s @ sub @ drop (i + length sub) s" unfolding parts by (rule s(1))
  have "\<not> occurs_at sub (xs @ sub) k" if "k < i" for k
    using py_find_SomeD(2) [OF assms that] occurs_at_append [of sub "xs @ sub" k ys] s(1) by auto
  moreover have "occurs_at sub (xs @ sub) i"
    unfolding occurs_at_def using s(2) by (intro exI [of _ xs] exI [of _ "[]"]) simp
  ultimately have "py_find sub (xs @ sub) = Some i"
    using assms(1) by (blast intro: py_find_SomeI)
  then show "py_find sub (take i s @ sub) = Some i" unfolding parts .
qed

text \<open>No occurrence fits into a prefix that ends before the first one does.\<close>

lemma py_find_none_prefix:
  assumes "sub \<noteq> []" "py_find sub (xs @ ys) = Some j" "length xs < j + length sub"
  shows "py_find sub xs = None"
  unfolding py_find_None_iff [OF assms(1)]
proof (intro allI notI)
  fix k
  assume k: "occurs_at sub xs k"
  then have "k < j" using occurs_at_length [OF k] assms(3) by simp
  then show False using py_find_SomeD(2) [OF assms(1,2)] occurs_at_append [OF k] by blast
qed

lemma py_find_none_prefix_none: "sub \<noteq> [] \<Longrightarrow> py_find sub (xs @ ys) = None \<Longrightarrow> py_find sub xs = None"
  by (meson occurs_at_append py_find_None_iff)

text \<open>A text without line breaks lies in one line.\<close>

lemma is_prefix_line:
  "newline \<notin> set sub \<Longrightarrow> is_prefix sub (xs @ newline # ys) \<longleftrightarrow> is_prefix sub xs"
proof (induction sub xs rule: is_prefix.induct)
  case (2 x xs)
  then show ?case by (cases "x = newline") simp_all
qed auto

lemma py_find_line:
  assumes "newline \<notin> set sub" "sub \<noteq> []"
  shows "py_find sub (xs @ newline # ys) =
    (case py_find sub xs of
       Some i \<Rightarrow> Some i
     | None \<Rightarrow> map_option (\<lambda>i. i + length xs + 1) (py_find sub ys))"
proof (induction xs)
  case Nil
  have "\<not> is_prefix sub (newline # ys)"
    using assms is_prefix_line [of sub "[]" ys] by (cases sub) auto
  then show ?case using assms(2) by (auto simp: option.map_comp o_def)
next
  case (Cons x xs)
  have "is_prefix sub (x # xs @ newline # ys) \<longleftrightarrow> is_prefix sub (x # xs)"
    using is_prefix_line [OF assms(1), of "x # xs" ys] by simp
  then show ?case using Cons by (auto simp: option.map_comp o_def split: option.split)
qed

section \<open>Lemmas: writing a section twice\<close>

text \<open>A marker that is one line and does not look like another marker.\<close>

definition marker_ok :: "string \<Rightarrow> bool" where
  "marker_ok m \<longleftrightarrow> newline \<notin> set m \<and> CHR ''<'' \<notin> set m"

lemma markers [simp]:
  "begin_marker m \<noteq> []" "end_marker m \<noteq> []"
  "marker_ok m \<Longrightarrow> newline \<notin> set (begin_marker m)" "marker_ok m \<Longrightarrow> newline \<notin> set (end_marker m)"
  by (simp_all add: begin_marker_def end_marker_def marker_ok_def newline_def)

lemma begin_marker_lt: "marker_ok m \<Longrightarrow> 0 < k \<Longrightarrow> k < length (begin_marker m) \<Longrightarrow> begin_marker m ! k \<noteq> CHR ''<''"
  by (cases k) (auto simp: begin_marker_def marker_ok_def nth_append nth_Cons' in_set_conv_nth)

lemma end_marker_hd: "occurs_at (end_marker m) s k \<Longrightarrow> s ! k = CHR ''<''"
  by (auto simp: occurs_at_def end_marker_def nth_append)

lemma end_not_in_begin:
  assumes "marker_ok m"
  shows "py_find (end_marker m) (begin_marker m) = None"
  unfolding py_find_None_iff [OF markers(2)]
proof (intro allI notI)
  fix k
  assume o: "occurs_at (end_marker m) (begin_marker m) k"
  have "k < length (begin_marker m)"
    using occurs_at_length [OF o] by (simp add: end_marker_def)
  then have "k = 0" using end_marker_hd [OF o] begin_marker_lt [OF assms, of k] by auto
  then show False using o by (simp add: occurs_at_0 begin_marker_def end_marker_def)
qed

definition section_text :: "string \<times> string \<Rightarrow> string" where
  "section_text = (\<lambda>(m, c). begin_marker m @ [newline] @ c @ [newline] @ end_marker m)"

definition section_of :: "string \<Rightarrow> string \<Rightarrow> string" where
  "section_of m content = section_text (m, py_strip content)"

text \<open>A text in which the first markers delimit a section, with the place it has in it.\<close>

definition holds_section :: "string \<Rightarrow> string \<Rightarrow> bool" where
  "holds_section m before \<longleftrightarrow>
     py_find (begin_marker m) (before @ begin_marker m) = Some (length before) \<and>
     py_find (end_marker m) (before @ begin_marker m) = None"

lemma held_section_found:
  assumes "marker_ok m" "holds_section m before" "py_find (end_marker m) c = None"
  shows "py_find (begin_marker m) (before @ section_text (m, c) @ rest) = Some (length before)"
    and "py_find (end_marker m) (before @ section_text (m, c) @ rest) =
      Some (length before + length (begin_marker m) + length c + 2)"
proof -
  let ?b = "begin_marker m" and ?e = "end_marker m"
  have t: "before @ section_text (m, c) @ rest = (before @ ?b) @ newline # (c @ newline # (?e @ rest))"
    by (simp add: section_text_def)
  show "py_find ?b (before @ section_text (m, c) @ rest) = Some (length before)"
    unfolding t using assms(1,2) by (subst py_find_line) (simp_all add: holds_section_def)
  show "py_find ?e (before @ section_text (m, c) @ rest) = Some (length before + length ?b + length c + 2)"
    unfolding t
    using py_find_line [of ?e "before @ ?b" "c @ newline # (?e @ rest)"] py_find_line [of ?e c "?e @ rest"]
      assms by (simp add: holds_section_def)
qed

lemma replace_held_section:
  assumes "marker_ok m" "holds_section m before" "py_find (end_marker m) c1 = None"
  shows "replace_section (before @ section_text (m, c1) @ rest) m c2 = before @ section_of m c2 @ rest"
proof -
  define t where "t = before @ section_text (m, c1) @ rest"
  have "drop (length before + length (begin_marker m) + length c1 + 2 + length (end_marker m)) t = rest"
    "take (length before) t = before"
    by (simp_all add: t_def section_text_def)
  then show ?thesis
    using held_section_found [OF assms, of rest]
    unfolding t_def [symmetric] by (simp add: replace_section_def section_of_def section_text_def)
qed

text \<open>Either no marker of the section is there yet, or its first markers are in order.\<close>

definition document_ok :: "string \<Rightarrow> string \<Rightarrow> bool" where
  "document_ok old m \<longleftrightarrow>
     (case (py_find (begin_marker m) old, py_find (end_marker m) old) of
        (None, None) \<Rightarrow> True
      | (Some i, Some j) \<Rightarrow> i < j
      | _ \<Rightarrow> False)"

text \<open>A section that is not in the document is appended, one that is replaced where it stands.\<close>

lemma replace_section_append:
  assumes "marker_ok m" "document_ok old m" and None: "py_find (begin_marker m) old = None"
  shows "\<exists>before rest. holds_section m before \<and> (\<forall>c. replace_section old m c = before @ section_of m c @ rest)"
proof -
  let ?b = "begin_marker m" and ?e = "end_marker m" and ?r = "rstrip_newlines old"
  have e: "py_find ?e old = None"
    using assms(2) None by (auto simp: document_ok_def split: option.splits)
  show ?thesis
  proof (cases "py_strip old = []")
    case True
    have "holds_section m []"
      using end_not_in_begin [OF assms(1)] py_find_here [OF markers(1), of m "[]"]
      by (simp add: holds_section_def del: py_find_here)
    then show ?thesis
      using True None by (intro exI [of _ "[]"] exI [of _ "[newline]"])
        (simp add: replace_section_def section_of_def section_text_def Let_def)
  next
    case False
    have "old = ?r @ rev (takeWhile (\<lambda>c. c = newline) (rev old))"
      unfolding rstrip_newlines_def by (metis rev_append rev_rev_ident takeWhile_dropWhile_id)
    then have "py_find ?b ?r = None" "py_find ?e ?r = None"
      using None e py_find_none_prefix_none markers(1,2) by metis+
    moreover have "py_find ?b ?b = Some 0" using py_find_here [OF markers(1), of m "[]"] by simp
    ultimately have "holds_section m (?r @ [newline, newline])"
      using py_find_line [of ?b ?r "newline # ?b"] py_find_line [of ?b "[]" ?b]
        py_find_line [of ?e ?r "newline # ?b"] py_find_line [of ?e "[]" ?b]
        assms(1) end_not_in_begin [OF assms(1)]
      by (simp add: holds_section_def)
    then show ?thesis
      using False None by (intro exI [of _ "?r @ [newline, newline]"] exI [of _ "[newline]"])
        (simp add: replace_section_def section_of_def section_text_def Let_def)
  qed
qed

lemma replace_section_inplace:
  assumes "marker_ok m" "document_ok old m" and Some: "py_find (begin_marker m) old = Some i"
  shows "\<exists>before rest. holds_section m before \<and> (\<forall>c. replace_section old m c = before @ section_of m c @ rest)"
proof -
  let ?b = "begin_marker m" and ?e = "end_marker m"
  obtain j where j: "py_find ?e old = Some j" "i < j"
    using assms(2) Some by (auto simp: document_ok_def split: option.splits)
  let ?p = "take i old"
  note sp = py_find_split [OF markers(1) Some]
  have len: "length ?p = i" using occurs_at_length [OF py_find_SomeD(1) [OF markers(1) Some]] by simp
  have "old ! j = CHR ''<''" using end_marker_hd [OF py_find_SomeD(1) [OF markers(2) j(1)]] .
  moreover have "old ! j = ?b ! (j - i)" if "j < i + length ?b"
  proof -
    have "j - i < length ?b" using that j(2) by simp
    then show ?thesis using j(2) len by (subst sp(1)) (simp add: nth_append)
  qed
  ultimately have "i + length ?b \<le> j"
    using begin_marker_lt [OF assms(1), of "j - i"] j(2) by fastforce
  then have "py_find ?e (?p @ ?b) = None"
    using py_find_none_prefix [of ?e "?p @ ?b" "drop (i + length ?b) old" j] sp(1) j(1) len markers(2) [of m]
    by (simp add: end_marker_def)
  then have "holds_section m ?p" using sp(2) len by (simp add: holds_section_def)
  then show ?thesis
    using Some j by (intro exI [of _ ?p] exI [of _ "drop (j + length ?e) old"])
      (simp add: replace_section_def section_of_def section_text_def Let_def)
qed

lemma replace_section_place:
  assumes "marker_ok m" "document_ok old m"
  shows "\<exists>before rest. holds_section m before \<and> (\<forall>c. replace_section old m c = before @ section_of m c @ rest)"
  using replace_section_append [OF assms] replace_section_inplace [OF assms] by (cases "py_find (begin_marker m) old") auto

section \<open>Lemmas: documents made of sections\<close>

text \<open>
  The document as the scripts build it: sections with different markers, separated by blank lines. A
  marker is plain when it also holds no \<open>>\<close>; a content is plain when it starts no comment.
\<close>

definition plain_marker :: "string \<Rightarrow> bool" where
  "plain_marker m \<longleftrightarrow> marker_ok m \<and> CHR ''>'' \<notin> set m"

definition plain_content :: "string \<Rightarrow> bool" where
  "plain_content c \<longleftrightarrow> py_find ''<!-- '' c = None"

fun doc_text :: "(string \<times> string) list \<Rightarrow> string" where
  "doc_text [] = []"
| "doc_text [x] = section_text x @ [newline]"
| "doc_text (x # y # ys) = section_text x @ [newline, newline] @ doc_text (y # ys)"

definition sections_ok :: "(string \<times> string) list \<Rightarrow> bool" where
  "sections_ok xs \<longleftrightarrow>
     distinct (map fst xs) \<and> list_all (\<lambda>(m, c). plain_marker m \<and> plain_content c) xs"

definition sections_before :: "(string \<times> string) list \<Rightarrow> string" where
  "sections_before xs = concat (map (\<lambda>x. section_text x @ [newline, newline]) xs)"

definition sections_after :: "(string \<times> string) list \<Rightarrow> string" where
  "sections_after ys = newline # (if ys = [] then [] else newline # doc_text ys)"

lemma doc_text_Cons: "doc_text (x # ys) = section_text x @ sections_after ys"
  by (cases ys) (simp_all add: sections_after_def)

lemma doc_text_split: "doc_text (xs @ x # ys) = sections_before xs @ section_text x @ sections_after ys"
proof (induction xs)
  case Nil
  then show ?case by (simp add: sections_before_def doc_text_Cons)
next
  case (Cons z xs)
  have "sections_after (xs @ x # ys) = newline # newline # doc_text (xs @ x # ys)"
    by (simp add: sections_after_def)
  then show ?case using Cons by (simp add: sections_before_def doc_text_Cons [of z])
qed

text \<open>Neither marker of a section occurs.\<close>

definition absent :: "string \<Rightarrow> string \<Rightarrow> bool" where
  "absent m t \<longleftrightarrow> py_find (begin_marker m) t = None \<and> py_find (end_marker m) t = None"

lemma absent_Nil [simp]: "absent m []"
  by (simp add: absent_def)

lemma absent_line [simp]: "marker_ok m \<Longrightarrow> absent m (xs @ newline # ys) \<longleftrightarrow> absent m xs \<and> absent m ys"
  by (auto simp: absent_def py_find_line split: option.splits)

lemma absent_line' [simp]: "marker_ok m \<Longrightarrow> absent m (newline # ys) \<longleftrightarrow> absent m ys"
  using absent_line [of m "[]" ys] by simp

lemma py_find_None_longer: "sub \<noteq> [] \<Longrightarrow> py_find sub t = None \<Longrightarrow> py_find (sub @ more) t = None"
  by (simp add: py_find_None_iff occurs_at_def) (metis append.assoc)

lemma absent_plain: "plain_content c \<Longrightarrow> absent m c"
  using py_find_None_longer [of "''<!-- ''" c "''BEGIN:'' @ m @ '' -->''"]
    py_find_None_longer [of "''<!-- ''" c "''END:'' @ m @ '' -->''"]
  by (simp add: absent_def plain_content_def begin_marker_def end_marker_def)

text \<open>A pattern that starts with \<open><\<close> occurs in a text whose only \<open><\<close> is its first character only at its start.\<close>

lemma py_find_lt_None:
  assumes "CHR ''<'' \<notin> set t" "\<not> is_prefix (CHR ''<'' # sub) (c # t)"
  shows "py_find (CHR ''<'' # sub) (c # t) = None"
proof -
  have "py_find (CHR ''<'' # sub) u = None" if "CHR ''<'' \<notin> set u" for u
    using that by (induction u) auto
  then show ?thesis using assms by simp
qed

lemma is_prefix_length: "is_prefix xs ys \<Longrightarrow> length xs \<le> length ys"
  by (induction xs ys rule: is_prefix.induct) auto

lemma suffix_marker_neq:
  "CHR ''>'' \<notin> set m \<Longrightarrow> CHR ''>'' \<notin> set n \<Longrightarrow> is_prefix (m @ '' -->'') (n @ '' -->'') \<Longrightarrow> m = n"
proof (induction m arbitrary: n)
  case Nil
  then show ?case by (cases n; cases "tl n"; cases "tl (tl n)"; cases "tl (tl (tl n))") auto
next
  case (Cons a m)
  then show ?case by (cases n) (auto dest: is_prefix_length)
qed

lemma absent_markers:
  assumes "plain_marker m" "plain_marker n" "m \<noteq> n"
  shows "absent m (begin_marker n)" and "absent m (end_marker n)"
proof -
  have lt: "CHR ''<'' \<notin> set n" "CHR ''>'' \<notin> set m" "CHR ''>'' \<notin> set n"
    using assms(1,2) by (auto simp: plain_marker_def marker_ok_def)
  then have "\<not> is_prefix (m @ '' -->'') (n @ '' -->'')" using suffix_marker_neq assms(3) by blast
  then show "absent m (begin_marker n)" "absent m (end_marker n)"
    using lt(1) unfolding absent_def begin_marker_def end_marker_def
    by (auto simp del: py_find.simps intro!: py_find_lt_None)
qed

lemma absent_section:
  "plain_marker m \<Longrightarrow> plain_marker n \<Longrightarrow> m \<noteq> n \<Longrightarrow> plain_content c \<Longrightarrow> absent m (section_text (n, c))"
  using absent_markers absent_plain by (simp add: section_text_def plain_marker_def)

lemma sections_ok_Cons:
  "sections_ok ((n, c) # xs) \<longleftrightarrow> n \<notin> fst ` set xs \<and> plain_marker n \<and> plain_content c \<and> sections_ok xs"
  by (auto simp: sections_ok_def)

lemma absent_doc:
  "plain_marker m \<Longrightarrow> sections_ok xs \<Longrightarrow> m \<notin> fst ` set xs \<Longrightarrow> absent m (doc_text xs)"
  by (induction xs rule: doc_text.induct)
    (auto simp: sections_ok_Cons absent_section plain_marker_def)

lemma holds_section_Nil: "marker_ok m \<Longrightarrow> holds_section m []"
  using end_not_in_begin [of m] py_find_here [OF markers(1), of m "[]"]
  by (simp add: holds_section_def del: py_find_here)

lemma holds_section_line:
  assumes "marker_ok m" "absent m line" "holds_section m before"
  shows "holds_section m (line @ newline # before)"
  using assms py_find_line [of "begin_marker m" line "before @ begin_marker m"]
    py_find_line [of "end_marker m" line "before @ begin_marker m"]
  by (simp add: holds_section_def absent_def)

lemma holds_sections_before:
  assumes "plain_marker m" "sections_ok xs" "m \<notin> fst ` set xs"
  shows "holds_section m (sections_before xs)"
  using assms(2,3)
proof (induction xs)
  case Nil
  then show ?case using assms(1) holds_section_Nil by (simp add: sections_before_def plain_marker_def)
next
  case (Cons x xs)
  obtain n c where x: "x = (n, c)" by fastforce
  have m: "marker_ok m" using assms(1) by (simp add: plain_marker_def)
  have "holds_section m (newline # sections_before xs)"
    using holds_section_line [OF m absent_Nil, of "sections_before xs"] Cons x by (simp add: sections_ok_Cons)
  then have "holds_section m (section_text x @ newline # newline # sections_before xs)"
    using holds_section_line [OF m absent_section] assms(1) Cons.prems x by (simp add: sections_ok_Cons image_iff)
  then show ?case by (simp add: sections_before_def)
qed

lemma update_absent: "m \<notin> fst ` set xs \<Longrightarrow> AList.update m c xs = xs @ [(m, c)]"
  by (induction xs) auto

lemma update_present: "m \<notin> fst ` set xs \<Longrightarrow> AList.update m c (xs @ (m, c0) # ys) = xs @ (m, c) # ys"
  by (induction xs) auto

lemma doc_text_ends:
  assumes "xs \<noteq> []"
  shows "py_strip (doc_text xs) \<noteq> []" and "rstrip_newlines (doc_text xs) @ [newline] = doc_text xs"
proof -
  obtain ys m c where xs: "xs = ys @ [(m, c)]" using assms by (cases xs rule: rev_exhaust) auto
  let ?p = "sections_before ys @ begin_marker m @ [newline] @ c @ newline # ''<!-- END:'' @ m @ '' --''"
  have d: "doc_text xs = ?p @ [CHR ''>'', newline]"
    unfolding xs doc_text_split by (simp add: section_text_def sections_after_def end_marker_def)
  then show "rstrip_newlines (doc_text xs) @ [newline] = doc_text xs"
    by (simp add: rstrip_newlines_def newline_def)
  have "CHR ''>'' \<in> set (doc_text xs)" "\<not> py_isspace (CHR ''>'')"
    unfolding d by (simp_all add: py_isspace_def)
  then show "py_strip (doc_text xs) \<noteq> []"
    unfolding py_strip_def by (auto simp: dropWhile_eq_Nil_conv) (metis set_takeWhileD takeWhile_dropWhile_id Un_iff set_append)
qed

text \<open>What stands between the markers of a section, read back from the text.\<close>

definition read_section :: "string \<Rightarrow> string \<Rightarrow> string option" where
  "read_section m t =
     (case (py_find (begin_marker m) t, py_find (end_marker m) t) of
        (Some i, Some j) \<Rightarrow>
          if i < j then Some (take (j - i - length (begin_marker m) - 2) (drop (i + length (begin_marker m) + 1) t))
          else None
      | _ \<Rightarrow> None)"

lemma sections_ok_split:
  assumes "sections_ok xs" "m \<in> fst ` set xs"
  obtains ys c zs where "xs = ys @ (m, c) # zs" "m \<notin> fst ` set ys" "sections_ok ys"
    "plain_marker m" "plain_content c" "map_of xs m = Some c"
proof -
  obtain ys c zs where xs: "xs = ys @ (m, c) # zs"
    using assms(2) by (auto dest!: split_list)
  then have new: "m \<notin> fst ` set ys" using assms(1) by (auto simp: sections_ok_def)
  show thesis
    by (rule that [OF xs new]) (use assms(1) xs new in \<open>auto simp: sections_ok_def map_add_def map_of_eq_None_iff [THEN iffD2]\<close>)
qed

lemma read_section_doc:
  assumes "plain_marker m" "sections_ok xs"
  shows "read_section m (doc_text xs) = map_of xs m"
proof (cases "m \<in> fst ` set xs")
  case True
  then obtain ys c zs where s: "xs = ys @ (m, c) # zs" "m \<notin> fst ` set ys" "sections_ok ys"
    "plain_marker m" "plain_content c" "map_of xs m = Some c"
    using sections_ok_split [OF assms(2)] by metis
  have "py_find (end_marker m) c = None" using absent_plain [OF s(5)] by (simp add: absent_def)
  then have "read_section m (sections_before ys @ section_text (m, c) @ sections_after zs) = Some c"
    using held_section_found [OF _ holds_sections_before [OF s(4,3,2)]] assms(1)
    by (simp add: read_section_def plain_marker_def) (simp add: section_text_def)
  then show ?thesis using s(6) unfolding s(1) doc_text_split by simp
next
  case False
  then have "map_of xs m = None" by (simp add: map_of_eq_None_iff)
  then show ?thesis using absent_doc [OF assms False] by (simp add: read_section_def absent_def)
qed

lemma replace_section_doc:
  assumes "plain_marker m" "sections_ok xs"
  shows "replace_section (doc_text xs) m c = doc_text (AList.update m (py_strip c) xs)"
proof (cases "m \<in> fst ` set xs")
  case True
  then obtain ys c0 zs where s: "xs = ys @ (m, c0) # zs" "m \<notin> fst ` set ys" "sections_ok ys"
    "plain_marker m" "plain_content c0" "map_of xs m = Some c0"
    using sections_ok_split [OF assms(2)] by metis
  have "py_find (end_marker m) c0 = None" using absent_plain [OF s(5)] by (simp add: absent_def)
  then show ?thesis
    using replace_held_section [OF _ holds_sections_before [OF s(4,3,2)], of c0 "sections_after zs" c] assms(1)
    unfolding s(1) doc_text_split update_present [OF s(2)]
    by (simp add: section_of_def plain_marker_def)
next
  case False
  show ?thesis
  proof (cases "xs = []")
    case True
    then show ?thesis by (simp add: replace_section_def section_text_def py_strip_def Let_def)
  next
    case non_empty: False
    have "doc_text (xs @ [(m, py_strip c)]) = doc_text xs @ newline # section_text (m, py_strip c) @ [newline]"
      using non_empty by (induction xs rule: doc_text.induct) simp_all
    also have "\<dots> = rstrip_newlines (doc_text xs) @ [newline, newline] @ section_text (m, py_strip c) @ [newline]"
      by (subst doc_text_ends(2) [OF non_empty, symmetric]) simp
    finally show ?thesis
      using absent_doc [OF assms False] doc_text_ends(1) [OF non_empty]
      by (simp add: replace_section_def absent_def update_absent [OF False] Let_def section_text_def)
  qed
qed

lemma sections_ok_update:
  assumes "plain_marker m" "sections_ok xs" "plain_content c"
  shows "sections_ok (AList.update m c xs)"
  using assms(2)
proof (induction xs)
  case Nil
  then show ?case using assms by (simp add: sections_ok_def)
next
  case (Cons x xs)
  obtain n d where "x = (n, d)" by fastforce
  then show ?case using Cons assms dom_update [of m c xs]
    by (auto simp: sections_ok_Cons image_iff)
qed

section \<open>Lemmas: a begin marker without its end\<close>

lemma py_find_trailing_newlines:
  assumes "newline \<notin> set sub" "sub \<noteq> []" "\<forall>c \<in> set nls. c = newline"
  shows "py_find sub (xs @ nls) = py_find sub xs"
proof -
  have none: "py_find sub ys = None" if "\<forall>c \<in> set ys. c = newline" for ys
    using that
  proof (induction ys)
    case (Cons y ys)
    then have "py_find sub ([] @ newline # ys) = None" using py_find_line [OF assms(1,2), of "[]" ys] assms(2) by simp
    then show ?case using Cons.prems by simp
  qed (use assms(2) in simp)
  show ?thesis
  proof (cases nls)
    case (Cons y ys)
    then show ?thesis using py_find_line [OF assms(1,2), of xs ys] none [of ys] assms(3) by (simp split: option.split)
  qed simp
qed

lemma rstrip_newlines_split:
  obtains nls where "old = rstrip_newlines old @ nls" "\<forall>c \<in> set nls. c = newline"
proof
  show "old = rstrip_newlines old @ rev (takeWhile (\<lambda>c. c = newline) (rev old))"
    unfolding rstrip_newlines_def by (metis rev_append rev_rev_ident takeWhile_dropWhile_id)
  show "\<forall>c \<in> set (rev (takeWhile (\<lambda>c. c = newline) (rev old))). c = newline"
    by (auto dest: set_takeWhileD)
qed

lemma py_find_rstrip:
  assumes "newline \<notin> set sub" "sub \<noteq> []"
  shows "py_find sub (rstrip_newlines old) = py_find sub old"
proof -
  obtain nls where "old = rstrip_newlines old @ nls" "\<forall>c \<in> set nls. c = newline" by (rule rstrip_newlines_split)
  then show ?thesis using py_find_trailing_newlines [OF assms] by metis
qed

lemma begin_marker_not_blank: "py_find (begin_marker m) old = Some i \<Longrightarrow> py_strip old \<noteq> []"
proof -
  assume "py_find (begin_marker m) old = Some i"
  then have "CHR ''<'' \<in> set old"
    using py_find_split(1) [OF markers(1)] by (metis begin_marker_def Un_iff append_Cons list.set_intros(1) set_append)
  moreover have "\<not> py_isspace (CHR ''<'')" by (simp add: py_isspace_def)
  ultimately show "py_strip old \<noteq> []"
    unfolding py_strip_def by (auto simp: dropWhile_eq_Nil_conv) (metis set_takeWhileD takeWhile_dropWhile_id Un_iff set_append)
qed

lemma orphan_begin_appended:
  assumes "marker_ok m" "py_find (begin_marker m) old = Some i" "py_find (end_marker m) old = None"
  shows "replace_section old m c1 = rstrip_newlines old @ [newline, newline] @ section_of m c1 @ [newline]"
  using assms begin_marker_not_blank [OF assms(2)]
  by (simp add: replace_section_def section_of_def section_text_def Let_def)

lemma orphan_begin_deletes:
  assumes "marker_ok m" "py_find (begin_marker m) old = Some i" "py_find (end_marker m) old = None"
    and "py_find (end_marker m) (py_strip c1) = None"
  shows "replace_section (replace_section old m c1) m c2 = take i old @ section_of m c2 @ [newline]"
proof -
  let ?b = "begin_marker m" and ?e = "end_marker m" and ?r = "rstrip_newlines old" and ?c = "py_strip c1"
  define t where "t = ?r @ newline # (newline # (?b @ newline # (?c @ newline # (?e @ [newline]))))"
  define j where "j = length ?r + length ?b + length ?c + 4"
  have nl: "newline \<notin> set ?b" "newline \<notin> set ?e" using assms(1) by simp_all
  have r: "py_find ?b ?r = Some i" "py_find ?e ?r = None" using py_find_rstrip nl assms(2,3) by simp_all
  have "i + length ?b \<le> length ?r" using occurs_at_length [OF py_find_SomeD(1) [OF markers(1) r(1)]] .
  moreover obtain nls where "old = ?r @ nls" using rstrip_newlines_split by metis
  ultimately have i: "i < j" "take i t = take i old"
    unfolding j_def t_def by (simp, metis add_leD1 append_eq_append_conv_if take_append take_all_iff diff_is_0_eq take0 append_Nil2)
  have "py_find ?b t = Some i" unfolding t_def using r(1) by (subst py_find_line [OF nl(1)]) simp_all
  moreover have "py_find ?e t = Some j"
  proof -
    have "py_find ?e (?b @ newline # (?c @ newline # (?e @ [newline]))) = Some (length ?b + length ?c + 2)"
      using py_find_line [OF nl(2), of ?b] py_find_line [OF nl(2), of ?c] end_not_in_begin [OF assms(1)] assms(4)
      by simp
    then have "py_find ?e (newline # (?b @ newline # (?c @ newline # (?e @ [newline])))) = Some (length ?b + length ?c + 3)"
      using py_find_line [OF nl(2), of "[]"] by simp
    then show ?thesis unfolding t_def j_def using r(2) py_find_line [OF nl(2), of ?r] by simp
  qed
  moreover have "drop (j + length ?e) t = [newline]"
  proof -
    define p where "p = ?r @ newline # newline # ?b @ newline # ?c @ newline # ?e"
    have "t = p @ [newline]" "length p = j + length ?e" by (simp_all add: t_def p_def j_def)
    then show ?thesis by (metis append_eq_conv_conj)
  qed
  moreover have "replace_section old m c1 = t"
    using orphan_begin_appended [OF assms(1-3)] by (simp add: t_def section_of_def section_text_def)
  ultimately show ?thesis using i by (simp add: replace_section_def section_of_def section_text_def)
qed

section \<open>Properties\<close>

text \<open>
  C24. The document is a map from markers to contents: on a document made of sections,
  \<open>replace_section\<close> gives the document of the updated association list, so every section reads back as what was last
  written for it, stripped, whichever scripts wrote in between and in whatever order the sections came
  to be. This needs markers and contents that start no comment of their own.
\<close>

theorem replace_section_refines_map:
  assumes "sections_ok xs" "plain_marker m" "plain_content (py_strip c)" "plain_marker n"
  shows "replace_section (doc_text xs) m c = doc_text (AList.update m (py_strip c) xs) \<and>
         sections_ok (AList.update m (py_strip c) xs) \<and>
         read_section n (replace_section (doc_text xs) m c) =
           (if n = m then Some (py_strip c) else read_section n (doc_text xs))"
  using replace_section_doc [OF assms(2,1)] sections_ok_update [OF assms(2,1,3)]
    read_section_doc [OF assms(4)] assms(1)
  by (auto simp: update_conv)

theorem replace_section_refines_map_witness:
  "read_section ''mq-sweep'' (replace_section (doc_text [(''main-sweep'', ''a''), (''mq-sweep'', ''b'')]) ''main-sweep'' '' c '') =
     Some ''b''"
proof -
  have ok: "sections_ok [(''main-sweep'', ''a''), (''mq-sweep'', ''b'')]" "plain_marker ''main-sweep''"
    "plain_content (py_strip '' c '')" "plain_marker ''mq-sweep''" "''mq-sweep'' \<noteq> ''main-sweep''"
    "read_section ''mq-sweep'' (doc_text [(''main-sweep'', ''a''), (''mq-sweep'', ''b'')]) = Some ''b''"
    by code_simp+
  show ?thesis
    by (rule trans [OF replace_section_refines_map [OF ok(1-4), THEN conjunct2, THEN conjunct2]])
      (simp only: ok(5,6) if_False)
qed

text \<open>
  Regenerating a section replaces it and nothing else: there is one place in the document, a text
  before it and a text after it that do not depend on the content, where every content is put; and
  writing the section again has the same effect as if the earlier content had never been written. This
  needs markers in order in the old text, or none, and a content that does not hold its own end marker.
\<close>

theorem replace_section_overwrites:
  assumes "marker_ok m" "document_ok old m" "py_find (end_marker m) (py_strip c1) = None"
  shows "replace_section (replace_section old m c1) m c2 = replace_section old m c2 \<and>
         (\<exists>before rest. \<forall>c. replace_section old m c =
            before @ begin_marker m @ [newline] @ py_strip c @ [newline] @ end_marker m @ rest)"
proof -
  obtain before rest where p: "holds_section m before"
    "\<forall>c. replace_section old m c = before @ section_of m c @ rest"
    using replace_section_place [OF assms(1,2)] by blast
  then show ?thesis
    using replace_held_section [OF assms(1) p(1) assms(3), of rest c2]
    by (auto simp: section_of_def section_text_def)
qed

theorem replace_section_overwrites_witness:
  "replace_section (replace_section ''# Results'' ''main-sweep'' ''old'') ''main-sweep'' ''new'' =
     replace_section ''# Results'' ''main-sweep'' ''new'' \<and>
   (\<exists>before rest. \<forall>c. replace_section ''# Results'' ''main-sweep'' c =
      before @ begin_marker ''main-sweep'' @ [newline] @ py_strip c @ [newline] @ end_marker ''main-sweep'' @ rest)"
  by (rule replace_section_overwrites) code_simp+

text \<open>
  C31. The order of the markers matters: in any document where the begin marker of a section has lost its end
  marker, the first regeneration appends a section with both, and the second takes the lost marker for its
  begin: it removes everything that stood after the lost marker, whoever wrote it. The marker is one of a single
  line, and the content first written does not hold the end marker itself.
\<close>

theorem replace_section_orphan_begin:
  assumes "marker_ok m" "py_find (begin_marker m) old = Some i" "py_find (end_marker m) old = None"
    and "py_find (end_marker m) (py_strip c1) = None"
  shows "replace_section old m c1 = rstrip_newlines old @ [newline, newline] @ section_of m c1 @ [newline] \<and>
    replace_section (replace_section old m c1) m c2 = take i old @ section_of m c2 @ [newline]"
  using orphan_begin_appended [OF assms(1-3)] orphan_begin_deletes [OF assms] by simp

theorem replace_section_orphan_begin_witness:
  "let old = begin_marker ''a'' @ [newline] @ section_of ''x'' ''kept'' @ [newline]
   in py_find (begin_marker ''x'') old = Some 17 \<and>
      py_find (begin_marker ''x'') (replace_section (replace_section old ''a'' ''1'') ''a'' ''2'') = None"
proof -
  let ?old = "begin_marker ''a'' @ [newline] @ section_of ''x'' ''kept'' @ [newline]"
  have ok: "marker_ok ''a''" "py_find (begin_marker ''a'') ?old = Some 0" "py_find (end_marker ''a'') ?old = None"
    "py_find (end_marker ''a'') (py_strip ''1'') = None" "py_find (begin_marker ''x'') ?old = Some 17"
    "py_find (begin_marker ''x'') (take 0 ?old @ section_of ''a'' ''2'' @ [newline]) = None"
    by code_simp+
  show ?thesis
    unfolding Let_def replace_section_orphan_begin [OF ok(1-4), THEN conjunct2] using ok(5,6) by blast
qed

end
