(* ===== verification/KV_Comp.thy ===== *)
theory KV_Comp
  imports KV_Prelude
begin

text \<open>
  Computations over a state: they return a value or raise an exception in a new state, and \<open>None\<close> stands
  for a loop that used up its fuel. Sequencing, \<open>try\<close> statements and loops over lists, and the rules by
  which a computation keeps a property of the state and always ends. The scripts of \<open>experiments/\<close> that
  drive processes and a broker are written with these.
\<close>

section \<open>Computations\<close>

type_synonym ('s, 'a) comp = "'s \<Rightarrow> ((exn + 'a) \<times> 's) option"

definition h_return :: "'a \<Rightarrow> ('s, 'a) comp" where
  "h_return x s = Some (Inr x, s)"

definition h_raise :: "exn \<Rightarrow> ('s, 'a) comp" where
  "h_raise e s = Some (Inl e, s)"

definition h_bind :: "('s, 'a) comp \<Rightarrow> ('a \<Rightarrow> ('s, 'c) comp) \<Rightarrow> ('s, 'c) comp" where
  "h_bind m f s =
     (case m s of
        None \<Rightarrow> None
      | Some (Inl e, s') \<Rightarrow> Some (Inl e, s')
      | Some (Inr x, s') \<Rightarrow> f x s')"

text \<open>\<open>try: m except Exception as exc: handler\<close>, and \<open>try: m finally: cleanup\<close>.\<close>

definition h_except :: "('s, 'a) comp \<Rightarrow> (exn \<Rightarrow> ('s, 'a) comp) \<Rightarrow> ('s, 'a) comp" where
  "h_except m handler s =
     (case m s of
        Some (Inl e, s') \<Rightarrow> if is_exception e then handler e s' else Some (Inl e, s')
      | r \<Rightarrow> r)"

definition h_finally :: "('s, 'a) comp \<Rightarrow> ('s, unit) comp \<Rightarrow> ('s, 'a) comp" where
  "h_finally m cleanup s =
     (case m s of
        None \<Rightarrow> None
      | Some (r, s1) \<Rightarrow>
          (case cleanup s1 of
             None \<Rightarrow> None
           | Some (Inl e, s2) \<Rightarrow> Some (Inl e, s2)
           | Some (Inr u, s2) \<Rightarrow> Some (r, s2)))"

fun h_iter :: "('x \<Rightarrow> ('s, unit) comp) \<Rightarrow> 'x list \<Rightarrow> ('s, unit) comp" where
  "h_iter f [] = h_return ()"
| "h_iter f (x # xs) = h_bind (f x) (\<lambda>_. h_iter f xs)"

fun h_map :: "('x \<Rightarrow> ('s, 'y) comp) \<Rightarrow> 'x list \<Rightarrow> ('s, 'y list) comp" where
  "h_map f [] = h_return []"
| "h_map f (x # xs) = h_bind (f x) (\<lambda>y. h_bind (h_map f xs) (\<lambda>ys. h_return (y # ys)))"

text \<open>A call on the environment that returns or raises, an action on it, and a value that may be an exception.\<close>

definition h_call :: "('s \<Rightarrow> (exn + 'a) \<times> 's) \<Rightarrow> ('s, 'a) comp" where
  "h_call f s = Some (f s)"

definition h_do :: "('s \<Rightarrow> 's) \<Rightarrow> ('s, unit) comp" where
  "h_do f s = Some (Inr (), f s)"

definition h_lift :: "exn + 'a \<Rightarrow> ('s, 'a) comp" where
  "h_lift x s = Some (x, s)"

text \<open>A computation on the first component of a state with two.\<close>

definition h_left :: "('s, 'a) comp \<Rightarrow> ('s \<times> 't, 'a) comp" where
  "h_left m = (\<lambda>(s, t). map_option (\<lambda>(r, s'). (r, (s', t))) (m s))"

section \<open>What a computation keeps, and that it ends\<close>

named_theorems keeps_rules \<open>computations that keep a property of the state, returning or raising\<close>

definition keeps :: "('s \<Rightarrow> bool) \<Rightarrow> ('s, 'a) comp \<Rightarrow> bool" where
  "keeps P m \<longleftrightarrow> (\<forall>s r s'. P s \<longrightarrow> m s = Some (r, s') \<longrightarrow> P s')"

lemma keeps_return [keeps_rules]: "keeps P (h_return x)"
  by (simp add: keeps_def h_return_def)

lemma keeps_raise [keeps_rules]: "keeps P (h_raise e)"
  by (simp add: keeps_def h_raise_def)

lemma keepsD: "keeps P m \<Longrightarrow> P s \<Longrightarrow> m s = Some (r, s') \<Longrightarrow> P s'"
  unfolding keeps_def by blast

lemma h_bind_SomeE:
  assumes "h_bind m f s = Some (r, s')"
  obtains (raised) e where "m s = Some (Inl e, s')" "r = Inl e"
  | (returned) x s1 where "m s = Some (Inr x, s1)" "f x s1 = Some (r, s')"
  using assms by (auto simp: h_bind_def split: option.splits sum.splits)

lemma keeps_bind [keeps_rules]:
  assumes "keeps P m" "\<And>x. keeps P (f x)"
  shows "keeps P (h_bind m f)"
  unfolding keeps_def
proof (intro allI impI)
  fix s r s'
  assume "P s" "h_bind m f s = Some (r, s')"
  from this(2) show "P s'"
    by (cases rule: h_bind_SomeE) (use keepsD [OF assms(1) \<open>P s\<close>] keepsD [OF assms(2)] in blast)+
qed

lemma keeps_iter [keeps_rules]: "(\<And>x. keeps P (f x)) \<Longrightarrow> keeps P (h_iter f xs)"
  by (induction xs) (simp_all add: keeps_rules)

lemma h_bind_return [simp]: "h_bind m h_return = m"
  by (rule ext) (auto simp: h_bind_def h_return_def split: option.split sum.split)

lemma h_bind_InrE:
  assumes "h_bind m f s = Some (Inr x, s')"
  obtains y s1 where "m s = Some (Inr y, s1)" "f y s1 = Some (Inr x, s')"
  using assms by (cases rule: h_bind_SomeE) auto

lemma h_finally_InrE:
  assumes "h_finally m (h_do g) s = Some (Inr x, s')"
  obtains s1 where "m s = Some (Inr x, s1)" "s' = g s1"
  using assms by (auto simp: h_finally_def h_do_def split: option.splits prod.splits sum.splits)

lemma h_map_length: "h_map f xs s = Some (Inr ys, s') \<Longrightarrow> length ys = length xs"
  by (induction xs arbitrary: s ys) (auto simp: h_return_def elim!: h_bind_InrE)

text \<open>Computations that always return or raise.\<close>

named_theorems ends_rules \<open>computations that end\<close>

definition ends :: "('s, 'a) comp \<Rightarrow> bool" where
  "ends m \<longleftrightarrow> (\<forall>s. m s \<noteq> None)"

lemma ends_bind [ends_rules]: "ends m \<Longrightarrow> (\<And>x. ends (f x)) \<Longrightarrow> ends (h_bind m f)"
  by (auto simp: ends_def h_bind_def split: option.splits sum.splits)

lemma ends_left [ends_rules]: "ends m \<Longrightarrow> ends (h_left m)"
  by (auto simp: ends_def h_left_def split: prod.splits)

lemma h_left_SomeE:
  assumes "h_left m (s, t) = Some (r, st)"
  obtains s' where "m s = Some (r, s')" "st = (s', t)"
  using assms by (auto simp: h_left_def)

lemma ends_bind_when:
  "ends m \<Longrightarrow> (\<And>s x s'. m s = Some (Inr x, s') \<Longrightarrow> ends (f x)) \<Longrightarrow> ends (h_bind m f)"
  unfolding ends_def h_bind_def by (auto split: option.splits sum.splits)

lemma ends_return [ends_rules]: "ends (h_return x)"
  by (simp add: ends_def h_return_def)

lemma ends_calls [ends_rules]: "ends (h_call g)" "ends (h_do h)" "ends (h_lift x)" "ends (h_raise e)"
  by (simp_all add: ends_def h_call_def h_do_def h_lift_def h_raise_def)

lemma ends_iter [ends_rules]: "(\<And>x. ends (f x)) \<Longrightarrow> ends (h_iter f xs)"
  by (induction xs) (auto intro: ends_rules)

lemma ends_map [ends_rules]: "(\<And>x. ends (f x)) \<Longrightarrow> ends (h_map f xs)"
  by (induction xs) (auto intro: ends_rules)

lemma ends_except [ends_rules]: "ends m \<Longrightarrow> (\<And>e. ends (handler e)) \<Longrightarrow> ends (h_except m handler)"
  by (auto simp: ends_def h_except_def split: option.splits sum.splits)

lemma ends_finally: "ends m \<Longrightarrow> ends cleanup \<Longrightarrow> ends (h_finally m cleanup)"
  unfolding ends_def
proof
  fix s
  assume m: "\<forall>s. m s \<noteq> None" and c: "\<forall>s. cleanup s \<noteq> None"
  obtain r s1 where "m s = Some (r, s1)" using m by fastforce
  moreover obtain u s2 where "cleanup s1 = Some (u, s2)" using c by fastforce
  ultimately show "h_finally m cleanup s \<noteq> None" by (cases u) (simp_all add: h_finally_def)
qed

end
