(* ===== verification/KV_Harness.thy ===== *)
theory KV_Harness
  imports KV_Comp KV_LoadRuns KV_Queue
begin

text \<open>
  \<open>experiments/run_comparison.py\<close>: the processes a sweep starts, waits for and stops, the three
  sweeps, and the ranking of their report. They are computations
  in the sense of \<open>KV_Comp\<close>; a load test that never ends is a \<open>None\<close> too.
\<close>

section \<open>The world of the harness\<close>

record spawned_node =
  sn_label :: string
  sn_host :: string
  sn_port :: int
  sn_proc :: nat

text \<open>
  The operating system and the network, as functions of a state of theirs. \<open>os_popen\<close> may raise;
  \<open>os_poll\<close> yields the exit code of a process that has ended; \<open>os_wait\<close> is false when the wait times
  out. \<open>os_health\<close> and \<open>os_lag\<close> are the GET of a node's \<open>/health\<close> and of its \<open>/internal/lag\<close>, with the
  truth of the \<open>partitions\<close> of its body.
\<close>

record 'b os =
  os_popen :: "string \<Rightarrow> string list \<Rightarrow> 'b \<Rightarrow> (exn + unit) \<times> 'b"
  os_poll :: "nat \<Rightarrow> 'b \<Rightarrow> int option \<times> 'b"
  os_terminate :: "nat \<Rightarrow> 'b \<Rightarrow> 'b"
  os_kill :: "nat \<Rightarrow> 'b \<Rightarrow> 'b"
  os_wait :: "nat \<Rightarrow> rat \<Rightarrow> 'b \<Rightarrow> bool \<times> 'b"
  os_health :: "string \<Rightarrow> 'b \<Rightarrow> unit http_outcome \<times> 'b"
  os_lag :: "string \<Rightarrow> 'b \<Rightarrow> bool http_outcome \<times> 'b"
  os_monotonic :: "'b \<Rightarrow> rat"
  os_sleep :: "rat \<Rightarrow> 'b \<Rightarrow> 'b"

text \<open>
  The state of a run: the world, how many processes were started, those not known to have ended, and
  the variable \<open>nodes\<close> of the configuration being run.
\<close>

record 'b hstate =
  hs_world :: 'b
  hs_started :: nat
  hs_live :: "nat list"
  hs_nodes :: "spawned_node list"

type_synonym ('b, 'a) hcomp = "('b hstate, 'a) comp"

section \<open>Node process lifecycle\<close>

definition HEALTH_TIMEOUT_SECONDS :: rat where "HEALTH_TIMEOUT_SECONDS = 15"
definition HEALTH_POLL_INTERVAL_SECONDS :: rat where "HEALTH_POLL_INTERVAL_SECONDS = 1 / 5"
definition SHUTDOWN_GRACE_SECONDS :: rat where "SHUTDOWN_GRACE_SECONDS = 5"

definition spawn :: "'b os \<Rightarrow> string \<Rightarrow> string list \<Rightarrow> string \<Rightarrow> string \<Rightarrow> int \<Rightarrow> ('b, spawned_node) hcomp" where
  "spawn os module_name args label host port s =
     (let (r, w) = os_popen os module_name args (hs_world s)
      in case r of
           Inl e \<Rightarrow> Some (Inl e, s\<lparr>hs_world := w\<rparr>)
         | Inr _ \<Rightarrow>
             Some (Inr \<lparr>sn_label = label, sn_host = host, sn_port = port, sn_proc = hs_started s\<rparr>,
               s\<lparr>hs_world := w, hs_started := hs_started s + 1, hs_live := hs_started s # hs_live s\<rparr>))"

text \<open>\<open>proc.poll()\<close>: a code means the process has ended.\<close>

definition poll_proc :: "'b os \<Rightarrow> nat \<Rightarrow> ('b, int option) hcomp" where
  "poll_proc os p s =
     (let (code, w) = os_poll os p (hs_world s)
      in Some (Inr code, s\<lparr>hs_world := w, hs_live := (if code = None then hs_live s else removeAll p (hs_live s))\<rparr>))"

text \<open>\<open>proc.wait(timeout)\<close>: returns once the process has ended, or raises.\<close>

definition wait_proc :: "'b os \<Rightarrow> nat \<Rightarrow> rat \<Rightarrow> ('b, unit) hcomp" where
  "wait_proc os p timeout s =
     (let (ended, w) = os_wait os p timeout (hs_world s)
      in if ended then Some (Inr (), s\<lparr>hs_world := w, hs_live := removeAll p (hs_live s)\<rparr>)
         else Some (Inl TimeoutExpiredErr, s\<lparr>hs_world := w\<rparr>))"

definition on_world :: "('b \<Rightarrow> 'b) \<Rightarrow> ('b, unit) hcomp" where
  "on_world f s = Some (Inr (), s\<lparr>hs_world := f (hs_world s)\<rparr>)"

text \<open>Whether a node can be dropped from the pending ones: its \<open>/health\<close> answers 200.\<close>

definition node_url :: "spawned_node \<Rightarrow> string" where
  "node_url n = ''http://'' @ sn_host n @ '':'' @ py_str_of_int (sn_port n)"

definition node_healthy :: "'b os \<Rightarrow> spawned_node \<Rightarrow> ('b, bool) hcomp" where
  "node_healthy os n s =
     (let (outcome, w) = os_health os (node_url n @ ''/health'') (hs_world s)
      in Some (Inr (case outcome of Httpx_failed exc detail \<Rightarrow> False | Replied status body \<Rightarrow> status = 200),
               s\<lparr>hs_world := w\<rparr>))"

text \<open>A follower of the queue is ready once its lag answer lists a partition; a bad body raises.\<close>

definition node_assigned :: "'b os \<Rightarrow> spawned_node \<Rightarrow> ('b, bool) hcomp" where
  "node_assigned os n s =
     (let (outcome, w) = os_lag os (node_url n @ ''/internal/lag'') (hs_world s)
      in Some (case outcome of
           Httpx_failed exc detail \<Rightarrow> Inr False
         | Replied status body \<Rightarrow> if status = 200 then body else Inr False, s\<lparr>hs_world := w\<rparr>))"

text \<open>One pass over the pending nodes: those still pending, or a NodeStartupError for one that has exited.\<close>

fun poll_pending ::
    "'b os \<Rightarrow> (spawned_node \<Rightarrow> ('b, bool) hcomp) \<Rightarrow> spawned_node list \<Rightarrow> ('b, spawned_node list) hcomp" where
  "poll_pending os ready [] = h_return []"
| "poll_pending os ready (n # ns) =
     h_bind (poll_proc os (sn_proc n)) (\<lambda>code.
       case code of
         Some c \<Rightarrow> h_raise (NodeStartupErr (sn_label n))
       | None \<Rightarrow>
           h_bind (ready n) (\<lambda>ok.
             h_bind (poll_pending os ready ns) (\<lambda>rest. h_return (if ok then rest else n # rest))))"

fun poll_until ::
    "'b os \<Rightarrow> (spawned_node \<Rightarrow> ('b, bool) hcomp) \<Rightarrow> rat \<Rightarrow> nat \<Rightarrow> spawned_node list \<Rightarrow> ('b, unit) hcomp" where
  "poll_until os ready deadline fuel [] s = Some (Inr (), s)"
| "poll_until os ready deadline 0 (n # ns) s = None"
| "poll_until os ready deadline (Suc fuel) (n # ns) s =
     h_bind (poll_pending os ready (n # ns)) (\<lambda>pending s1.
       if pending = [] then Some (Inr (), s1)
       else if deadline < os_monotonic os (hs_world s1)
       then Some (Inl (NodeStartupErr ''timed out''), s1)
       else h_bind (on_world (os_sleep os HEALTH_POLL_INTERVAL_SECONDS))
              (\<lambda>_. poll_until os ready deadline fuel pending) s1) s"

definition POLL_FUEL :: nat where
  "POLL_FUEL = 77"

definition wait_for_all_healthy :: "'b os \<Rightarrow> spawned_node list \<Rightarrow> ('b, unit) hcomp" where
  "wait_for_all_healthy os nodes s =
     (let deadline = os_monotonic os (hs_world s) + HEALTH_TIMEOUT_SECONDS
      in poll_until os (node_healthy os) deadline POLL_FUEL nodes s)"

definition wait_for_mq_followers_assigned :: "'b os \<Rightarrow> spawned_node list \<Rightarrow> ('b, unit) hcomp" where
  "wait_for_mq_followers_assigned os followers s =
     (let deadline = os_monotonic os (hs_world s) + HEALTH_TIMEOUT_SECONDS
      in poll_until os (node_assigned os) deadline POLL_FUEL followers s)"

definition stop_node :: "'b os \<Rightarrow> rat \<Rightarrow> spawned_node \<Rightarrow> ('b, unit) hcomp" where
  "stop_node os grace_seconds n =
     (let p = sn_proc n
      in h_bind (poll_proc os p) (\<lambda>code.
           if code \<noteq> None then h_return ()
           else h_bind (on_world (os_terminate os p)) (\<lambda>_ s.
             case wait_proc os p grace_seconds s of
               Some (Inl e, s1) \<Rightarrow>
                 if e = TimeoutExpiredErr
                 then h_bind (on_world (os_kill os p)) (\<lambda>_. wait_proc os p grace_seconds) s1
                 else Some (Inl e, s1)
             | r \<Rightarrow> r)))"

definition stop_all :: "'b os \<Rightarrow> spawned_node list \<Rightarrow> ('b, unit) hcomp" where
  "stop_all os nodes = h_iter (stop_node os SHUTDOWN_GRACE_SECONDS) nodes"

section \<open>Configurations and their outcomes\<close>

text \<open>\<open>str.isalnum\<close> on code points below 256, \<open>str.strip("_")\<close>, and \<open>_slug\<close>.\<close>

definition py_isalnum :: "char \<Rightarrow> bool" where
  "py_isalnum c =
     (let n = (of_char c :: nat)
      in (48 \<le> n \<and> n \<le> 57) \<or> (65 \<le> n \<and> n \<le> 90) \<or> (97 \<le> n \<and> n \<le> 122) \<or>
         n \<in> {170, 178, 179, 181, 185, 186, 188, 189, 190} \<or>
         (192 \<le> n \<and> n \<le> 255 \<and> n \<noteq> 215 \<and> n \<noteq> 247))"

definition strip_underscores :: "string \<Rightarrow> string" where
  "strip_underscores s =
     rev (dropWhile (\<lambda>c. c = CHR ''_'') (rev (dropWhile (\<lambda>c. c = CHR ''_'') s)))"

definition slug :: "string \<Rightarrow> string" where
  "slug label = strip_underscores (map (\<lambda>c. if py_isalnum c then c else CHR ''_'') label)"

record config_result =
  cr_strategy :: string
  cr_label :: string
  cr_elapsed :: pyfloat
  cr_staleness_rate :: rat
  cr_total_failures :: int
  cr_total_requests :: int

text \<open>The reason of an error is the text of the exception; the exception itself stands for it.\<close>

record config_error =
  ce_strategy :: string
  ce_label :: string
  ce_reason :: exn

datatype sweep_outcome = Config_result config_result | Config_error config_error

fun outcome_label :: "sweep_outcome \<Rightarrow> string" where
  "outcome_label (Config_result r) = cr_label r"
| "outcome_label (Config_error e) = ce_label e"

text \<open>
  What a load test of a configuration meets, as functions of the world: the configuration file, the
  answers to the discovery of node ids, the events of its run, the clock, and the world afterwards.
\<close>

record 'b bench =
  bn_fmt :: "pyval \<Rightarrow> string"
  bn_prng :: prng
  bn_lf_config :: "exn + leader_config"
  bn_ll_config :: "exn + cluster_config"
  bn_mq_config :: "exn + mq_config"
  bn_admin :: "'b admin"
  bn_for_code :: "int \<Rightarrow> string"
  bn_discover :: "'b \<Rightarrow> string \<Rightarrow> string http_outcome"
  bn_time :: "'b \<Rightarrow> pyfloat"
  bn_events :: "'b \<Rightarrow> load_event list"
  bn_after :: "'b \<Rightarrow> 'b"

definition on_test :: "'b bench \<Rightarrow> ('b \<Rightarrow> (exn + load_test_result) option) \<Rightarrow> ('b, load_test_result) hcomp" where
  "on_test bn test s =
     (case test (hs_world s) of
        None \<Rightarrow> None
      | Some r \<Rightarrow> Some (r, s\<lparr>hs_world := bn_after bn (hs_world s)\<rparr>))"

definition add_node :: "spawned_node \<Rightarrow> ('b, unit) hcomp" where
  "add_node n s = Some (Inr (), s\<lparr>hs_nodes := hs_nodes s @ [n]\<rparr>)"

definition config_result_of :: "string \<Rightarrow> string \<Rightarrow> load_test_result \<Rightarrow> sweep_outcome" where
  "config_result_of strategy label result =
     Config_result \<lparr>cr_strategy = strategy, cr_label = label, cr_elapsed = ltr_elapsed result,
       cr_staleness_rate = staleness_rate (ltr_stats result),
       cr_total_failures = total_failures (ltr_stats result),
       cr_total_requests = total_requests (ltr_stats result)\<rparr>"

text \<open>
  The frame of every configuration: \<open>nodes = []\<close>, then the body, an outcome for its result or for
  the exception it raised, and \<open>_stop_all(nodes)\<close> at the end in any case.
\<close>

definition run_config ::
    "'b os \<Rightarrow> string \<Rightarrow> string \<Rightarrow> ('b, load_test_result) hcomp \<Rightarrow> ('b, sweep_outcome) hcomp" where
  "run_config os strategy label body s =
     h_finally
       (h_except
         (h_bind body (\<lambda>result. h_return (config_result_of strategy label result)))
         (\<lambda>exc. h_return (Config_error \<lparr>ce_strategy = strategy, ce_label = label, ce_reason = exc\<rparr>)))
       (\<lambda>s. stop_all os (hs_nodes s) s)
       (s\<lparr>hs_nodes := []\<rparr>)"

definition num :: "nat \<Rightarrow> string" where
  "num i = py_str_of_int (int i)"

section \<open>The leader-follower sweep\<close>

definition LEADER_FOLLOWER_HOST :: string where "LEADER_FOLLOWER_HOST = ''127.0.0.1''"
definition LEADER_FOLLOWER_LEADER_PORT :: int where "LEADER_FOLLOWER_LEADER_PORT = 8000"
definition LEADER_FOLLOWER_FOLLOWER_PORTS :: "int list" where
  "LEADER_FOLLOWER_FOLLOWER_PORTS = [8001, 8002, 8003, 8004]"
definition ACK_REQUIRED_SWEEP :: "int list" where "ACK_REQUIRED_SWEEP = [0, 1, 2, 3, 4]"

definition lf_label :: "int \<Rightarrow> string" where
  "lf_label ack_required = ''ack_required='' @ py_str_of_int ack_required"

text \<open>The command lines of the processes the sweep spawns.\<close>

definition lf_follower_argv :: "nat \<Rightarrow> int \<Rightarrow> string list" where
  "lf_follower_argv i port = [''--node-id'', ''follower'' @ num i, ''--port'', py_str_of_int port]"

definition lf_leader_argv :: "int \<Rightarrow> string list" where
  "lf_leader_argv ack_required =
     [''--node-id'', ''leader'', ''--port'', py_str_of_int LEADER_FOLLOWER_LEADER_PORT,
      ''--ack-required'', py_str_of_int ack_required]"

definition lf_spawn_follower :: "'b os \<Rightarrow> int \<Rightarrow> nat \<times> int \<Rightarrow> ('b, unit) hcomp" where
  "lf_spawn_follower os ack_required = (\<lambda>(i, port).
     h_bind (spawn os ''leader_follower.follower'' (lf_follower_argv i port)
         (''lf_ack'' @ py_str_of_int ack_required @ ''_follower'' @ num i) LEADER_FOLLOWER_HOST port)
       add_node)"

definition lf_test :: "'b bench \<Rightarrow> 'b \<Rightarrow> (exn + load_test_result) option" where
  "lf_test bn w =
     lf_run_load_test (bn_fmt bn) (bn_prng bn) (bn_lf_config bn) (bn_discover bn w) DEFAULT_SEED
       (bn_time bn w) (bn_time bn (bn_after bn w)) (bn_events bn w)"

definition lf_config_body :: "'b os \<Rightarrow> 'b bench \<Rightarrow> int \<Rightarrow> ('b, load_test_result) hcomp" where
  "lf_config_body os bn ack_required =
     h_bind (h_iter (lf_spawn_follower os ack_required) (enumerate 1 LEADER_FOLLOWER_FOLLOWER_PORTS)) (\<lambda>_.
     h_bind (\<lambda>s. wait_for_all_healthy os (hs_nodes s) s) (\<lambda>_.
     h_bind (spawn os ''leader_follower.leader'' (lf_leader_argv ack_required)
         (''lf_ack'' @ py_str_of_int ack_required @ ''_leader'') LEADER_FOLLOWER_HOST LEADER_FOLLOWER_LEADER_PORT)
       (\<lambda>leader. h_bind (add_node leader) (\<lambda>_.
     h_bind (wait_for_all_healthy os [leader]) (\<lambda>_.
       on_test bn (lf_test bn))))))"

definition run_leader_follower_configs :: "'b os \<Rightarrow> 'b bench \<Rightarrow> ('b, sweep_outcome list) hcomp" where
  "run_leader_follower_configs os bn =
     h_map (\<lambda>ack_required. run_config os ''leader-follower'' (lf_label ack_required) (lf_config_body os bn ack_required))
       ACK_REQUIRED_SWEEP"

section \<open>The leaderless sweep\<close>

definition LEADERLESS_HOST :: string where "LEADERLESS_HOST = ''127.0.0.1''"
definition LEADERLESS_NODE_PORTS :: "int list" where
  "LEADERLESS_NODE_PORTS = [8101, 8102, 8103, 8104, 8105]"
definition LEADERLESS_WR_SWEEP :: "(string \<times> int \<times> int) list" where
  "LEADERLESS_WR_SWEEP = [(''W=1, R=1'', 1, 1), (''W=1, R=5'', 1, 5), (''W=5, R=1'', 5, 1),
     (''W=3, R=3'', 3, 3), (''W=2, R=3'', 2, 3)]"

definition ll_node_argv :: "nat \<Rightarrow> int \<Rightarrow> string list" where
  "ll_node_argv i port = [''--node-id'', ''node'' @ num i, ''--port'', py_str_of_int port]"

definition ll_spawn_node :: "'b os \<Rightarrow> string \<Rightarrow> nat \<times> int \<Rightarrow> ('b, unit) hcomp" where
  "ll_spawn_node os slug_text = (\<lambda>(i, port).
     h_bind (spawn os ''leaderless.node'' (ll_node_argv i port)
         (''leaderless_'' @ slug_text @ ''_node'' @ num i) LEADERLESS_HOST port)
       add_node)"

definition ll_test :: "'b bench \<Rightarrow> int \<Rightarrow> int \<Rightarrow> 'b \<Rightarrow> (exn + load_test_result) option" where
  "ll_test bn w r wd =
     ll_run_load_test (bn_fmt bn) (bn_prng bn) (bn_ll_config bn) (bn_discover bn wd) (Some w) (Some r) DEFAULT_SEED
       (bn_time bn wd) (bn_time bn (bn_after bn wd)) (bn_events bn wd)"

definition ll_config_body :: "'b os \<Rightarrow> 'b bench \<Rightarrow> string \<times> int \<times> int \<Rightarrow> ('b, load_test_result) hcomp" where
  "ll_config_body os bn = (\<lambda>(label, w, r).
     h_bind (h_iter (ll_spawn_node os (slug label)) (enumerate 1 LEADERLESS_NODE_PORTS)) (\<lambda>_.
     h_bind (\<lambda>s. wait_for_all_healthy os (hs_nodes s) s) (\<lambda>_.
       on_test bn (ll_test bn w r))))"

definition run_leaderless_configs :: "'b os \<Rightarrow> 'b bench \<Rightarrow> ('b, sweep_outcome list) hcomp" where
  "run_leaderless_configs os bn =
     h_map (\<lambda>c. run_config os ''leaderless'' (fst c) (ll_config_body os bn c)) LEADERLESS_WR_SWEEP"

section \<open>The message queue sweep\<close>

definition MQ_WORKER_SWEEP :: "int list" where "MQ_WORKER_SWEEP = [1, 2, 5]"

definition mq_label :: "int \<Rightarrow> string" where
  "mq_label num_workers = ''workers='' @ py_str_of_int num_workers"

definition reset_topic_h :: "'b bench \<Rightarrow> mq_config \<Rightarrow> ('b, unit) hcomp" where
  "reset_topic_h bn config s =
     (case reset_topic (bn_admin bn) (bn_for_code bn) config 31 (hs_world s) of
        None \<Rightarrow> None
      | Some (r, w) \<Rightarrow> Some (r, s\<lparr>hs_world := w\<rparr>))"

definition mq_follower_argv :: "string \<Rightarrow> nat \<Rightarrow> int \<Rightarrow> string list" where
  "mq_follower_argv slug_text i port =
     [''--node-id'', ''follower'' @ num i @ ''_'' @ slug_text, ''--port'', py_str_of_int port]"

definition mq_producer_argv :: "string \<Rightarrow> string list" where
  "mq_producer_argv slug_text = [''--node-id'', ''producer_'' @ slug_text, ''--port'', py_str_of_int PRODUCER_PORT]"

definition mq_spawn_follower :: "'b os \<Rightarrow> string \<Rightarrow> nat \<times> int \<Rightarrow> ('b, spawned_node) hcomp" where
  "mq_spawn_follower os slug_text = (\<lambda>(i, port).
     spawn os ''message_queue.follower'' (mq_follower_argv slug_text i port)
       (''mq_'' @ slug_text @ ''_follower'' @ num i) FOLLOWER_HOST port)"

definition add_nodes :: "spawned_node list \<Rightarrow> ('b, unit) hcomp" where
  "add_nodes ns s = Some (Inr (), s\<lparr>hs_nodes := hs_nodes s @ ns\<rparr>)"

text \<open>The followers are collected first and join \<open>nodes\<close> only when all of them were started.\<close>

definition mq_test :: "'b bench \<Rightarrow> int \<Rightarrow> 'b \<Rightarrow> (exn + load_test_result) option" where
  "mq_test bn num_workers w =
     mq_run_load_test (bn_prng bn) (bn_discover bn w) num_workers TOTAL_REQUESTS DEFAULT_SEED
       (bn_time bn w) (bn_time bn (bn_after bn w)) (bn_events bn w)"

definition mq_config_body :: "'b os \<Rightarrow> 'b bench \<Rightarrow> mq_config \<Rightarrow> int \<Rightarrow> ('b, load_test_result) hcomp" where
  "mq_config_body os bn config num_workers =
     (let slug_text = slug (mq_label num_workers)
      in h_bind (reset_topic_h bn config) (\<lambda>_.
         h_bind (h_map (mq_spawn_follower os slug_text) (enumerate 1 FOLLOWER_PORTS)) (\<lambda>followers.
         h_bind (add_nodes followers) (\<lambda>_.
         h_bind (wait_for_all_healthy os followers) (\<lambda>_.
         h_bind (wait_for_mq_followers_assigned os followers) (\<lambda>_.
         h_bind (spawn os ''message_queue.producer'' (mq_producer_argv slug_text)
             (''mq_'' @ slug_text @ ''_producer'') FOLLOWER_HOST PRODUCER_PORT) (\<lambda>producer.
         h_bind (add_node producer) (\<lambda>_.
         h_bind (wait_for_all_healthy os [producer]) (\<lambda>_.
           on_test bn (mq_test bn num_workers))))))))))"

definition run_mq_configs :: "'b os \<Rightarrow> 'b bench \<Rightarrow> ('b, sweep_outcome list) hcomp" where
  "run_mq_configs os bn s =
     (case bn_mq_config bn of
        Inl e \<Rightarrow> Some (Inl e, s)
      | Inr config \<Rightarrow>
          h_map (\<lambda>num_workers. run_config os ''message-queue'' (mq_label num_workers)
              (mq_config_body os bn config num_workers)) MQ_WORKER_SWEEP s)"

section \<open>The whole comparison\<close>

text \<open>\<open>main\<close>: the outcomes of the two ranked sweeps, and those of the message queue.\<close>

definition run_comparison ::
    "'b os \<Rightarrow> 'b bench \<Rightarrow> ('b, sweep_outcome list \<times> sweep_outcome list) hcomp" where
  "run_comparison os bn =
     h_bind (run_leader_follower_configs os bn) (\<lambda>lf.
     h_bind (run_leaderless_configs os bn) (\<lambda>ll.
     h_bind (run_mq_configs os bn) (\<lambda>mq. h_return (lf @ ll, mq))))"

fun results_of :: "sweep_outcome list \<Rightarrow> config_result list" where
  "results_of [] = []"
| "results_of (Config_result r # os) = r # results_of os"
| "results_of (Config_error e # os) = results_of os"

fun errors_of :: "sweep_outcome list \<Rightarrow> config_error list" where
  "errors_of [] = []"
| "errors_of (Config_result r # os) = errors_of os"
| "errors_of (Config_error e # os) = e # errors_of os"

text \<open>The rows of the combined report: rank and result, lowest staleness first, ties in sweep order.\<close>

definition ranked_rows :: "sweep_outcome list \<Rightarrow> (nat \<times> config_result) list" where
  "ranked_rows outcomes = enumerate 1 (sort_key cr_staleness_rate (results_of outcomes))"

section \<open>Lemmas: every process has a node\<close>

text \<open>Every process that may still run belongs to a node in \<open>nodes\<close>.\<close>

definition tracked :: "'b hstate \<Rightarrow> bool" where
  "tracked s \<longleftrightarrow> set (hs_live s) \<subseteq> sn_proc ` set (hs_nodes s)"

lemma tracked_poll_proc [keeps_rules]: "keeps tracked (poll_proc os p)"
  by (auto simp: keeps_def poll_proc_def tracked_def split: prod.splits)

lemma tracked_on_world [keeps_rules]: "keeps tracked (on_world f)"
  by (simp add: keeps_def on_world_def tracked_def)

lemma tracked_node_healthy [keeps_rules]: "keeps tracked (node_healthy os n)"
  by (auto simp: keeps_def node_healthy_def tracked_def split: prod.splits)

lemma tracked_on_test [keeps_rules]: "keeps tracked (on_test bn test)"
  by (auto simp: keeps_def on_test_def tracked_def split: option.splits)

lemma tracked_poll_pending [keeps_rules]:
  "(\<And>n. keeps tracked (ready n)) \<Longrightarrow> keeps tracked (poll_pending os ready ns)"
  by (induction ns) (auto intro!: keeps_rules split: option.split)

lemma tracked_poll_until:
  assumes "\<And>n. keeps tracked (ready n)"
  shows "keeps tracked (poll_until os ready deadline fuel ns)"
proof (induction fuel arbitrary: ns)
  case 0
  show ?case by (cases ns) (simp_all add: keeps_def)
next
  case (Suc fuel)
  show ?case
  proof (cases ns)
    case Nil
    then show ?thesis by (simp add: keeps_def)
  next
    case (Cons n ns')
    have again: "keeps tracked (h_bind (on_world (os_sleep os HEALTH_POLL_INTERVAL_SECONDS))
        (\<lambda>_. poll_until os ready deadline fuel pending))" for pending
      by (intro keeps_rules Suc.IH)
    have "keeps tracked (h_bind (poll_pending os ready (n # ns')) (\<lambda>pending s1.
        if pending = [] then Some (Inr (), s1)
        else if deadline < os_monotonic os (hs_world s1) then Some (Inl (NodeStartupErr ''timed out''), s1)
        else h_bind (on_world (os_sleep os HEALTH_POLL_INTERVAL_SECONDS))
               (\<lambda>_. poll_until os ready deadline fuel pending) s1))"
      using again by (intro keeps_bind tracked_poll_pending assms) (auto simp: keeps_def)
    moreover have "poll_until os ready deadline (Suc fuel) (n # ns') =
        h_bind (poll_pending os ready (n # ns')) (\<lambda>pending s1.
        if pending = [] then Some (Inr (), s1)
        else if deadline < os_monotonic os (hs_world s1) then Some (Inl (NodeStartupErr ''timed out''), s1)
        else h_bind (on_world (os_sleep os HEALTH_POLL_INTERVAL_SECONDS))
               (\<lambda>_. poll_until os ready deadline fuel pending) s1)"
      by (rule ext) simp
    ultimately show ?thesis using Cons by simp
  qed
qed

lemma tracked_wait_healthy [keeps_rules]:
  "keeps tracked (\<lambda>s. wait_for_all_healthy os (ns s) s)"
  using tracked_poll_until [of "node_healthy os" os, OF tracked_node_healthy]
  unfolding keeps_def wait_for_all_healthy_def Let_def by blast

lemma tracked_wait_healthy_list [keeps_rules]: "keeps tracked (wait_for_all_healthy os ns)"
  using tracked_wait_healthy [of os "\<lambda>_. ns"] by simp

text \<open>A started process joins \<open>nodes\<close> in the next statement.\<close>

lemma tracked_spawn_add [keeps_rules]:
  assumes "\<And>n. keeps tracked (f n)"
  shows "keeps tracked (h_bind (spawn os m args label host port) (\<lambda>n. h_bind (add_node n) (\<lambda>_. f n)))"
  unfolding keeps_def
proof (intro allI impI)
  fix s r s'
  assume t: "tracked s"
    and run: "h_bind (spawn os m args label host port) (\<lambda>n. h_bind (add_node n) (\<lambda>_. f n)) s = Some (r, s')"
  show "tracked s'"
  proof (cases "fst (os_popen os m args (hs_world s))")
    case (Inl e)
    then show ?thesis using run t by (auto simp: h_bind_def spawn_def tracked_def split: prod.splits)
  next
    case (Inr u)
    then obtain w where w: "os_popen os m args (hs_world s) = (Inr (), w)"
      by (cases "os_popen os m args (hs_world s)") simp
    let ?n = "\<lparr>sn_label = label, sn_host = host, sn_port = port, sn_proc = hs_started s\<rparr>"
    let ?s = "s\<lparr>hs_world := w, hs_started := hs_started s + 1, hs_live := hs_started s # hs_live s,
      hs_nodes := hs_nodes s @ [?n]\<rparr>"
    have "tracked ?s" using t by (auto simp: tracked_def)
    moreover have "f ?n ?s = Some (r, s')"
      using run w by (simp add: h_bind_def spawn_def add_node_def)
    ultimately show ?thesis using assms unfolding keeps_def by blast
  qed
qed

lemma tracked_spawn_add_last [keeps_rules]:
  "keeps tracked (h_bind (spawn os m args label host port) add_node)"
  using tracked_spawn_add [of "\<lambda>_. h_return ()" os m args label host port] by (simp add: keeps_return)

lemma tracked_lf_body: "keeps tracked (lf_config_body os bn ack)"
  unfolding lf_config_body_def lf_spawn_follower_def by (auto intro!: keeps_rules split: prod.splits)

lemma tracked_ll_body: "keeps tracked (ll_config_body os bn c)"
  unfolding ll_config_body_def ll_spawn_node_def by (auto intro!: keeps_rules split: prod.splits)

section \<open>Lemmas: stopping nodes\<close>

text \<open>What the operating system documents of SIGKILL: a process it was sent to ends, and its wait returns.\<close>

definition kill_ends :: "'b os \<Rightarrow> bool" where
  "kill_ends os \<longleftrightarrow> (\<forall>p t w. fst (os_wait os p t (os_kill os p w)))"

lemma stop_node_ends:
  assumes "kill_ends os"
  shows "\<exists>s'. stop_node os g n s = Some (Inr (), s') \<and> hs_live s' = removeAll (sn_proc n) (hs_live s)"
proof (cases "fst (os_poll os (sn_proc n) (hs_world s))")
  case (Some c)
  then show ?thesis
    by (auto simp: stop_node_def Let_def h_bind_def h_return_def poll_proc_def split: prod.splits)
next
  case None
  let ?w = "os_terminate os (sn_proc n) (snd (os_poll os (sn_proc n) (hs_world s)))"
  show ?thesis
  proof (cases "fst (os_wait os (sn_proc n) g ?w)")
    case True
    then show ?thesis using None
      by (auto simp: stop_node_def Let_def h_bind_def poll_proc_def on_world_def wait_proc_def split: prod.splits)
  next
    case False
    have "fst (os_wait os (sn_proc n) g (os_kill os (sn_proc n) (snd (os_wait os (sn_proc n) g ?w))))"
      using assms by (simp add: kill_ends_def)
    then show ?thesis using None False
      by (auto simp: stop_node_def Let_def h_bind_def poll_proc_def on_world_def wait_proc_def split: prod.splits)
  qed
qed

lemma stop_all_ends:
  assumes "kill_ends os"
  shows "\<exists>s'. stop_all os ns s = Some (Inr (), s') \<and>
           hs_live s' = filter (\<lambda>p. p \<notin> sn_proc ` set ns) (hs_live s)"
proof (induction ns arbitrary: s)
  case Nil
  then show ?case by (simp add: stop_all_def h_return_def)
next
  case (Cons n ns)
  obtain s1 where s1: "stop_node os SHUTDOWN_GRACE_SECONDS n s = Some (Inr (), s1)"
    "hs_live s1 = removeAll (sn_proc n) (hs_live s)"
    using stop_node_ends [OF assms] by blast
  obtain s2 where s2: "stop_all os ns s1 = Some (Inr (), s2)"
    "hs_live s2 = filter (\<lambda>p. p \<notin> sn_proc ` set ns) (hs_live s1)"
    using Cons.IH by blast
  have "stop_all os (n # ns) s = Some (Inr (), s2)"
    using s1(1) s2(1) by (simp add: stop_all_def h_bind_def)
  moreover have "hs_live s2 = filter (\<lambda>p. p \<notin> sn_proc ` set (n # ns)) (hs_live s)"
    unfolding s2(2) s1(2) removeAll_filter_not_eq by (auto intro!: filter_cong)
  ultimately show ?case by blast
qed

text \<open>How a sweep ends: no process left, and one outcome per configuration unless the script itself is ended.\<close>

definition sweep_ended :: "string list \<Rightarrow> exn + sweep_outcome list \<Rightarrow> 'b hstate \<Rightarrow> bool" where
  "sweep_ended labels r s' \<longleftrightarrow>
     hs_live s' = [] \<and>
     (case r of Inl e \<Rightarrow> \<not> is_exception e | Inr outcomes \<Rightarrow> map outcome_label outcomes = labels)"

text \<open>The outcomes alone, whatever is left running.\<close>

definition sweep_labelled :: "string list \<Rightarrow> exn + sweep_outcome list \<Rightarrow> bool" where
  "sweep_labelled labels r \<longleftrightarrow>
     (case r of Inl e \<Rightarrow> \<not> is_exception e | Inr outcomes \<Rightarrow> map outcome_label outcomes = labels)"

lemma sweep_ended_iff: "sweep_ended labels r s' \<longleftrightarrow> hs_live s' = [] \<and> sweep_labelled labels r"
  by (simp add: sweep_ended_def sweep_labelled_def)

lemma run_config_ends:
  assumes "kill_ends os" "run_config os strategy label body s = Some (r, s')"
  shows "(keeps tracked body \<longrightarrow> hs_live s = [] \<longrightarrow> hs_live s' = []) \<and>
    (case r of Inl e \<Rightarrow> \<not> is_exception e | Inr outcome \<Rightarrow> outcome_label outcome = label)"
proof -
  let ?m = "h_except (h_bind body (\<lambda>result. h_return (config_result_of strategy label result)))
         (\<lambda>exc. h_return (Config_error \<lparr>ce_strategy = strategy, ce_label = label, ce_reason = exc\<rparr>))"
  obtain r1 s1 where m: "?m (s\<lparr>hs_nodes := []\<rparr>) = Some (r1, s1)"
    using assms(2) by (auto simp: run_config_def h_finally_def split: option.splits)
  obtain s2 where s2: "stop_all os (hs_nodes s1) s1 = Some (Inr (), s2)"
    "hs_live s2 = filter (\<lambda>p. p \<notin> sn_proc ` set (hs_nodes s1)) (hs_live s1)"
    using stop_all_ends [OF assms(1)] by blast
  have rs: "r = r1" "s' = s2"
    using assms(2) m s2(1) by (simp_all add: run_config_def h_finally_def)
  have "hs_live s' = []" if body: "keeps tracked body" and live: "hs_live s = []"
  proof -
    have "tracked (s\<lparr>hs_nodes := []\<rparr>)" using live by (simp add: tracked_def)
    moreover have "keeps tracked ?m"
      using body unfolding keeps_def h_except_def h_bind_def h_return_def
      by (auto split: option.splits sum.splits if_splits)
    ultimately have "tracked s1" using m unfolding keeps_def by blast
    then show ?thesis using s2(2) rs by (auto simp: tracked_def filter_empty_conv)
  qed
  moreover have "case r of Inl e \<Rightarrow> \<not> is_exception e | Inr outcome \<Rightarrow> outcome_label outcome = label"
    using m unfolding rs(1)
    by (auto simp: h_except_def h_bind_def h_return_def config_result_of_def split: option.splits sum.splits if_splits)
  ultimately show ?thesis by blast
qed

lemma sweep_ends:
  assumes "kill_ends os" "h_map (\<lambda>x. run_config os strategy (label x) (body x)) xs s = Some (r, s')"
  shows "((\<forall>x. keeps tracked (body x)) \<longrightarrow> hs_live s = [] \<longrightarrow> hs_live s' = []) \<and> sweep_labelled (map label xs) r"
  using assms(2)
proof (induction xs arbitrary: s r)
  case Nil
  then show ?case by (auto simp: h_return_def sweep_labelled_def)
next
  case (Cons x xs)
  obtain r1 s1 where one: "run_config os strategy (label x) (body x) s = Some (r1, s1)"
    using Cons.prems by (auto simp: h_bind_def split: option.splits)
  note e = run_config_ends [OF assms(1) one]
  show ?case
  proof (cases r1)
    case (Inl exc)
    then show ?thesis using e one Cons.prems by (auto simp: h_bind_def sweep_labelled_def)
  next
    case (Inr outcome)
    then obtain r2 where "h_map (\<lambda>x. run_config os strategy (label x) (body x)) xs s1 = Some (r2, s')"
      "r = (case r2 of Inl e \<Rightarrow> Inl e | Inr ys \<Rightarrow> Inr (outcome # ys))"
      using one Cons.prems by (auto simp: h_bind_def h_return_def split: option.splits sum.splits)
    moreover note Cons.IH [OF this(1)]
    ultimately show ?thesis using e Inr by (auto simp: sweep_labelled_def split: sum.splits)
  qed
qed

section \<open>Lemmas: waiting for nodes\<close>

text \<open>The clock does not run backwards, and a sleep lasts at least as long as asked.\<close>

definition os_clock_ok :: "'b os \<Rightarrow> bool" where
  "os_clock_ok os \<longleftrightarrow>
     (\<forall>p w. os_monotonic os w \<le> os_monotonic os (snd (os_poll os p w))) \<and>
     (\<forall>u w. os_monotonic os w \<le> os_monotonic os (snd (os_health os u w))) \<and>
     (\<forall>u w. os_monotonic os w \<le> os_monotonic os (snd (os_lag os u w))) \<and>
     (\<forall>d w. os_monotonic os w + d \<le> os_monotonic os (os_sleep os d w))"

definition hs_time :: "'b os \<Rightarrow> 'b hstate \<Rightarrow> rat" where
  "hs_time os s = os_monotonic os (hs_world s)"

text \<open>A readiness check that comes back, no earlier than it was made; \<open>seen n\<close> when it found the node ready.\<close>

definition check_ok :: "'b os \<Rightarrow> (spawned_node \<Rightarrow> ('b, bool) hcomp) \<Rightarrow> (spawned_node \<Rightarrow> bool) \<Rightarrow> (exn \<Rightarrow> bool) \<Rightarrow> bool" where
  "check_ok os ready seen bad \<longleftrightarrow>
     (\<forall>n s. \<exists>r s'. ready n s = Some (r, s') \<and> hs_time os s \<le> hs_time os s' \<and>
        (case r of Inr ok \<Rightarrow> ok \<longrightarrow> seen n | Inl e \<Rightarrow> bad e))"

lemma poll_proc_total:
  assumes "os_clock_ok os"
  shows "\<exists>code s'. poll_proc os p s = Some (Inr code, s') \<and> hs_time os s \<le> hs_time os s'"
proof -
  have "os_monotonic os (hs_world s) \<le> os_monotonic os (snd (os_poll os p (hs_world s)))"
    using assms by (simp add: os_clock_ok_def)
  then show ?thesis by (simp add: poll_proc_def hs_time_def case_prod_beta)
qed

lemma poll_pending_total:
  assumes "os_clock_ok os" "check_ok os ready seen bad"
  shows "\<exists>r s'. poll_pending os ready ns s = Some (r, s') \<and> hs_time os s \<le> hs_time os s' \<and>
     (case r of Inr pending \<Rightarrow> set pending \<subseteq> set ns \<and> (\<forall>n \<in> set ns - set pending. seen n)
              | Inl e \<Rightarrow> bad e \<or> (\<exists>l. e = NodeStartupErr l))"
proof (induction ns arbitrary: s)
  case Nil
  then show ?case by (simp add: h_return_def)
next
  case (Cons n ns)
  obtain code s1 where p: "poll_proc os (sn_proc n) s = Some (Inr code, s1)" "hs_time os s \<le> hs_time os s1"
    using poll_proc_total [OF assms(1)] by blast
  show ?case
  proof (cases code)
    case (Some c)
    then show ?thesis using p by (simp add: h_bind_def h_raise_def)
  next
    case None
    obtain r s2 where q: "ready n s1 = Some (r, s2)" "hs_time os s1 \<le> hs_time os s2"
      "case r of Inr ok \<Rightarrow> ok \<longrightarrow> seen n | Inl e \<Rightarrow> bad e"
      using assms(2) unfolding check_ok_def by blast
    show ?thesis
    proof (cases r)
      case (Inl e)
      then show ?thesis using None p q by (simp add: h_bind_def)
    next
      case (Inr ok)
      obtain r' s3 where t: "poll_pending os ready ns s2 = Some (r', s3)" "hs_time os s2 \<le> hs_time os s3"
        "case r' of Inr pending \<Rightarrow> set pending \<subseteq> set ns \<and> (\<forall>n \<in> set ns - set pending. seen n)
              | Inl e \<Rightarrow> bad e \<or> (\<exists>l. e = NodeStartupErr l)"
        using Cons.IH by blast
      have le: "hs_time os s \<le> hs_time os s3" using p(2) q(2) t(2) by linarith
      show ?thesis
      proof (cases r')
        case (Inl e)
        then show ?thesis using None Inr p(1) q(1) t le by (simp add: h_bind_def)
      next
        case (Inr pending)
        have "poll_pending os ready (n # ns) s = Some (Inr (if ok then pending else n # pending), s3)"
          using None \<open>r = Inr ok\<close> Inr p(1) q(1) t(1) by (simp add: h_bind_def h_return_def)
        then show ?thesis using le q(3) t(3) \<open>r = Inr ok\<close> Inr by auto
      qed
    qed
  qed
qed

lemma poll_until_total:
  assumes "os_clock_ok os" "check_ok os ready seen bad"
    "deadline < hs_time os s + of_nat fuel * HEALTH_POLL_INTERVAL_SECONDS"
  shows "\<exists>r s'. poll_until os ready deadline (Suc fuel) ns s = Some (r, s') \<and>
     (case r of Inr u \<Rightarrow> \<forall>n \<in> set ns. seen n | Inl e \<Rightarrow> bad e \<or> (\<exists>l. e = NodeStartupErr l))"
  using assms(3)
proof (induction fuel arbitrary: ns s)
  case 0
  show ?case
  proof (cases ns)
    case (Cons n ns')
    obtain r s1 where p: "poll_pending os ready (n # ns') s = Some (r, s1)" "hs_time os s \<le> hs_time os s1"
      "case r of Inr pending \<Rightarrow> set pending \<subseteq> set (n # ns') \<and> (\<forall>n \<in> set (n # ns') - set pending. seen n)
              | Inl e \<Rightarrow> bad e \<or> (\<exists>l. e = NodeStartupErr l)"
      using poll_pending_total [OF assms(1,2)] by blast
    have "deadline < os_monotonic os (hs_world s1)" using 0 p(2) by (simp add: hs_time_def)
    then show ?thesis using Cons p(1,3) by (cases r) (simp_all add: h_bind_def)
  qed simp
next
  case (Suc fuel)
  show ?case
  proof (cases ns)
    case (Cons n ns')
    obtain r s1 where p: "poll_pending os ready (n # ns') s = Some (r, s1)" "hs_time os s \<le> hs_time os s1"
      "case r of Inr pending \<Rightarrow> set pending \<subseteq> set (n # ns') \<and> (\<forall>n \<in> set (n # ns') - set pending. seen n)
              | Inl e \<Rightarrow> bad e \<or> (\<exists>l. e = NodeStartupErr l)"
      using poll_pending_total [OF assms(1,2)] by blast
    show ?thesis
    proof (cases "\<exists>pending. r = Inr pending \<and> pending \<noteq> [] \<and> \<not> deadline < os_monotonic os (hs_world s1)")
      case False
      then show ?thesis using Cons p(1,3) by (cases r) (auto simp: h_bind_def)
    next
      case True
      then obtain pending where r: "r = Inr pending" "pending \<noteq> []" "\<not> deadline < os_monotonic os (hs_world s1)"
        by blast
      let ?s2 = "s1\<lparr>hs_world := os_sleep os HEALTH_POLL_INTERVAL_SECONDS (hs_world s1)\<rparr>"
      have "hs_time os s1 + HEALTH_POLL_INTERVAL_SECONDS \<le> hs_time os ?s2"
        using assms(1) by (simp add: os_clock_ok_def hs_time_def)
      then have "deadline < hs_time os ?s2 + of_nat fuel * HEALTH_POLL_INTERVAL_SECONDS"
        using Suc.prems p(2) by (simp add: algebra_simps)
      then obtain r' s' where IH: "poll_until os ready deadline (Suc fuel) pending ?s2 = Some (r', s')"
        "case r' of Inr u \<Rightarrow> \<forall>n \<in> set pending. seen n | Inl e \<Rightarrow> bad e \<or> (\<exists>l. e = NodeStartupErr l)"
        using Suc.IH by blast
      have "poll_until os ready deadline (Suc (Suc fuel)) ns s = Some (r', s')"
        using Cons p(1) r IH(1) by (simp add: h_bind_def on_world_def del: poll_until.simps(3)
            add: poll_until.simps(3) [of os ready deadline "Suc fuel"])
      moreover have "case r' of Inr u \<Rightarrow> \<forall>n \<in> set ns. seen n | Inl e \<Rightarrow> bad e \<or> (\<exists>l. e = NodeStartupErr l)"
        using IH(2) p(3) r(1) Cons by (cases r') auto
      ultimately show ?thesis by blast
    qed
  qed simp
qed

definition seen_healthy :: "'b os \<Rightarrow> spawned_node \<Rightarrow> bool" where
  "seen_healthy os n \<longleftrightarrow> (\<exists>w body. fst (os_health os (node_url n @ ''/health'') w) = Replied 200 body)"

lemma node_healthy_ok: "os_clock_ok os \<Longrightarrow> check_ok os (node_healthy os) (seen_healthy os) (\<lambda>_. False)"
  unfolding check_ok_def node_healthy_def hs_time_def os_clock_ok_def seen_healthy_def
  by (auto split: prod.split http_outcome.split) (metis fst_conv snd_conv)+

lemma wait_for_all_healthy_decides:
  assumes "os_clock_ok os"
  shows "\<exists>r s'. wait_for_all_healthy os nodes s = Some (r, s') \<and>
           (case r of Inr u \<Rightarrow> list_all (seen_healthy os) nodes | Inl e \<Rightarrow> \<exists>l. e = NodeStartupErr l)"
proof -
  let ?d = "os_monotonic os (hs_world s) + HEALTH_TIMEOUT_SECONDS"
  have "?d < hs_time os s + of_nat 76 * HEALTH_POLL_INTERVAL_SECONDS"
    by (simp add: hs_time_def HEALTH_TIMEOUT_SECONDS_def HEALTH_POLL_INTERVAL_SECONDS_def)
  from poll_until_total [OF assms node_healthy_ok [OF assms] this, of nodes]
  obtain r s' where run: "poll_until os (node_healthy os) ?d (Suc 76) nodes s = Some (r, s')"
    "case r of Inr u \<Rightarrow> \<forall>n \<in> set nodes. seen_healthy os n | Inl e \<Rightarrow> False \<or> (\<exists>l. e = NodeStartupErr l)"
    by blast
  have "POLL_FUEL = Suc 76" by (simp add: POLL_FUEL_def)
  then have "wait_for_all_healthy os nodes s = Some (r, s')"
    using run(1) by (simp only: wait_for_all_healthy_def Let_def)
  moreover have "case r of Inr u \<Rightarrow> list_all (seen_healthy os) nodes | Inl e \<Rightarrow> \<exists>l. e = NodeStartupErr l"
    using run(2) by (simp add: list_all_iff split: sum.splits)
  ultimately show ?thesis by blast
qed

lemma ends_steps [ends_rules]: "ends (spawn os m args label host port)" "ends (add_node n)"
  by (auto simp: ends_def spawn_def add_node_def Let_def split: prod.splits sum.splits)

lemma ends_on_test [ends_rules]: "(\<And>w. test w \<noteq> None) \<Longrightarrow> ends (on_test bn test)"
  by (auto simp: ends_def on_test_def split: option.splits)

lemma ends_wait [ends_rules]:
  "os_clock_ok os \<Longrightarrow> ends (\<lambda>s. wait_for_all_healthy os (ns s) s)"
  "os_clock_ok os \<Longrightarrow> ends (wait_for_all_healthy os nodes)"
  using wait_for_all_healthy_decides unfolding ends_def by (metis option.distinct(1))+

lemma ends_run_config:
  assumes "kill_ends os" "ends body"
  shows "ends (run_config os strategy label body)"
  unfolding ends_def
proof
  fix s
  have stop: "stop_all os ns s1 \<noteq> None" for ns s1
    using stop_all_ends [OF assms(1), of ns s1] by auto
  have "ends (h_except (h_bind body (\<lambda>result. h_return (config_result_of strategy label result)))
      (\<lambda>exc. h_return (Config_error \<lparr>ce_strategy = strategy, ce_label = label, ce_reason = exc\<rparr>)))"
    by (intro ends_rules assms(2))
  then show "run_config os strategy label body s \<noteq> None"
    unfolding run_config_def by (intro ends_finally [unfolded ends_def, rule_format]) (use stop in \<open>simp_all add: ends_def\<close>)
qed

lemma lf_sweep_total:
  assumes "kill_ends os" "os_clock_ok os" "\<And>w. lf_test bn w \<noteq> None" "hs_live s = []"
  shows "\<exists>r s'. run_leader_follower_configs os bn s = Some (r, s') \<and> sweep_ended (map lf_label ACK_REQUIRED_SWEEP) r s'"
proof -
  have "ends (lf_config_body os bn ack)" for ack
    unfolding lf_config_body_def lf_spawn_follower_def
    using assms(2,3) by (auto intro!: ends_rules split: prod.splits)
  then have "ends (run_leader_follower_configs os bn)"
    unfolding run_leader_follower_configs_def by (intro ends_rules ends_run_config assms(1))
  then obtain r s' where run: "run_leader_follower_configs os bn s = Some (r, s')"
    unfolding ends_def by fastforce
  have "sweep_ended (map lf_label ACK_REQUIRED_SWEEP) r s'"
    using sweep_ends [OF assms(1) run [unfolded run_leader_follower_configs_def]] tracked_lf_body assms(4)
    unfolding sweep_ended_iff by blast
  with run show ?thesis by blast
qed

lemma ll_sweep_total:
  assumes "kill_ends os" "os_clock_ok os" "\<And>w r wd. ll_test bn w r wd \<noteq> None" "hs_live s = []"
  shows "\<exists>r s'. run_leaderless_configs os bn s = Some (r, s') \<and> sweep_ended (map fst LEADERLESS_WR_SWEEP) r s'"
proof -
  have "ends (ll_config_body os bn c)" for c
    unfolding ll_config_body_def ll_spawn_node_def
    using assms(2,3) by (auto intro!: ends_rules split: prod.splits)
  then have "ends (run_leaderless_configs os bn)"
    unfolding run_leaderless_configs_def by (intro ends_rules ends_run_config assms(1))
  then obtain r s' where run: "run_leaderless_configs os bn s = Some (r, s')"
    unfolding ends_def by fastforce
  have "sweep_ended (map fst LEADERLESS_WR_SWEEP) r s'"
    using sweep_ends [OF assms(1) run [unfolded run_leaderless_configs_def]] tracked_ll_body assms(4)
    unfolding sweep_ended_iff by blast
  with run show ?thesis by blast
qed

section \<open>Lemmas: the message queue sweep\<close>

text \<open>
  As long as a follower can be started whenever one is asked for, the followers that are collected before
  they join \<open>nodes\<close> all do, and the sweep of the message queue cleans up too. \<open>popen_works os m\<close>: the processes
  of module \<open>m\<close> can be started.
\<close>

definition popen_works :: "'b os \<Rightarrow> string \<Rightarrow> bool" where
  "popen_works os m \<longleftrightarrow> (\<forall>args w. fst (os_popen os m args w) = Inr ())"

lemma spawn_works:
  assumes "popen_works os m"
  shows "\<exists>w. spawn os m args label host port s =
    Some (Inr \<lparr>sn_label = label, sn_host = host, sn_port = port, sn_proc = hs_started s\<rparr>,
      s\<lparr>hs_world := w, hs_started := hs_started s + 1, hs_live := hs_started s # hs_live s\<rparr>)"
proof -
  have "fst (os_popen os m args (hs_world s)) = Inr ()" using assms by (simp add: popen_works_def)
  then obtain w where "os_popen os m args (hs_world s) = (Inr (), w)" by (cases "os_popen os m args (hs_world s)") simp
  then show ?thesis by (intro exI [of _ w]) (simp add: spawn_def)
qed

lemma spawn_all_works:
  assumes "popen_works os m"
  shows "\<exists>ns s'. h_map (\<lambda>x. spawn os m (args x) (label x) (host x) (port x)) xs s = Some (Inr ns, s') \<and>
    hs_nodes s' = hs_nodes s \<and> set (hs_live s') \<subseteq> set (hs_live s) \<union> sn_proc ` set ns"
proof (induction xs arbitrary: s)
  case Nil
  then show ?case by (simp add: h_return_def)
next
  case (Cons x xs)
  obtain w where one: "spawn os m (args x) (label x) (host x) (port x) s =
      Some (Inr \<lparr>sn_label = label x, sn_host = host x, sn_port = port x, sn_proc = hs_started s\<rparr>,
        s\<lparr>hs_world := w, hs_started := hs_started s + 1, hs_live := hs_started s # hs_live s\<rparr>)"
    using spawn_works [OF assms] by blast
  obtain ns s' where rest: "h_map (\<lambda>x. spawn os m (args x) (label x) (host x) (port x)) xs
      (s\<lparr>hs_world := w, hs_started := hs_started s + 1, hs_live := hs_started s # hs_live s\<rparr>) = Some (Inr ns, s')"
    "hs_nodes s' = hs_nodes s" "set (hs_live s') \<subseteq> insert (hs_started s) (set (hs_live s)) \<union> sn_proc ` set ns"
    using Cons.IH [of "s\<lparr>hs_world := w, hs_started := hs_started s + 1, hs_live := hs_started s # hs_live s\<rparr>"]
    by auto
  then show ?case by (auto simp: h_bind_def h_return_def one)
qed

lemma tracked_spawn_all:
  assumes "popen_works os m" "\<And>ns. keeps tracked (f ns)"
  shows "keeps tracked (h_bind (h_map (\<lambda>x. spawn os m (args x) (label x) (host x) (port x)) xs)
    (\<lambda>ns. h_bind (add_nodes ns) (\<lambda>_. f ns)))"
  unfolding keeps_def
proof (intro allI impI)
  fix s r s'
  assume t: "tracked s" and run: "h_bind (h_map (\<lambda>x. spawn os m (args x) (label x) (host x) (port x)) xs)
    (\<lambda>ns. h_bind (add_nodes ns) (\<lambda>_. f ns)) s = Some (r, s')"
  obtain ns s1 where all: "h_map (\<lambda>x. spawn os m (args x) (label x) (host x) (port x)) xs s = Some (Inr ns, s1)"
    "hs_nodes s1 = hs_nodes s" "set (hs_live s1) \<subseteq> set (hs_live s) \<union> sn_proc ` set ns"
    using spawn_all_works [OF assms(1)] by blast
  have "tracked (s1\<lparr>hs_nodes := hs_nodes s1 @ ns\<rparr>)" using t all(2,3) by (auto simp: tracked_def)
  moreover have "f ns (s1\<lparr>hs_nodes := hs_nodes s1 @ ns\<rparr>) = Some (r, s')"
    using run all(1) by (simp add: h_bind_def add_nodes_def)
  ultimately show "tracked s'" using assms(2) unfolding keeps_def by blast
qed

lemma tracked_reset_topic [keeps_rules]: "keeps tracked (reset_topic_h bn config)"
  by (auto simp: keeps_def reset_topic_h_def tracked_def split: option.splits)

lemma tracked_node_assigned: "keeps tracked (node_assigned os n)"
  by (auto simp: keeps_def node_assigned_def tracked_def split: prod.splits)

lemma tracked_wait_assigned [keeps_rules]: "keeps tracked (wait_for_mq_followers_assigned os ns)"
  using tracked_poll_until [of "node_assigned os" os, OF tracked_node_assigned]
  unfolding keeps_def wait_for_mq_followers_assigned_def Let_def by blast

lemma tracked_mq_body:
  assumes "popen_works os ''message_queue.follower''"
  shows "keeps tracked (mq_config_body os bn config num_workers)"
  unfolding mq_config_body_def mq_spawn_follower_def Let_def case_prod_beta
  by (intro keeps_rules tracked_spawn_all assms)

lemma node_assigned_ok: "os_clock_ok os \<Longrightarrow> check_ok os (node_assigned os) (\<lambda>_. True) (\<lambda>_. True)"
  unfolding check_ok_def node_assigned_def hs_time_def os_clock_ok_def
  by (auto split: prod.split http_outcome.split sum.split) (metis snd_conv)+

lemma ends_wait_assigned [ends_rules]:
  assumes "os_clock_ok os"
  shows "ends (wait_for_mq_followers_assigned os ns)"
  unfolding ends_def
proof
  fix s
  have "os_monotonic os (hs_world s) + HEALTH_TIMEOUT_SECONDS < hs_time os s + of_nat 76 * HEALTH_POLL_INTERVAL_SECONDS"
    by (simp add: hs_time_def HEALTH_TIMEOUT_SECONDS_def HEALTH_POLL_INTERVAL_SECONDS_def)
  from poll_until_total [OF assms node_assigned_ok [OF assms] this, of ns]
  have "poll_until os (node_assigned os) (os_monotonic os (hs_world s) + HEALTH_TIMEOUT_SECONDS) (Suc 76) ns s \<noteq> None"
    by blast
  moreover have "POLL_FUEL = Suc 76" by (simp add: POLL_FUEL_def)
  ultimately show "wait_for_mq_followers_assigned os ns s \<noteq> None"
    by (simp only: wait_for_mq_followers_assigned_def Let_def) simp
qed

lemma ends_reset_topic [ends_rules]: "clock_laws (bn_admin bn) \<Longrightarrow> ends (reset_topic_h bn config)"
  using reset_topic_ends by (fastforce simp: ends_def reset_topic_h_def split: option.split)

lemma ends_add_nodes [ends_rules]: "ends (add_nodes ns)"
  by (simp add: ends_def add_nodes_def)

lemma mq_sweep_total:
  assumes "kill_ends os" "os_clock_ok os" "clock_laws (bn_admin bn)" "\<And>n w. mq_test bn n w \<noteq> None" "hs_live s = []"
  shows "\<exists>r s'. run_mq_configs os bn s = Some (r, s') \<and>
    (popen_works os ''message_queue.follower'' \<longrightarrow> hs_live s' = []) \<and>
    (case bn_mq_config bn of Inl e \<Rightarrow> r = Inl e | Inr config \<Rightarrow> sweep_labelled (map mq_label MQ_WORKER_SWEEP) r)"
proof (cases "bn_mq_config bn")
  case (Inl e)
  then show ?thesis using assms(5) by (simp add: run_mq_configs_def)
next
  case (Inr config)
  have "ends (mq_config_body os bn config n)" for n
    unfolding mq_config_body_def mq_spawn_follower_def Let_def case_prod_beta
    by (intro ends_rules assms)
  then have "ends (h_map (\<lambda>n. run_config os ''message-queue'' (mq_label n) (mq_config_body os bn config n)) MQ_WORKER_SWEEP)"
    by (intro ends_rules ends_run_config assms(1))
  then obtain r s' where run: "h_map (\<lambda>n. run_config os ''message-queue'' (mq_label n)
      (mq_config_body os bn config n)) MQ_WORKER_SWEEP s = Some (r, s')"
    unfolding ends_def by fastforce
  have "(popen_works os ''message_queue.follower'' \<longrightarrow> hs_live s' = []) \<and> sweep_labelled (map mq_label MQ_WORKER_SWEEP) r"
    using sweep_ends [OF assms(1) run] tracked_mq_body assms(5) by blast
  then show ?thesis using run Inr by (simp add: run_mq_configs_def)
qed

section \<open>Properties\<close>

text \<open>
  A world for examples: a clock in seconds. Processes start and stop at once, and a node answers its
  health check from the first second on. The configuration files of its bench cannot be loaded.
\<close>

definition demo_os :: "rat os" where
  "demo_os = \<lparr>os_popen = (\<lambda>m args w. (Inr (), w)), os_poll = (\<lambda>p w. (None, w)), os_terminate = (\<lambda>p w. w),
     os_kill = (\<lambda>p w. w), os_wait = (\<lambda>p t w. (True, w)),
     os_health = (\<lambda>u w. (if 1 \<le> w then Replied 200 (Inr ()) else Httpx_failed Connect_error [], w)),
     os_lag = (\<lambda>u w. (Replied 200 (Inr True), w)), os_monotonic = id, os_sleep = (+)\<rparr>"

definition demo_state :: "rat \<Rightarrow> rat hstate" where
  "demo_state w = \<lparr>hs_world = w, hs_started = 0, hs_live = [], hs_nodes = []\<rparr>"

definition demo_admin :: "rat admin" where
  "demo_admin = \<lparr>ad_start = Pair (Inr ()), ad_list_topics = Pair (Inr []),
     ad_create_topics = (\<lambda>t n r. Pair (Inr [(t, 0)])), ad_delete_topics = (\<lambda>t. Pair (Inr [(t, 0)])),
     ad_close = id, ad_monotonic = id, ad_sleep = (+)\<rparr>"

definition demo_bench :: "rat bench" where
  "demo_bench = \<lparr>bn_fmt = (\<lambda>_. []), bn_prng = demo_prng, bn_lf_config = Inl (KeyErr ''host''),
     bn_ll_config = Inl (KeyErr ''host''),
     bn_mq_config = Inr \<lparr>mq_bootstrap_servers = ''b'', mq_topic = ''t'', mq_num_partitions = 4,
       mq_consumer_group_prefix = ''g''\<rparr>,
     bn_admin = demo_admin, bn_for_code = (\<lambda>_. []), bn_discover = (\<lambda>w u. Replied 200 (Inr u)), bn_time = Fin,
     bn_events = (\<lambda>w. []), bn_after = (\<lambda>w. w + 30)\<rparr>"

lemma demo_os_ok: "os_clock_ok demo_os" "kill_ends demo_os"
  by (simp_all add: os_clock_ok_def kill_ends_def demo_os_def add.commute)

text \<open>
  C30. Waiting for a cluster always comes to an end: under a clock that does not run backwards, within 77
  passes either every node has answered its \<open>/health\<close> with 200, or NodeStartupError is raised; never
  does the harness go on with a node it has not seen healthy.
\<close>

theorem wait_for_all_healthy_returns:
  assumes "os_clock_ok os"
  shows "\<exists>r s'. wait_for_all_healthy os nodes s = Some (r, s') \<and>
           (case r of Inr u \<Rightarrow> list_all (seen_healthy os) nodes | Inl e \<Rightarrow> \<exists>l. e = NodeStartupErr l)"
  using assms by (rule wait_for_all_healthy_decides)

theorem wait_for_all_healthy_returns_witness:
  "\<exists>r s'. wait_for_all_healthy demo_os [\<lparr>sn_label = ''leader'', sn_host = ''127.0.0.1'', sn_port = 8000, sn_proc = 0\<rparr>]
       (demo_state 0) = Some (r, s') \<and>
     (case r of Inr u \<Rightarrow> list_all (seen_healthy demo_os)
          [\<lparr>sn_label = ''leader'', sn_host = ''127.0.0.1'', sn_port = 8000, sn_proc = 0\<rparr>]
      | Inl e \<Rightarrow> \<exists>l. e = NodeStartupErr l)"
  by (rule wait_for_all_healthy_returns) (rule demo_os_ok)

text \<open>
  C26. The two ranked sweeps end, clean up and carry on: whatever fails while a configuration is started or
  measured, provided SIGKILL ends a process, the clock is sane and each load test ends, the sweep ends
  with no process of its own left and one outcome per configuration, in order; only an exception that is
  no \<open>Exception\<close>, such as SystemExit, cuts it short.
\<close>

theorem sweeps_stop_every_process:
  assumes "kill_ends os" "os_clock_ok os" "hs_live s = []"
    "\<And>w. lf_test bn w \<noteq> None" "\<And>w r wd. ll_test bn w r wd \<noteq> None"
  shows "(\<exists>r s'. run_leader_follower_configs os bn s = Some (r, s') \<and>
            sweep_ended (map lf_label ACK_REQUIRED_SWEEP) r s') \<and>
         (\<exists>r s'. run_leaderless_configs os bn s = Some (r, s') \<and>
            sweep_ended (map fst LEADERLESS_WR_SWEEP) r s')"
  using lf_sweep_total [OF assms(1,2,4,3)] ll_sweep_total [OF assms(1,2,5,3)] by blast

theorem sweeps_stop_every_process_witness:
  "(\<exists>r s'. run_leader_follower_configs demo_os demo_bench (demo_state 2) = Some (r, s') \<and>
      sweep_ended (map lf_label ACK_REQUIRED_SWEEP) r s') \<and>
   (\<exists>r s'. run_leaderless_configs demo_os demo_bench (demo_state 2) = Some (r, s') \<and>
      sweep_ended (map fst LEADERLESS_WR_SWEEP) r s')"
  by (rule sweeps_stop_every_process [OF demo_os_ok(2,1)])
    (simp_all add: demo_state_def lf_test_def ll_test_def lf_run_load_test_def ll_run_load_test_def demo_bench_def)

definition two_processes_os :: "rat os" where
  "two_processes_os = demo_os\<lparr>os_popen := (\<lambda>m args w. if w < 2 then (Inr (), w + 1) else (Inl (OtherErr ''OSError''), w))\<rparr>"

text \<open>
  C32. The message queue sweep leaks: its followers join the list of nodes to stop only once all four were
  started. Where starting the third fails, the first two are running when the sweep has ended, although
  it reports its configurations as skipped.
\<close>

theorem mq_sweep_leaks_followers:
  "\<exists>outcomes s'. run_mq_configs two_processes_os demo_bench (demo_state 0) = Some (Inr outcomes, s') \<and>
     map outcome_label outcomes = map mq_label MQ_WORKER_SWEEP \<and> hs_live s' = [1, 0]"
proof -
  note ev = run_config_def h_finally_def h_except_def h_bind_def h_return_def mq_config_body_def reset_topic_h_def
    demo_bench_def reset_topic_def demo_admin_def delete_and_wait_def ensure_topic_exists_def bind_call_def
    mq_spawn_follower_def spawn_def two_processes_os_def demo_os_def stop_all_def is_exception_def
  have one: "run_config two_processes_os strategy label (mq_config_body two_processes_os demo_bench
       \<lparr>mq_bootstrap_servers = ''b'', mq_topic = ''t'', mq_num_partitions = 4, mq_consumer_group_prefix = ''g''\<rparr> n)
       (demo_state 0) =
     Some (Inr (Config_error \<lparr>ce_strategy = strategy, ce_label = label, ce_reason = OtherErr ''OSError''\<rparr>),
       \<lparr>hs_world = 2, hs_started = 2, hs_live = [1, 0], hs_nodes = []\<rparr>)" for strategy label n
    by (simp add: ev demo_state_def FOLLOWER_PORTS_def Let_def)
  have rest: "run_config two_processes_os strategy label (mq_config_body two_processes_os demo_bench
       \<lparr>mq_bootstrap_servers = ''b'', mq_topic = ''t'', mq_num_partitions = 4, mq_consumer_group_prefix = ''g''\<rparr> n)
       \<lparr>hs_world = 2, hs_started = 2, hs_live = [1, 0], hs_nodes = []\<rparr> =
     Some (Inr (Config_error \<lparr>ce_strategy = strategy, ce_label = label, ce_reason = OtherErr ''OSError''\<rparr>),
       \<lparr>hs_world = 2, hs_started = 2, hs_live = [1, 0], hs_nodes = []\<rparr>)" for strategy label n
    by (simp add: ev FOLLOWER_PORTS_def Let_def)
  have "bn_mq_config demo_bench = Inr \<lparr>mq_bootstrap_servers = ''b'', mq_topic = ''t'', mq_num_partitions = 4,
       mq_consumer_group_prefix = ''g''\<rparr>"
    by (simp add: demo_bench_def)
  then show ?thesis
    by (simp add: run_mq_configs_def MQ_WORKER_SWEEP_def h_bind_def h_return_def one rest [unfolded One_nat_def])
qed

text \<open>
  Log files of different configurations do not overwrite each other: the slug of any label is made
  of letters, digits and underscores with none at either end, and within each sweep the slugs that name
  the logs are pairwise different.
\<close>

theorem slugs_safe_and_distinct:
  "list_all (\<lambda>c. py_isalnum c \<or> c = CHR ''_'') (slug label) \<and>
   (slug label = [] \<or> hd (slug label) \<noteq> CHR ''_'' \<and> last (slug label) \<noteq> CHR ''_'') \<and>
   distinct (map (slug \<circ> lf_label) ACK_REQUIRED_SWEEP) \<and>
   distinct (map (slug \<circ> fst) LEADERLESS_WR_SWEEP) \<and>
   distinct (map (slug \<circ> mq_label) MQ_WORKER_SWEEP)"
proof (intro conjI)
  let ?m = "map (\<lambda>c. if py_isalnum c then c else CHR ''_'') label"
  have "set (slug label) \<subseteq> set ?m"
    unfolding slug_def strip_underscores_def by (auto dest!: set_dropWhileD)
  then show "list_all (\<lambda>c. py_isalnum c \<or> c = CHR ''_'') (slug label)"
    by (fastforce simp: list_all_iff)
  show "slug label = [] \<or> hd (slug label) \<noteq> CHR ''_'' \<and> last (slug label) \<noteq> CHR ''_''"
    using strip_ends [of "\<lambda>c. c = CHR ''_''"] unfolding slug_def strip_underscores_def by blast
  show "distinct (map (slug \<circ> lf_label) ACK_REQUIRED_SWEEP)"
    "distinct (map (slug \<circ> fst) LEADERLESS_WR_SWEEP)"
    "distinct (map (slug \<circ> mq_label) MQ_WORKER_SWEEP)"
    by code_simp+
qed

text \<open>
  Of the five configurations of the sweep, the quorums of three overlap on every run; \<open>W=1, R=1\<close> is no
  more guaranteed than \<open>W=2, R=3\<close>.
\<close>

lemma sweep_guarantees:
  "map fst (filter (\<lambda>(label, w, r). int (length LEADERLESS_NODE_PORTS) < w + r) LEADERLESS_WR_SWEEP) =
     [''W=1, R=5'', ''W=5, R=1'', ''W=3, R=3'']"
  by (simp add: LEADERLESS_WR_SWEEP_def LEADERLESS_NODE_PORTS_def)

end
