(* ===== verification/KV_Smoke.thy ===== *)
theory KV_Smoke
  imports KV_Comp KV_Queue
begin

text \<open>
  \<open>experiments/kafka_smoke_test.py\<close>: topic recreation, the messages produced and consumed back, and the
  two checks on them, as computations over an environment that holds the broker. A message is its key,
  sequence number, partition and offset. The text of the reports is not modelled: a check yields its
  verdict and the data it reports.
\<close>

section \<open>The topic\<close>

definition SMOKE_TOPIC :: string where "SMOKE_TOPIC = ''kv-lab-kafka-smoke-test''"
definition NUM_PARTITIONS :: int where "NUM_PARTITIONS = 4"
definition SMOKE_REPLICATION_FACTOR :: int where "SMOKE_REPLICATION_FACTOR = 1"
definition SMOKE_KEYS :: "string list" where
  "SMOKE_KEYS = [''alice'', ''bob'', ''carol'', ''dave'', ''eve'', ''frank'']"
definition MESSAGES_PER_KEY :: nat where "MESSAGES_PER_KEY = 5"
definition TOPIC_POLL_TIMEOUT_S :: rat where "TOPIC_POLL_TIMEOUT_S = 15"
definition TOPIC_POLL_INTERVAL_S :: rat where "TOPIC_POLL_INTERVAL_S = 1 / 2"
definition CONSUME_TIMEOUT_S :: rat where "CONSUME_TIMEOUT_S = 15"

text \<open>
  The clients: \<open>sk_describe\<close> lists the partition counts of the described topics, \<open>sk_send\<close> answers with
  partition and offset, \<open>sk_getmany\<close> is given its timeout in milliseconds and answers with messages whose
  payload may fail to decode.
\<close>

record smoke_record =
  sr_payload :: "exn + string \<times> nat"
  sr_partition :: nat
  sr_offset :: nat

record 'b smoke_kafka = "'b admin" +
  sk_describe :: "string \<Rightarrow> 'b \<Rightarrow> (exn + int list) \<times> 'b"
  sk_producer_start :: "'b \<Rightarrow> (exn + unit) \<times> 'b"
  sk_send :: "string \<Rightarrow> string \<times> nat \<Rightarrow> 'b \<Rightarrow> (exn + nat \<times> nat) \<times> 'b"
  sk_producer_stop :: "'b \<Rightarrow> 'b"
  sk_consumer_start :: "'b \<Rightarrow> (exn + unit) \<times> 'b"
  sk_getmany :: "int \<Rightarrow> 'b \<Rightarrow> (exn + smoke_record list list) \<times> 'b"
  sk_consumer_stop :: "'b \<Rightarrow> 'b"

text \<open>\<open>for_code\<close> is the name of the error class of a code.\<close>

fun smoke_raise_on_topic_errors :: "(int \<Rightarrow> string) \<Rightarrow> (string \<times> int) list \<Rightarrow> exn + unit" where
  "smoke_raise_on_topic_errors for_code [] = Inr ()"
| "smoke_raise_on_topic_errors for_code ((topic, code) # entries) =
     (if code \<noteq> 0
      then Inl (RuntimeErr (topic @ '': '' @ for_code code @ '' (code '' @ py_str_of_int code @ '')''))
      else smoke_raise_on_topic_errors for_code entries)"

text \<open>Both waits: until the check holds, or TimeoutError once the deadline has passed; \<open>fuel\<close> bounds the passes.\<close>

fun poll_topic ::
    "('b, 'm) smoke_kafka_scheme \<Rightarrow> ('b, bool) comp \<Rightarrow> exn \<Rightarrow> rat \<Rightarrow> nat \<Rightarrow> ('b, unit) comp" where
  "poll_topic k check late deadline 0 = (\<lambda>b. None)"
| "poll_topic k check late deadline (Suc fuel) =
     h_bind check (\<lambda>ok b.
       if ok then Some (Inr (), b)
       else if deadline \<le> ad_monotonic k b then Some (Inl late, b)
       else poll_topic k check late deadline fuel (ad_sleep k TOPIC_POLL_INTERVAL_S b))"

definition topic_gone :: "('b, 'm) smoke_kafka_scheme \<Rightarrow> ('b, bool) comp" where
  "topic_gone k = h_bind (h_call (ad_list_topics k)) (\<lambda>topics. h_return (SMOKE_TOPIC \<notin> set topics))"

definition topic_ready :: "('b, 'm) smoke_kafka_scheme \<Rightarrow> ('b, bool) comp" where
  "topic_ready k = h_bind (h_call (sk_describe k SMOKE_TOPIC)) (\<lambda>described.
     h_return (case described of [] \<Rightarrow> False | partitions # _ \<Rightarrow> partitions = NUM_PARTITIONS))"

definition wait_topic :: "('b, 'm) smoke_kafka_scheme \<Rightarrow> ('b, bool) comp \<Rightarrow> string \<Rightarrow> nat \<Rightarrow> ('b, unit) comp" where
  "wait_topic k check what fuel b =
     poll_topic k check (TimeoutErr what) (ad_monotonic k b + TOPIC_POLL_TIMEOUT_S) fuel b"

definition recreate_topic :: "('b, 'm) smoke_kafka_scheme \<Rightarrow> (int \<Rightarrow> string) \<Rightarrow> nat \<Rightarrow> ('b, unit) comp" where
  "recreate_topic k for_code fuel =
     h_bind (h_call (ad_list_topics k)) (\<lambda>existing.
     h_bind
       (if SMOKE_TOPIC \<in> set existing
        then h_bind (h_call (ad_delete_topics k SMOKE_TOPIC)) (\<lambda>response.
             h_bind (h_lift (smoke_raise_on_topic_errors for_code response)) (\<lambda>_.
               wait_topic k (topic_gone k) ''to finish deleting'' fuel))
        else h_return ()) (\<lambda>_.
     h_bind (h_call (ad_create_topics k SMOKE_TOPIC NUM_PARTITIONS SMOKE_REPLICATION_FACTOR)) (\<lambda>response.
     h_bind (h_lift (smoke_raise_on_topic_errors for_code response)) (\<lambda>_.
       wait_topic k (topic_ready k) ''to become ready'' fuel))))"

section \<open>Producing and consuming\<close>

type_synonym smoke_message = "string \<times> nat \<times> nat \<times> nat"

definition smoke_sends :: "(string \<times> nat) list" where
  "smoke_sends = concat (map (\<lambda>seq. map (\<lambda>key. (key, seq)) SMOKE_KEYS) [0..<MESSAGES_PER_KEY])"

definition send_message :: "('b, 'm) smoke_kafka_scheme \<Rightarrow> string \<times> nat \<Rightarrow> ('b, smoke_message) comp" where
  "send_message k = (\<lambda>(key, seq). h_bind (h_call (sk_send k SMOKE_TOPIC (key, seq))) (\<lambda>(partition, offset).
     h_return (key, seq, partition, offset)))"

definition produce_messages :: "('b, 'm) smoke_kafka_scheme \<Rightarrow> ('b, smoke_message list) comp" where
  "produce_messages k = h_map (send_message k) smoke_sends"

text \<open>\<open>int(remaining * 1000)\<close> truncates; \<open>remaining\<close> is positive there.\<close>

definition read_batch :: "smoke_record list list \<Rightarrow> exn + smoke_message list" where
  "read_batch batch =
     map_exn (\<lambda>m. bind_exn (sr_payload m) (\<lambda>(key, seq). Inr (key, seq, sr_partition m, sr_offset m))) (concat batch)"

fun consume_loop ::
    "('b, 'm) smoke_kafka_scheme \<Rightarrow> nat \<Rightarrow> rat \<Rightarrow> nat \<Rightarrow> smoke_message list \<Rightarrow> ('b, smoke_message list) comp" where
  "consume_loop k expected deadline 0 received b =
     (if length received < expected then None else Some (Inr received, b))"
| "consume_loop k expected deadline (Suc fuel) received b =
     (if length received < expected then
        let remaining = deadline - ad_monotonic k b
        in if remaining \<le> 0 then Some (Inl (TimeoutErr ''receiving''), b)
           else h_bind (h_call (sk_getmany k \<lfloor>remaining * 1000\<rfloor>)) (\<lambda>batch.
                h_bind (h_lift (read_batch batch)) (\<lambda>messages.
                  consume_loop k expected deadline fuel (received @ messages))) b
      else Some (Inr received, b))"

definition consume_messages :: "('b, 'm) smoke_kafka_scheme \<Rightarrow> nat \<Rightarrow> nat \<Rightarrow> ('b, smoke_message list) comp" where
  "consume_messages k expected fuel =
     h_bind (h_call (sk_consumer_start k)) (\<lambda>_.
       h_finally (\<lambda>b. consume_loop k expected (ad_monotonic k b + CONSUME_TIMEOUT_S) fuel [] b)
         (h_do (sk_consumer_stop k)))"

section \<open>The checks\<close>

text \<open>Filling a \<open>defaultdict(list)\<close>: the values of each key in order, the keys in order of first use.\<close>

definition group_by :: "('a \<Rightarrow> 'k) \<Rightarrow> ('a \<Rightarrow> 'v) \<Rightarrow> 'a list \<Rightarrow> ('k \<times> 'v list) list" where
  "group_by f g xs = fold (\<lambda>x al. AList.map_default (f x) [g x] (\<lambda>vs. vs @ [g x]) al) xs []"

text \<open>The verdict, and the inconsistent keys with the set of their partitions.\<close>

definition check_partition_routing :: "smoke_message list \<Rightarrow> bool \<times> (string \<times> nat list) list" where
  "check_partition_routing sent =
     (let partitions_by_key = map (map_prod id remdups) (group_by fst (\<lambda>(key, seq, partition, offset). partition) sent);
          inconsistent = filter (\<lambda>(key, partitions). length partitions \<noteq> 1) partitions_by_key
      in (inconsistent = [], inconsistent))"

text \<open>The problems the order check reports: of a partition's offsets, or of a key's sequence numbers.\<close>

datatype order_problem = Bad_offsets nat "nat list" | Bad_seqs string "nat list"

definition sorted_partitions :: "smoke_message list \<Rightarrow> (nat \<times> (nat \<times> string \<times> nat) list) list" where
  "sorted_partitions received =
     map (map_prod id (sort_key fst))
       (sort_key fst (group_by (\<lambda>(key, seq, partition, offset). partition)
          (\<lambda>(key, seq, partition, offset). (offset, key, seq)) received))"

definition check_order_preserved :: "smoke_message list \<Rightarrow> bool \<times> order_problem list" where
  "check_order_preserved received =
     (let by_partition = sorted_partitions received;
          offset_problems =
            concat (map (\<lambda>(partition, entries).
              let offsets = map fst entries
              in if offsets \<noteq> sorted_list_of_set (set offsets) \<or> length offsets \<noteq> card (set offsets)
                 then [Bad_offsets partition offsets] else []) by_partition);
          seq_by_key = group_by (\<lambda>(offset, key, seq). key) (\<lambda>(offset, key, seq). seq) (concat (map snd by_partition));
          seq_problems =
            concat (map (\<lambda>(key, seqs). if seqs \<noteq> [0..<MESSAGES_PER_KEY] then [Bad_seqs key seqs] else [])
              (sort_key fst seq_by_key))
      in (offset_problems @ seq_problems = [], offset_problems @ seq_problems))"

text \<open>The exit code of \<open>main\<close>.\<close>

definition smoke_verdict :: "smoke_message list \<Rightarrow> smoke_message list \<Rightarrow> nat" where
  "smoke_verdict sent received =
     (let routing_ok = fst (check_partition_routing sent); order_ok = fst (check_order_preserved received)
      in if routing_ok \<and> order_ok then 0 else 1)"

definition smoke_main :: "('b, 'm) smoke_kafka_scheme \<Rightarrow> (int \<Rightarrow> string) \<Rightarrow> nat \<Rightarrow> nat \<Rightarrow> ('b, nat) comp" where
  "smoke_main k for_code topic_fuel consume_fuel =
     h_bind (h_call (ad_start k)) (\<lambda>_.
     h_bind (h_finally (recreate_topic k for_code topic_fuel) (h_do (ad_close k))) (\<lambda>_.
     h_bind (h_call (sk_producer_start k)) (\<lambda>_.
     h_bind (h_finally (produce_messages k) (h_do (sk_producer_stop k))) (\<lambda>sent.
     h_bind (consume_messages k (length sent) consume_fuel) (\<lambda>received.
       h_return (smoke_verdict sent received))))))"

section \<open>Lemmas: grouping\<close>

lemma group_by_snoc: "group_by f g (xs @ [x]) = AList.map_default (f x) [g x] (\<lambda>vs. vs @ [g x]) (group_by f g xs)"
  by (simp add: group_by_def)

lemma group_by_keys [simp]: "fst ` set (group_by f g xs) = f ` set xs"
  by (induction xs rule: rev_induct) (auto simp: group_by_snoc dom_map_default, simp add: group_by_def)

lemma group_by_distinct [simp]: "distinct (map fst (group_by f g xs))"
  by (induction xs rule: rev_induct) (simp add: group_by_def, simp add: group_by_snoc distinct_map_default)

lemma group_by_lookup:
  "map_of (group_by f g xs) k =
     (if k \<in> f ` set xs then Some (map g (filter (\<lambda>x. f x = k) xs)) else None)"
proof (induction xs rule: rev_induct)
  case Nil
  then show ?case by (simp add: group_by_def)
next
  case (snoc x xs)
  have "filter (\<lambda>y. f y = f x) xs = []" if "f x \<notin> f ` set xs"
    using that unfolding filter_empty_conv by (metis image_eqI)
  then show ?case
    using snoc.IH by (auto simp: group_by_snoc map_of_map_default)
qed

lemma group_by_mem: "(k, vs) \<in> set (group_by f g xs) \<longleftrightarrow> k \<in> f ` set xs \<and> vs = map g (filter (\<lambda>x. f x = k) xs)"
  using map_of_eq_Some_iff [OF group_by_distinct, of f g xs k vs] by (auto simp: group_by_lookup split: if_splits)


text \<open>
  What the order check looks at: each partition by increasing offset, in the order of the partitions.
\<close>

definition canonical :: "smoke_message list \<Rightarrow> (nat \<times> string \<times> nat) list" where
  "canonical received = concat (map snd (sorted_partitions received))"

definition partition_entries :: "nat \<Rightarrow> smoke_message list \<Rightarrow> (nat \<times> string \<times> nat) list" where
  "partition_entries p received =
     map (\<lambda>(key, seq, partition, offset). (offset, key, seq)) (filter (\<lambda>(key, seq, partition, offset). partition = p) received)"

definition partitions_of :: "smoke_message list \<Rightarrow> nat set" where
  "partitions_of received = (\<lambda>(key, seq, partition, offset). partition) ` set received"

lemma sorted_unique:
  assumes "distinct (map f xs)" "distinct (map f ys)" "sorted (map f xs)" "sorted (map f ys)" "set xs = set ys"
  shows "xs = ys"
  using assms by (intro map_sorted_distinct_set_unique [of f]) (auto simp: distinct_map)

lemma distinct_map_sort_key [simp]: "distinct (map f (sort_key g xs)) \<longleftrightarrow> distinct (map f xs)"
  by (simp add: distinct_map)

lemma sort_key_fst_sorted_list:
  assumes "distinct (map fst al)"
  shows "sort_key fst al = map (\<lambda>k. (k, the (map_of al k))) (sorted_list_of_set (fst ` set al))"
proof (rule sorted_unique [where f = fst])
  have "(fst x, the (map_of al (fst x))) = x" if "x \<in> set al" for x
    using assms that by (cases x) simp
  then have "(\<lambda>k. (k, the (map_of al k))) ` fst ` set al = set al"
    unfolding image_image by force
  then show "set (sort_key fst al) = set (map (\<lambda>k. (k, the (map_of al k))) (sorted_list_of_set (fst ` set al)))"
    by simp
qed (use assms in \<open>simp_all add: comp_def\<close>)

lemma sorted_partitions_eq:
  "sorted_partitions received =
     map (\<lambda>p. (p, sort_key fst (partition_entries p received))) (sorted_list_of_set (partitions_of received))"
proof -
  let ?part = "\<lambda>(key :: string, seq :: nat, partition :: nat, offset :: nat). partition"
  let ?entry = "\<lambda>(key :: string, seq :: nat, partition :: nat, offset :: nat). (offset, key, seq)"
  have "the (map_of (group_by ?part ?entry received) p) = partition_entries p received"
    if "p \<in> partitions_of received" for p
    using that by (simp add: group_by_lookup partitions_of_def partition_entries_def case_prod_unfold)
  then show ?thesis
    unfolding sorted_partitions_def
    by (subst sort_key_fst_sorted_list) (simp_all add: partitions_of_def)
qed

lemma canonical_eq:
  "canonical received =
     concat (map (\<lambda>p. sort_key fst (partition_entries p received)) (sorted_list_of_set (partitions_of received)))"
  by (simp add: canonical_def sorted_partitions_eq comp_def)

text \<open>The verdict of the order check in these terms.\<close>

definition key_seqs :: "string \<Rightarrow> smoke_message list \<Rightarrow> nat list" where
  "key_seqs k received = map (\<lambda>(offset, key, seq). seq) (filter (\<lambda>(offset, key, seq). key = k) (canonical received))"

lemma sorted_list_of_set_same:
  fixes xs :: "nat list"
  shows "sorted xs \<Longrightarrow> (xs \<noteq> sorted_list_of_set (set xs) \<or> length xs \<noteq> card (set xs)) \<longleftrightarrow> \<not> distinct xs"
  by (metis card_distinct distinct_card sorted_list_of_set.distinct_sorted_key_list_of_set sorted_list_of_set.idem_if_sorted_distinct)

lemma set_canonical: "set (canonical received) = (\<lambda>(key, seq, partition, offset). (offset, key, seq)) ` set received"
  by (force simp: canonical_eq partition_entries_def partitions_of_def)

lemma check_order_iff:
  "fst (check_order_preserved received) \<longleftrightarrow>
     (\<forall>p. distinct (map fst (partition_entries p received))) \<and>
     (\<forall>k \<in> fst ` set received. key_seqs k received = [0..<MESSAGES_PER_KEY])"
proof -
  let ?bad = "\<lambda>(partition, entries :: (nat \<times> string \<times> nat) list). let offsets = map fst entries
      in if offsets \<noteq> sorted_list_of_set (set offsets) \<or> length offsets \<noteq> card (set offsets)
         then [Bad_offsets partition offsets] else []"
  let ?seq_bad = "\<lambda>(key, seqs). if seqs \<noteq> [0..<MESSAGES_PER_KEY] then [Bad_seqs key seqs] else []"
  let ?by_key = "group_by (\<lambda>(offset, key, seq). key) (\<lambda>(offset, key, seq). seq) (canonical received)"
  have "?bad (p, sort_key fst (partition_entries p received)) = [] \<longleftrightarrow> distinct (map fst (partition_entries p received))" for p
    using sorted_list_of_set_same [of "map fst (sort_key fst (partition_entries p received))"]
    by (simp add: Let_def del: length_map)
  moreover have "partition_entries p received = []" if "p \<notin> partitions_of received" for p
    using that by (force simp: partition_entries_def partitions_of_def filter_empty_conv)
  moreover have "finite (partitions_of received)" by (simp add: partitions_of_def)
  ultimately have offsets: "concat (map ?bad (sorted_partitions received)) = [] \<longleftrightarrow>
      (\<forall>p. distinct (map fst (partition_entries p received)))"
    unfolding sorted_partitions_eq concat_eq_Nil_conv by (simp del: split_paired_All) (metis distinct.simps(1) list.map_disc_iff)
  have "concat (map ?seq_bad (sort_key fst ?by_key)) = [] \<longleftrightarrow>
      (\<forall>(key, seqs) \<in> set ?by_key. seqs = [0..<MESSAGES_PER_KEY])"
    by (auto split: prod.splits)
  also have "\<dots> \<longleftrightarrow> (\<forall>k \<in> (\<lambda>(offset, key, seq). key) ` set (canonical received). key_seqs k received = [0..<MESSAGES_PER_KEY])"
    unfolding Ball_def split_paired_All by (simp add: group_by_mem key_seqs_def case_prod_unfold)
  also have "(\<lambda>(offset, key, seq). key) ` set (canonical received) = fst ` set received"
    unfolding set_canonical image_image by (simp add: case_prod_unfold)
  finally show ?thesis
    using offsets by (simp add: check_order_preserved_def canonical_def Let_def)
qed

section \<open>Lemmas: the checks on a permutation\<close>

lemma partition_entries_mset:
  "mset received = mset received' \<Longrightarrow> mset (partition_entries p received) = mset (partition_entries p received')"
  by (simp add: partition_entries_def mset_filter)

lemma canonical_mset:
  assumes "mset received = mset received'" "\<forall>p. distinct (map fst (partition_entries p received))"
  shows "canonical received = canonical received'"
proof -
  have "sort_key fst (partition_entries p received) = sort_key fst (partition_entries p received')" for p
  proof (rule sorted_unique [where f = fst])
    have m: "mset (partition_entries p received) = mset (partition_entries p received')"
      using partition_entries_mset [OF assms(1)] .
    then show "set (sort_key fst (partition_entries p received)) = set (sort_key fst (partition_entries p received'))"
      by (metis mset_eq_setD set_sort)
    show "distinct (map fst (sort_key fst (partition_entries p received)))"
      "distinct (map fst (sort_key fst (partition_entries p received')))"
      using assms(2) m by (metis distinct_map_sort_key mset_eq_imp_distinct_iff mset_map)+
  qed simp_all
  moreover have "partitions_of received = partitions_of received'"
    using mset_eq_setD [OF assms(1)] by (simp add: partitions_of_def)
  ultimately show ?thesis by (simp add: canonical_eq)
qed

lemma check_order_mset:
  assumes "mset received = mset received'"
  shows "fst (check_order_preserved received) = fst (check_order_preserved received')"
proof -
  have d: "distinct (map fst (partition_entries p received)) = distinct (map fst (partition_entries p received'))" for p
    using partition_entries_mset [OF assms] by (metis mset_eq_imp_distinct_iff mset_map)
  show ?thesis
    using canonical_mset [OF assms] mset_eq_setD [OF assms] unfolding check_order_iff key_seqs_def d by metis
qed

lemma card_one_iff: "A \<noteq> {} \<Longrightarrow> card A = 1 \<longleftrightarrow> (\<forall>x \<in> A. \<forall>y \<in> A. x = y)"
proof
  assume "A \<noteq> {}" and same: "\<forall>x \<in> A. \<forall>y \<in> A. x = y"
  then obtain a where "a \<in> A" by blast
  with same have "A = {a}" by blast
  then show "card A = 1" by simp
qed (auto simp: card_1_singleton_iff)

lemma check_routing_iff:
  "fst (check_partition_routing sent) \<longleftrightarrow>
     (\<forall>(k, s, p, i) \<in> set sent. \<forall>(k', s', p', i') \<in> set sent. k = k' \<longrightarrow> p = p')"
proof -
  let ?ps = "\<lambda>k. map (\<lambda>(key, seq, partition, offset). partition) (filter (\<lambda>x. fst x = k) sent)"
  have "fst (check_partition_routing sent) \<longleftrightarrow>
      (\<forall>x \<in> set (group_by fst (\<lambda>(key, seq, partition, offset). partition) sent). length (remdups (snd x)) = 1)"
    by (simp add: check_partition_routing_def filter_empty_conv case_prod_unfold)
  also have "\<dots> \<longleftrightarrow> (\<forall>k \<in> fst ` set sent. length (remdups (?ps k)) = 1)"
    unfolding Ball_def split_paired_All by (simp add: group_by_mem)
  also have "\<dots> \<longleftrightarrow> (\<forall>k \<in> fst ` set sent. \<forall>p \<in> set (?ps k). \<forall>p' \<in> set (?ps k). p = p')"
  proof (rule ball_cong)
    fix k assume "k \<in> fst ` set sent"
    then obtain s p i where "(k, s, p, i) \<in> set sent" by fastforce
    then have "p \<in> set (?ps k)" by force
    then have "set (?ps k) \<noteq> {}" by (metis empty_iff)
    then show "length (remdups (?ps k)) = 1 \<longleftrightarrow> (\<forall>p \<in> set (?ps k). \<forall>p' \<in> set (?ps k). p = p')"
      unfolding length_remdups_card_conv by (rule card_one_iff)
  qed simp
  also have "\<dots> \<longleftrightarrow> (\<forall>(k, s, p, i) \<in> set sent. \<forall>(k', s', p', i') \<in> set sent. k = k' \<longrightarrow> p = p')"
    by (force simp: case_prod_unfold)
  finally show ?thesis .
qed


section \<open>Lemmas: a broker that is a partitioned log\<close>

text \<open>
  What Kafka documents, for a topic whose partitioner is \<open>part\<close>: creating the topic empties its log, a send
  appends to the partition of its key and answers with the message's place, and a consumer reads each
  partition from its start, in order and without gaps; everything else leaves the log alone. Any call may
  raise at any time, and a batch may hold anything from nothing to all that is there.
\<close>

definition appends :: "('b, 'm) smoke_kafka_scheme \<Rightarrow> (string \<Rightarrow> nat) \<Rightarrow> ('b \<Rightarrow> nat \<Rightarrow> (string \<times> nat) list) \<Rightarrow> bool" where
  "appends k part tlog \<longleftrightarrow>
     (\<forall>m b p i b'. sk_send k SMOKE_TOPIC m b = (Inr (p, i), b') \<longrightarrow>
        p = part (fst m) \<and> i = length (tlog b p) \<and> tlog b' = (tlog b)(p := tlog b p @ [m]))"

definition reads_in_order :: "('b, 'm) smoke_kafka_scheme \<Rightarrow> ('b \<Rightarrow> nat \<Rightarrow> (string \<times> nat) list) \<Rightarrow> ('b \<Rightarrow> nat \<Rightarrow> nat) \<Rightarrow> bool" where
  "reads_in_order k tlog pos \<longleftrightarrow>
     (\<forall>b b'. sk_consumer_start k b = (Inr (), b') \<longrightarrow> tlog b' = tlog b \<and> pos b' = (\<lambda>p. 0)) \<and>
     (\<forall>t b batch b' p. sk_getmany k t b = (Inr batch, b') \<longrightarrow>
        tlog b' = tlog b \<and> pos b p \<le> pos b' p \<and> (pos b p \<le> length (tlog b p) \<longrightarrow> pos b' p \<le> length (tlog b p)) \<and>
        map (\<lambda>m. (sr_offset m, sr_payload m)) (filter (\<lambda>m. sr_partition m = p) (concat batch)) =
          map (\<lambda>i. (i, Inr (tlog b p ! i))) [pos b p..<pos b' p])"

definition topic_fresh :: "('b, 'm) smoke_kafka_scheme \<Rightarrow> ('b \<Rightarrow> nat \<Rightarrow> (string \<times> nat) list) \<Rightarrow> bool" where
  "topic_fresh k tlog \<longleftrightarrow>
     (\<forall>b response b'. ad_create_topics k SMOKE_TOPIC NUM_PARTITIONS SMOKE_REPLICATION_FACTOR b = (Inr response, b') \<longrightarrow>
        (\<forall>(t, code) \<in> set response. code = 0) \<longrightarrow> tlog b' = (\<lambda>p. [])) \<and>
     (\<forall>b. tlog (snd (sk_describe k SMOKE_TOPIC b)) = tlog b) \<and> (\<forall>b d. tlog (ad_sleep k d b) = tlog b) \<and>
     (\<forall>b. tlog (ad_close k b) = tlog b) \<and> (\<forall>b. tlog (snd (sk_producer_start k b)) = tlog b) \<and>
     (\<forall>b. tlog (sk_producer_stop k b) = tlog b)"

lemma h_call_SomeD: "h_call f b = Some (r, b') \<Longrightarrow> f b = (r, b')"
  by (simp add: h_call_def)

lemma produce_log:
  assumes "appends k part tlog" "h_map (send_message k) ms b = Some (Inr sent, b')"
  shows "map (\<lambda>(key, seq, p, i). (key, seq)) sent = ms \<and> (\<forall>(key, seq, p, i) \<in> set sent. p = part key) \<and>
    (\<forall>p. tlog b' p = tlog b p @ filter (\<lambda>m. part (fst m) = p) ms) \<and>
    (\<forall>p. partition_entries p sent = map (\<lambda>i. (i, tlog b' p ! i)) [length (tlog b p)..<length (tlog b' p)])"
  using assms(2)
proof (induction ms arbitrary: b sent)
  case Nil
  then show ?case by (simp add: h_return_def partition_entries_def)
next
  case (Cons m ms)
  obtain p i b1 sent' where one: "sk_send k SMOKE_TOPIC m b = (Inr (p, i), b1)"
    and rest: "h_map (send_message k) ms b1 = Some (Inr sent', b')" and sent: "sent = (fst m, snd m, p, i) # sent'"
    using Cons.prems
    by (auto simp: send_message_def h_bind_def h_call_def h_return_def split: option.splits sum.splits prod.splits)
  have p: "p = part (fst m)" "i = length (tlog b p)" "tlog b1 = (tlog b)(p := tlog b p @ [m])"
    using assms(1) one unfolding appends_def by blast+
  note IH = Cons.IH [OF rest]
  have "partition_entries q sent = map (\<lambda>j. (j, tlog b' q ! j)) [length (tlog b q)..<length (tlog b' q)]" for q
  proof (cases "q = p")
    case True
    have "tlog b' q = tlog b q @ m # filter (\<lambda>m. part (fst m) = q) ms"
      using IH p(3) True by simp
    then have "length (tlog b q) < length (tlog b' q)" "tlog b' q ! length (tlog b q) = m" by simp_all
    then have "[length (tlog b q)..<length (tlog b' q)] = length (tlog b q) # [Suc (length (tlog b q))..<length (tlog b' q)]"
      and "tlog b' q ! length (tlog b q) = m"
      using upt_conv_Cons by blast+
    moreover have "partition_entries q sent = (i, m) # partition_entries q sent'"
      using True by (simp add: sent partition_entries_def)
    moreover have "partition_entries q sent' = map (\<lambda>j. (j, tlog b' q ! j)) [Suc (length (tlog b q))..<length (tlog b' q)]"
      using IH p(3) True by simp
    ultimately show ?thesis using p(2) True p(1) by simp
  next
    case False
    then have "partition_entries q sent = partition_entries q sent'" by (simp add: sent partition_entries_def)
    then show ?thesis using IH p(3) False by simp
  qed
  then show ?case using IH p by (auto simp: sent)
qed

lemma read_batch_entries:
  assumes "map_exn (\<lambda>m. bind_exn (sr_payload m) (\<lambda>(key, seq). Inr (key, seq, sr_partition m, sr_offset m))) ms = Inr messages"
  shows "map (map_prod id Inr) (partition_entries p messages) =
    map (\<lambda>m. (sr_offset m, sr_payload m)) (filter (\<lambda>m. sr_partition m = p) ms)"
  using assms
  by (induction ms arbitrary: messages) (auto simp: partition_entries_def bind_exn_Inr_iff)

lemma partition_entries_append [simp]:
  "partition_entries p (xs @ ys) = partition_entries p xs @ partition_entries p ys"
  by (simp add: partition_entries_def)

text \<open>What has been received is, partition by partition, the log up to the consumer's position.\<close>

definition received_ok :: "(nat \<Rightarrow> (string \<times> nat) list) \<Rightarrow> (nat \<Rightarrow> nat) \<Rightarrow> smoke_message list \<Rightarrow> bool" where
  "received_ok L n received \<longleftrightarrow>
     (\<forall>p. n p \<le> length (L p) \<and> partition_entries p received = map (\<lambda>i. (i, L p ! i)) [0..<n p])"

lemma consume_loop_log:
  assumes "reads_in_order k tlog pos" "received_ok (tlog b) (pos b) received"
    and "consume_loop k expected deadline fuel received b = Some (Inr result, b')"
  shows "(\<exists>n. received_ok (tlog b) n result) \<and> expected \<le> length result"
  using assms(2,3)
proof (induction fuel arbitrary: received b)
  case 0
  then show ?case by (auto split: if_splits)
next
  case (Suc fuel)
  show ?case
  proof (cases "length received < expected")
    case True
    then obtain batch b1 messages where get: "sk_getmany k \<lfloor>(deadline - ad_monotonic k b) * 1000\<rfloor> b = (Inr batch, b1)"
      and read: "read_batch batch = Inr messages"
      and more: "consume_loop k expected deadline fuel (received @ messages) b1 = Some (Inr result, b')"
      using Suc.prems(2)
      by (auto simp: Let_def h_bind_def h_call_def h_lift_def split: if_splits option.splits sum.splits prod.splits)
    have log1: "tlog b1 = tlog b"
      and pos1: "\<And>p. pos b p \<le> pos b1 p" "\<And>p. pos b p \<le> length (tlog b p) \<Longrightarrow> pos b1 p \<le> length (tlog b p)"
      and got: "\<And>p. map (\<lambda>m. (sr_offset m, sr_payload m)) (filter (\<lambda>m. sr_partition m = p) (concat batch)) =
          map (\<lambda>i. (i, Inr (tlog b p ! i))) [pos b p..<pos b1 p]"
      using assms(1) get unfolding reads_in_order_def by blast+
    have "partition_entries p messages = map (\<lambda>i. (i, tlog b p ! i)) [pos b p..<pos b1 p]" for p
    proof -
      have "map (map_prod id Inr :: _ \<Rightarrow> nat \<times> (exn + string \<times> nat)) (partition_entries p messages) =
          map (map_prod id Inr) (map (\<lambda>i. (i, tlog b p ! i)) [pos b p..<pos b1 p])"
        using read_batch_entries [OF read [unfolded read_batch_def]] got by (simp add: comp_def)
      then show ?thesis by (rule injD [OF inj_mapI [OF prod.inj_map [OF inj_on_id inj_Inr]]])
    qed
    moreover have "[0..<pos b1 p] = [0..<pos b p] @ [pos b p..<pos b1 p]" for p
      using pos1(1) [of p] by (metis le0 le_Suc_ex upt_add_eq_append)
    ultimately have "received_ok (tlog b1) (pos b1) (received @ messages)"
      using Suc.prems(1) pos1 by (auto simp: received_ok_def log1)
    from Suc.IH [OF this more] show ?thesis by (simp add: log1)
  next
    case False
    then show ?thesis using Suc.prems by auto
  qed
qed

lemma raise_on_topic_errors_none:
  "smoke_raise_on_topic_errors for_code entries = Inr u \<Longrightarrow> \<forall>(t, code) \<in> set entries. code = 0"
  by (induction for_code entries rule: smoke_raise_on_topic_errors.induct) (auto split: if_splits)

lemma recreate_fresh:
  assumes "topic_fresh k tlog" "recreate_topic k for_code fuel b = Some (Inr u, b')"
  shows "tlog b' = (\<lambda>p. [])"
proof -
  obtain b1 response b2 where create: "ad_create_topics k SMOKE_TOPIC NUM_PARTITIONS SMOKE_REPLICATION_FACTOR b1 = (Inr response, b2)"
    and ok: "smoke_raise_on_topic_errors for_code response = Inr ()"
    and wait: "wait_topic k (topic_ready k) ''to become ready'' fuel b2 = Some (Inr u, b')"
    using assms(2) unfolding recreate_topic_def
    by (elim h_bind_InrE) (auto simp: h_call_def h_lift_def)
  have "tlog b2 = (\<lambda>p. [])"
    using assms(1) create raise_on_topic_errors_none [OF ok] unfolding topic_fresh_def by blast
  moreover have "keeps (\<lambda>b. tlog b = (\<lambda>p. [])) (topic_ready k)"
  proof -
    have "tlog b' = tlog b" if "sk_describe k SMOKE_TOPIC b = (r, b')" for b r b'
      using assms(1) that unfolding topic_fresh_def by (metis snd_conv)
    then show ?thesis
      unfolding topic_ready_def by (intro keeps_rules) (simp add: keeps_def h_call_def)
  qed
  then have "keeps (\<lambda>b. tlog b = (\<lambda>p. [])) (poll_topic k (topic_ready k) late deadline fuel)" for late deadline
  proof (induction fuel)
    case 0
    then show ?case by (simp add: keeps_def)
  next
    case (Suc fuel)
    have "keeps (\<lambda>b. tlog b = (\<lambda>p. [])) (\<lambda>b. if ok then Some (Inr (), b)
       else if deadline \<le> ad_monotonic k b then Some (Inl late, b)
       else poll_topic k (topic_ready k) late deadline fuel (ad_sleep k TOPIC_POLL_INTERVAL_S b))" for ok
    proof -
      have slept: "tlog (ad_sleep k d b) = tlog b" for d b using assms(1) by (simp add: topic_fresh_def)
      have "tlog s' = (\<lambda>p. [])" if "tlog s = (\<lambda>p. [])"
        "poll_topic k (topic_ready k) late deadline fuel s = Some (r, s')" for s r s'
        using keepsD [OF Suc.IH [OF Suc.prems]] that by blast
      then show ?thesis unfolding keeps_def using slept by (metis option.inject prod.inject)
    qed
    then show ?case by (simp add: keeps_bind Suc.prems)
  qed
  ultimately show ?thesis
    using wait unfolding wait_topic_def keeps_def by blast
qed

section \<open>Lemmas: the verdict on a log\<close>

lemma distinct_messages:
  assumes "\<forall>p. distinct (map fst (partition_entries p xs))"
  shows "distinct xs"
  using assms
proof (induction xs)
  case (Cons x xs)
  obtain key seq p i where x: "x = (key, seq, p, i)" by (cases x)
  have d: "distinct (map fst (partition_entries q [x] @ partition_entries q xs))" for q
    using Cons.prems by (metis append_Cons append_Nil partition_entries_append)
  have "x \<notin> set xs"
  proof
    assume "x \<in> set xs"
    then have "(i, key, seq) \<in> set (partition_entries p xs)" by (force simp: partition_entries_def x)
    moreover have "partition_entries p [x] = [(i, key, seq)]" by (simp add: partition_entries_def x)
    ultimately show False using d [of p] by force
  qed
  moreover have "distinct xs" using d by (intro Cons.IH) simp
  ultimately show ?case by simp
qed simp

lemma received_distinct: "received_ok L n xs \<Longrightarrow> distinct (map fst (partition_entries p xs))"
  by (simp add: received_ok_def comp_def)

lemma received_all:
  assumes "received_ok L n received" "received_ok L (\<lambda>p. length (L p)) sent" "length sent \<le> length received"
  shows "mset received = mset sent"
proof -
  have d: "distinct received" "distinct sent"
    using assms(1,2) received_distinct by (blast intro: distinct_messages)+
  have "set received \<subseteq> set sent"
  proof
    fix x assume x: "x \<in> set received"
    obtain key seq p i where e: "x = (key, seq, p, i)" by (cases x)
    then have "(i, key, seq) \<in> set (partition_entries p received)" using x by (force simp: partition_entries_def)
    then have "(i, key, seq) \<in> set (partition_entries p sent)"
      using assms(1,2) by (auto simp: received_ok_def image_iff intro: order_less_le_trans)
    then show "x \<in> set sent" by (force simp: partition_entries_def e)
  qed
  then have "set received = set sent"
    using assms(3) d by (metis List.finite_set card_seteq distinct_card)
  then show ?thesis using d by (simp add: set_eq_iff_mset_eq_distinct)
qed

lemma concat_one:
  "distinct ps \<Longrightarrow> q \<in> set ps \<Longrightarrow> concat (map (\<lambda>p. if p = q then xs else []) ps) = xs"
  by (induction ps) (auto intro: concat_replicate_trivial simp: concat_eq_Nil_conv)

lemma key_seqs_log:
  assumes "received_ok L (\<lambda>p. length (L p)) sent" "\<forall>p. L p = filter (\<lambda>m. part (fst m) = p) ms"
    and "part key \<in> partitions_of sent"
  shows "key_seqs key sent = map snd (filter (\<lambda>m. fst m = key) ms)"
proof -
  have entries: "partition_entries p sent = map (\<lambda>i. (i, L p ! i)) [0..<length (L p)]" for p
    using assms(1) by (simp add: received_ok_def)
  have "sort_key fst (partition_entries p sent) = partition_entries p sent" for p
    unfolding entries by (rule sort_key_id_if_sorted) (simp add: comp_def)
  then have canon: "canonical sent = concat (map (\<lambda>p. map (\<lambda>i. (i, L p ! i)) [0..<length (L p)]) (sorted_list_of_set (partitions_of sent)))"
    unfolding canonical_eq by (simp add: entries)
  have "map (\<lambda>(i, k, s). s) (filter (\<lambda>(i, k, s). k = key) (map (\<lambda>i. (i, L p ! i)) [0..<length (L p)])) =
      (if p = part key then map snd (filter (\<lambda>m. fst m = key) ms) else [])" for p
  proof -
    have "map (\<lambda>(i, k, s). s) (filter (\<lambda>(i, k, s). k = key) (map (\<lambda>i. (i, xs ! i)) [0..<length xs])) =
        map snd (filter (\<lambda>m. fst m = key) (map ((!) xs) [0..<length xs]))" for xs :: "(string \<times> nat) list"
      by (simp add: filter_map comp_def case_prod_unfold del: map_nth)
    then have "map (\<lambda>(i, k, s). s) (filter (\<lambda>(i, k, s). k = key) (map (\<lambda>i. (i, xs ! i)) [0..<length xs])) =
        map snd (filter (\<lambda>m. fst m = key) xs)" for xs :: "(string \<times> nat) list"
      unfolding map_nth .
    then have "map (\<lambda>(i, k, s). s) (filter (\<lambda>(i, k, s). k = key) (map (\<lambda>i. (i, L p ! i)) [0..<length (L p)])) =
        map snd (filter (\<lambda>m. fst m = key) (L p))" .
    also have "filter (\<lambda>m. fst m = key) (L p) = (if p = part key then filter (\<lambda>m. fst m = key) ms else [])"
      unfolding assms(2) [rule_format] filter_filter by (auto simp: filter_empty_conv intro: filter_cong)
    finally show ?thesis by simp
  qed
  note per_partition = this
  have "key_seqs key sent = concat (map (\<lambda>p. map (\<lambda>(i, k, s). s) (filter (\<lambda>(i, k, s). k = key)
      (map (\<lambda>i. (i, L p ! i)) [0..<length (L p)]))) (sorted_list_of_set (partitions_of sent)))"
    by (simp add: key_seqs_def canon filter_concat map_concat comp_def)
  also have "\<dots> = map snd (filter (\<lambda>m. fst m = key) ms)"
    unfolding per_partition by (rule concat_one) (use assms(3) in \<open>simp_all add: partitions_of_def\<close>)
  finally show ?thesis .
qed


lemma smoke_sends_key: "key \<in> fst ` set smoke_sends \<Longrightarrow> map snd (filter (\<lambda>m. fst m = key) smoke_sends) = [0..<MESSAGES_PER_KEY]"
  by (auto simp: smoke_sends_def SMOKE_KEYS_def MESSAGES_PER_KEY_def upt_rec)

lemma verdict_on_log:
  assumes "appends k part tlog" "produce_messages k b = Some (Inr sent, b')" "tlog b = (\<lambda>p. [])"
    and "received_ok (tlog b') n received" "length sent \<le> length received"
  shows "smoke_verdict sent received = 0"
proof -
  note p = produce_log [OF assms(1) assms(2) [unfolded produce_messages_def]]
  have L: "\<forall>p. tlog b' p = filter (\<lambda>m. part (fst m) = p) smoke_sends" using p assms(3) by simp
  have sent: "received_ok (tlog b') (\<lambda>p. length (tlog b' p)) sent" using p assms(3) by (simp add: received_ok_def)
  have same: "mset received = mset sent" by (rule received_all [OF assms(4) sent assms(5)])
  have keys: "fst ` set sent = fst ` set smoke_sends"
  proof -
    have "fst ` set sent = fst ` set (map (\<lambda>(key, seq, p, i). (key, seq)) sent)" by (force simp: image_image)
    then show ?thesis using p by simp
  qed
  have "part key \<in> partitions_of sent" if k: "key \<in> fst ` set sent" for key
  proof -
    obtain seq q i where m: "(key, seq, q, i) \<in> set sent" using k by fastforce
    then have "q = part key" using p by blast
    then show ?thesis using m by (force simp: partitions_of_def)
  qed
  then have "\<forall>key \<in> fst ` set sent. key_seqs key sent = [0..<MESSAGES_PER_KEY]"
    using key_seqs_log [OF sent L] smoke_sends_key by (simp add: keys)
  then have "fst (check_order_preserved sent)"
    using received_distinct [OF sent] by (simp add: check_order_iff)
  then have "fst (check_order_preserved received)" using check_order_mset [OF same] by simp
  moreover have "q = part key" if "(key, seq, q, i) \<in> set sent" for key seq q i using p that by blast
  then have "fst (check_partition_routing sent)" unfolding check_routing_iff by blast
  ultimately show ?thesis by (simp add: smoke_verdict_def)
qed

section \<open>Lemmas: the test comes back\<close>

text \<open>
  The clock: it does not run backwards, a sleep lasts as long as asked, and a \<open>getmany\<close> that comes back with
  nothing takes some time, at least \<open>tick\<close> seconds, however small \<open>tick\<close> is. Nothing is asked of its timeout:
  with less than a millisecond left the loop passes a timeout of 0, and \<open>getmany\<close> then returns at once. \<open>smoke_fuel\<close>
  leaves one pass for each message and one for each \<open>tick\<close> of the time-out.
\<close>

definition smoke_clock :: "rat \<Rightarrow> ('b, 'm) smoke_kafka_scheme \<Rightarrow> bool" where
  "smoke_clock tick k \<longleftrightarrow>
     0 < tick \<and>
     (\<forall>b. ad_monotonic k b \<le> ad_monotonic k (snd (ad_list_topics k b))) \<and>
     (\<forall>b. ad_monotonic k b \<le> ad_monotonic k (snd (sk_describe k SMOKE_TOPIC b))) \<and>
     (\<forall>d b. ad_monotonic k b + d \<le> ad_monotonic k (ad_sleep k d b)) \<and>
     (\<forall>t b batch b'. sk_getmany k t b = (Inr batch, b') \<longrightarrow>
        ad_monotonic k b + (if concat batch = [] then tick else 0) \<le> ad_monotonic k b')"

definition smoke_fuel :: "rat \<Rightarrow> nat" where
  "smoke_fuel tick = Suc (length smoke_sends + nat \<lceil>CONSUME_TIMEOUT_S / tick\<rceil>)"

lemma poll_topic_ends:
  assumes sleep: "\<And>b d. ad_monotonic k b + d \<le> ad_monotonic k (ad_sleep k d b)"
    and check: "\<And>b. \<exists>r b'. check b = Some (r, b') \<and> ad_monotonic k b \<le> ad_monotonic k b'"
    and "deadline \<le> ad_monotonic k b + of_nat fuel * TOPIC_POLL_INTERVAL_S"
  shows "poll_topic k check late deadline (Suc fuel) b \<noteq> None"
  using assms(3)
proof (induction fuel arbitrary: b)
  case 0
  obtain r b1 where "check b = Some (r, b1)" "ad_monotonic k b \<le> ad_monotonic k b1" using check by blast
  then show ?case using 0 by (cases r) (simp_all add: h_bind_def)
next
  case (Suc fuel)
  obtain r b1 where c: "check b = Some (r, b1)" "ad_monotonic k b \<le> ad_monotonic k b1" using check by blast
  have "deadline \<le> ad_monotonic k (ad_sleep k TOPIC_POLL_INTERVAL_S b1) + of_nat fuel * TOPIC_POLL_INTERVAL_S"
    using Suc.prems c(2) sleep [of b1 TOPIC_POLL_INTERVAL_S] by (simp add: algebra_simps)
  from Suc.IH [OF this] show ?case
    using c(1) by (cases r) (simp_all add: h_bind_def poll_topic.simps(2) [of k check late deadline "Suc fuel"] del: poll_topic.simps(2))
qed

lemma wait_topic_ends:
  assumes "smoke_clock tick k" "check = topic_gone k \<or> check = topic_ready k"
  shows "ends (wait_topic k check what 31)"
proof -
  have poll: "\<exists>r b'. check b = Some (r, b') \<and> ad_monotonic k b \<le> ad_monotonic k b'" for b
    using assms by (auto simp: topic_gone_def topic_ready_def smoke_clock_def h_bind_def h_call_def h_return_def
        split: prod.split sum.split) (metis snd_conv)+
  have fuel: "31 = Suc 30" by simp
  have "poll_topic k check late (ad_monotonic k b + TOPIC_POLL_TIMEOUT_S) 31 b \<noteq> None" for late b
    unfolding fuel
    by (rule poll_topic_ends) (use assms(1) poll in \<open>auto simp: smoke_clock_def TOPIC_POLL_TIMEOUT_S_def TOPIC_POLL_INTERVAL_S_def\<close>)
  then show ?thesis by (simp add: ends_def wait_topic_def)
qed

lemma tick_progress:
  assumes "0 < (tick :: rat)" "x + (if p then tick else 0) \<le> y"
  shows "(d - y) / tick \<le> (d - x) / tick - (if p then 1 else 0)"
proof -
  have "(d - y) / tick \<le> (d - x - (if p then tick else 0)) / tick"
    by (rule divide_right_mono) (use assms in \<open>simp_all add: less_imp_le\<close>)
  then show ?thesis using assms(1) by (cases p) (simp_all add: diff_divide_distrib)
qed

lemma consume_loop_ends:
  assumes "smoke_clock tick k"
    and "of_nat (expected - length received) + (deadline - ad_monotonic k b) / tick \<le> (of_nat fuel :: rat)"
  shows "consume_loop k expected deadline (Suc fuel) received b \<noteq> None"
  using assms(2)
proof (induction fuel arbitrary: received b)
  case 0
  have "0 < tick" using assms(1) by (simp add: smoke_clock_def)
  moreover have "(deadline - ad_monotonic k b) / tick \<le> 0"
    using 0 of_nat_0_le_iff [where 'a = rat, of "expected - length received"] by linarith
  ultimately have "deadline \<le> ad_monotonic k b" by (simp add: divide_le_0_iff)
  then show ?case by (auto simp: Let_def)
next
  case (Suc fuel)
  show ?case
  proof (cases "length received < expected \<and> 0 < deadline - ad_monotonic k b")
    case False
    then show ?thesis by (auto simp: Let_def)
  next
    case True
    obtain r b1 where g: "sk_getmany k \<lfloor>(deadline - ad_monotonic k b) * 1000\<rfloor> b = (r, b1)" by fastforce
    show ?thesis
    proof (cases "\<exists>batch messages. r = Inr batch \<and> read_batch batch = Inr messages")
      case False
      then show ?thesis using True g
        by (auto simp: Let_def h_bind_def h_call_def h_lift_def split: sum.split)
    next
      case ok: True
      then obtain batch messages where r: "r = Inr batch" "read_batch batch = Inr messages" by blast
      have len: "length messages = length (concat batch)" using map_exn_length r(2) unfolding read_batch_def by blast
      have tick: "0 < tick" and "ad_monotonic k b + (if concat batch = [] then tick else 0) \<le> ad_monotonic k b1"
        using assms(1) g r(1) unfolding smoke_clock_def by blast+
      then have "(deadline - ad_monotonic k b1) / tick \<le> (deadline - ad_monotonic k b) / tick - (if concat batch = [] then 1 else 0)"
        by (rule tick_progress)
      moreover have "of_nat (expected - length (received @ messages)) + (if concat batch = [] then 0 else 1) \<le>
          (of_nat (expected - length received) :: rat)"
      proof -
        define c :: nat where "c = (if concat batch = [] then 0 else 1)"
        have "c \<le> length messages" "c \<le> 1" using len by (simp_all add: c_def Suc_le_eq del: concat_eq_Nil_conv)
        then have "expected - length (received @ messages) + c \<le> expected - length received"
          using conjunct1 [OF True] by simp
        then have "of_nat (expected - length (received @ messages)) + of_nat c \<le> (of_nat (expected - length received) :: rat)"
          by (metis of_nat_add of_nat_mono)
        then show ?thesis unfolding c_def by (cases "concat batch = []") (simp_all del: concat_eq_Nil_conv)
      qed
      ultimately have "of_nat (expected - length (received @ messages)) + (deadline - ad_monotonic k b1) / tick \<le> (of_nat fuel :: rat)"
        using Suc.prems by (simp split: if_splits)
      from Suc.IH [OF this] show ?thesis
        using True g r by (simp add: Let_def h_bind_def h_call_def h_lift_def consume_loop.simps(2) [of k expected deadline "Suc fuel"]
            del: consume_loop.simps(2))
    qed
  qed
qed


section \<open>Properties\<close>

text \<open>A broker for examples: a clock, the log of each partition and the consumer's positions.\<close>

record sim_broker =
  sim_clock :: rat
  sim_log :: "nat \<Rightarrow> (string \<times> nat) list"
  sim_pos :: "nat \<Rightarrow> nat"

definition sim_partition :: "string \<Rightarrow> nat" where
  "sim_partition key = length key mod 4"

definition sim_kafka :: "sim_broker smoke_kafka" where
  "sim_kafka =
     \<lparr>ad_start = Pair (Inr ()), ad_list_topics = Pair (Inr []),
      ad_create_topics = (\<lambda>t n r b. (Inr [(t, 0)], b\<lparr>sim_log := (\<lambda>p. [])\<rparr>)),
      ad_delete_topics = (\<lambda>t. Pair (Inr [(t, 0)])), ad_close = id, ad_monotonic = sim_clock,
      ad_sleep = (\<lambda>d b. b\<lparr>sim_clock := sim_clock b + d\<rparr>),
      sk_describe = (\<lambda>t. Pair (Inr [NUM_PARTITIONS])), sk_producer_start = Pair (Inr ()),
      sk_send = (\<lambda>t m b. let p = sim_partition (fst m) in
        (Inr (p, length (sim_log b p)), b\<lparr>sim_log := (sim_log b)(p := sim_log b p @ [m])\<rparr>)),
      sk_producer_stop = id, sk_consumer_start = (\<lambda>b. (Inr (), b\<lparr>sim_pos := (\<lambda>p. 0)\<rparr>)),
      sk_getmany = (\<lambda>t b.
        (Inr (map (\<lambda>p. map (\<lambda>i. \<lparr>sr_payload = Inr (sim_log b p ! i), sr_partition = p, sr_offset = i\<rparr>)
                   [sim_pos b p..<length (sim_log b p)]) [0..<4]),
         b\<lparr>sim_clock := sim_clock b + 1,
           sim_pos := (\<lambda>p. if p < 4 then max (sim_pos b p) (length (sim_log b p)) else sim_pos b p)\<rparr>)),
      sk_consumer_stop = id\<rparr>"

lemma smoke_main_ends:
  assumes "smoke_clock tick k"
  shows "\<exists>r b'. smoke_main k for_code 31 (smoke_fuel tick) b = Some (r, b')"
proof -
  have "ends (recreate_topic k for_code 31)"
    unfolding recreate_topic_def using wait_topic_ends [OF assms] by (auto intro!: ends_rules)
  moreover have "ends (send_message k m)" for m
    unfolding send_message_def by (auto intro!: ends_rules split: prod.split)
  then have "ends (produce_messages k)" unfolding produce_messages_def by (rule ends_map)
  moreover have "ends (consume_messages k (length sent) (smoke_fuel tick))"
    if produced: "h_finally (produce_messages k) (h_do (sk_producer_stop k)) b = Some (Inr sent, b')" for sent b b'
  proof -
    obtain s1 where "h_map (send_message k) smoke_sends b = Some (Inr sent, s1)"
      using produced unfolding produce_messages_def by (elim h_finally_InrE)
    then have "length sent = length smoke_sends" by (rule h_map_length)
    moreover have "CONSUME_TIMEOUT_S / tick \<le> of_nat (nat \<lceil>CONSUME_TIMEOUT_S / tick\<rceil>)"
      by (rule of_nat_ceiling)
    ultimately have "consume_loop k (length sent) (ad_monotonic k b + CONSUME_TIMEOUT_S) (smoke_fuel tick) [] b \<noteq> None" for b
      unfolding smoke_fuel_def by (intro consume_loop_ends [OF assms]) simp
    then have "ends (\<lambda>b. consume_loop k (length sent) (ad_monotonic k b + CONSUME_TIMEOUT_S) (smoke_fuel tick) [] b)"
      by (simp add: ends_def)
    then show ?thesis unfolding consume_messages_def by (intro ends_rules ends_finally)
  qed
  ultimately have "ends (smoke_main k for_code 31 (smoke_fuel tick))"
    unfolding smoke_main_def by (intro ends_rules ends_finally ends_bind_when [where m = "h_finally (produce_messages k) _"])
  then show ?thesis unfolding ends_def by fastforce
qed


text \<open>
  C18. The smoke test comes back and never blames a healthy broker: on a broker that is a partitioned log,
  whatever the batches its consumer returns and whenever a call raises, \<open>main\<close> returns or raises, and if it
  returns, its exit code is 0. It takes at most 31 passes of each topic wait and, where an empty \<open>getmany\<close> lasts
  at least \<open>tick\<close> seconds, one pass of the consume loop for each of the 30 messages and each \<open>tick\<close> in 15 seconds.
\<close>

theorem smoke_test_passes_on_log:
  assumes "smoke_clock tick k" "appends k part tlog" "reads_in_order k tlog pos" "topic_fresh k tlog"
  shows "\<exists>r b'. smoke_main k for_code 31 (smoke_fuel tick) b = Some (r, b') \<and> (\<forall>code. r = Inr code \<longrightarrow> code = 0)"
proof -
  obtain r b' where run: "smoke_main k for_code 31 (smoke_fuel tick) b = Some (r, b')"
    using smoke_main_ends [OF assms(1)] by blast
  have "code = 0" if r: "r = Inr code" for code
  proof -
    obtain b0 u b1 b2 sent b3 received b4
      where a: "h_finally (recreate_topic k for_code 31) (h_do (ad_close k)) b0 = Some (Inr u, b1)"
        "h_call (sk_producer_start k) b1 = Some (Inr (), b2)"
        "h_finally (produce_messages k) (h_do (sk_producer_stop k)) b2 = Some (Inr sent, b3)"
        "consume_messages k (length sent) (smoke_fuel tick) b3 = Some (Inr received, b4)"
      and code: "code = smoke_verdict sent received"
      using run unfolding r smoke_main_def
      by (elim h_bind_InrE) (simp add: h_return_def)
    obtain c1 where c1: "recreate_topic k for_code 31 b0 = Some (Inr u, c1)" "b1 = ad_close k c1"
      using a(1) by (rule h_finally_InrE)
    obtain c3 where c3: "produce_messages k b2 = Some (Inr sent, c3)" "b3 = sk_producer_stop k c3"
      using a(3) by (rule h_finally_InrE)
    have keep: "tlog (ad_close k b) = tlog b" "tlog (snd (sk_producer_start k b)) = tlog b" "tlog (sk_producer_stop k b) = tlog b" for b
      using assms(4) unfolding topic_fresh_def by blast+
    have "tlog b2 = tlog b1" using a(2) keep(2) [of b1] by (simp add: h_call_def)
    then have empty: "tlog b2 = (\<lambda>p. [])"
      using recreate_fresh [OF assms(4) c1(1)] c1(2) keep(1) by simp
    obtain d c4 where start: "sk_consumer_start k b3 = (Inr (), d)"
      and loop: "consume_loop k (length sent) (ad_monotonic k d + CONSUME_TIMEOUT_S) (smoke_fuel tick) [] d = Some (Inr received, c4)"
      using a(4) unfolding consume_messages_def
      by (elim h_bind_InrE h_finally_InrE) (simp add: h_call_def)
    have d: "tlog d = tlog c3" "pos d = (\<lambda>p. 0)"
      using assms(3) start keep(3) c3(2) unfolding reads_in_order_def by auto
    have "received_ok (tlog d) (pos d) []" by (simp add: received_ok_def d(2) partition_entries_def)
    from consume_loop_log [OF assms(3) this loop]
    obtain n where "received_ok (tlog c3) n received" "length sent \<le> length received" unfolding d(1) by blast
    then show ?thesis
      unfolding code using verdict_on_log [OF assms(2) c3(1) empty] by blast
  qed
  with run show ?thesis by blast
qed

lemma sim_kafka_ok:
  "smoke_clock 1 sim_kafka" "appends sim_kafka sim_partition sim_log" "topic_fresh sim_kafka sim_log"
  by (auto simp: smoke_clock_def appends_def topic_fresh_def sim_kafka_def Let_def)

lemma filter_upt_parts:
  "p < n \<Longrightarrow> filter (\<lambda>m. sr_partition m = p) (concat (map (\<lambda>q. map (\<lambda>i. \<lparr>sr_payload = f q i, sr_partition = q, sr_offset = i\<rparr>) (g q)) [0..<n])) =
     map (\<lambda>i. \<lparr>sr_payload = f p i, sr_partition = p, sr_offset = i\<rparr>) (g p)"
  "n \<le> p \<Longrightarrow> filter (\<lambda>m. sr_partition m = p) (concat (map (\<lambda>q. map (\<lambda>i. \<lparr>sr_payload = f q i, sr_partition = q, sr_offset = i\<rparr>) (g q)) [0..<n])) = []"
  by (induction n) (auto simp: filter_empty_conv less_Suc_eq)

lemma upt_max [simp]: "[i..<max i j] = [i..<j]"
  by (cases "i \<le> j") (simp_all add: max_def)

lemma sim_kafka_reads: "reads_in_order sim_kafka sim_log sim_pos"
  unfolding reads_in_order_def sim_kafka_def
  by (auto simp: filter_upt_parts not_less comp_def)

theorem smoke_test_passes_on_log_witness:
  "\<exists>r b'. smoke_main sim_kafka (\<lambda>c. []) 31 (smoke_fuel 1) \<lparr>sim_clock = 0, sim_log = (\<lambda>p. []), sim_pos = (\<lambda>p. 0)\<rparr> = Some (r, b') \<and>
     r \<in> range Inl \<union> {Inr 0}"
  using smoke_test_passes_on_log [OF sim_kafka_ok(1,2) sim_kafka_reads sim_kafka_ok(3)]
  by (metis Un_iff insert_iff obj_sumE rangeI)

text \<open>
  What the order check does not see: its verdict is the same for every permutation of the consumed
  messages, so it says nothing of the order in which they were consumed, only of their offsets and sequence
  numbers.
\<close>

theorem order_check_ignores_consumption_order:
  assumes "mset received = mset received'"
  shows "fst (check_order_preserved received) = fst (check_order_preserved received')"
  using assms by (rule check_order_mset)

theorem order_check_ignores_consumption_order_witness:
  "fst (check_order_preserved [(''a'', 1, 0, 1), (''a'', 0, 0, 0)]) =
   fst (check_order_preserved [(''a'', 0, 0, 0), (''a'', 1, 0, 1)])"
  by (rule order_check_ignores_consumption_order) simp

text \<open>
  The routing check is exact: it passes if and only if no key was sent to two partitions.
\<close>

theorem routing_check_exact:
  "fst (check_partition_routing sent) \<longleftrightarrow>
     {(k, p, p'). p \<noteq> p' \<and> (\<exists>s i s' i'. (k, s, p, i) \<in> set sent \<and> (k, s', p', i') \<in> set sent)} = {}"
  unfolding check_routing_iff by (auto; blast)

end
