(* ===== verification/KV_Report.thy ===== *)
theory KV_Report
  imports KV_Harness KV_ResultsDoc
begin

text \<open>
  The reports of \<open>experiments/run_comparison.py\<close>: the tables it prints and writes, the sections of
  \<open>docs/results.md\<close> it owns, and \<open>main\<close>, which runs the three sweeps and reports them. A text is the
  list of its lines where the code prints or joins lines. The text of an exception and the time stamps
  are parameters. A rate is shown from its exact value, an elapsed time from the value of its float.
\<close>

section \<open>Formatting\<close>

text \<open>\<open>f"{x:.df}"\<close>: the nearest decimal with \<open>d\<close> places, ties to even; \<open>f"{s:<n}"\<close>: padding on the right.\<close>

definition round_half_even :: "rat \<Rightarrow> int" where
  "round_half_even q =
     (let n = \<lfloor>q\<rfloor>; d = q - of_int n
      in if d < 1 / 2 \<or> (d = 1 / 2 \<and> even n) then n else n + 1)"

definition zfill :: "nat \<Rightarrow> string \<Rightarrow> string" where
  "zfill n s = replicate (n - length s) (CHR ''0'') @ s"

definition fixed_digits :: "nat \<Rightarrow> rat \<Rightarrow> string" where
  "fixed_digits d q =
     (let n = round_half_even (q * 10 ^ d)
      in py_str_of_int (n div 10 ^ d) @ ''.'' @ zfill d (py_str_of_int (n mod 10 ^ d)))"

fun fmt_fixed :: "nat \<Rightarrow> pyfloat \<Rightarrow> string" where
  "fmt_fixed d (Fin q) = (if q < 0 then ''-'' @ fixed_digits d (- q) else fixed_digits d q)"
| "fmt_fixed d PInf = ''inf''"
| "fmt_fixed d MInf = ''-inf''"
| "fmt_fixed d NaN = ''nan''"

definition ljust :: "nat \<Rightarrow> string \<Rightarrow> string" where
  "ljust n s = s @ replicate (n - length s) (CHR '' '')"

text \<open>\<open>"\n".join(lines)\<close>.\<close>

fun join_lines :: "string list \<Rightarrow> string" where
  "join_lines [] = []"
| "join_lines [l] = l"
| "join_lines (l # m # ls) = l @ newline # join_lines (m # ls)"

section \<open>The printed reports\<close>

definition rule_of :: "char \<Rightarrow> string" where
  "rule_of c = replicate 92 c"

definition print_row :: "config_result \<Rightarrow> string" where
  "print_row r =
     ljust 14 (fmt_fixed 2 (Fin (cr_staleness_rate r))) @ ljust 13 (fmt_fixed 1 (cr_elapsed r)) @
     ljust 10 (py_str_of_int (cr_total_failures r)) @ ljust 10 (py_str_of_int (cr_total_requests r))"

definition print_skipped :: "(config_error \<Rightarrow> string) \<Rightarrow> config_error list \<Rightarrow> string list" where
  "print_skipped row errors =
     (if errors = [] then []
      else [[], rule_of (CHR ''!''),
          ''  '' @ py_str_of_int (int (length errors)) @ '' configuration(s) SKIPPED due to startup/run failures:''] @
        map row errors @ [rule_of (CHR ''!'')])"

definition print_report :: "(exn \<Rightarrow> string) \<Rightarrow> sweep_outcome list \<Rightarrow> string list" where
  "print_report str_exn outcomes =
     [[], rule_of (CHR ''=''), ''  COMBINED REPLICATION STRATEGY COMPARISON'',
      ''  (ranked by staleness rate ascending -- lowest/best first)'', rule_of (CHR ''=''),
      ljust 6 ''rank'' @ ljust 16 ''strategy'' @ ljust 16 ''config'' @ ljust 14 ''staleness %'' @
        ljust 13 ''elapsed (s)'' @ ljust 10 ''failures'' @ ljust 10 ''requests'',
      rule_of (CHR ''-'')] @
     map (\<lambda>(i, r). ljust 6 (num i) @ ljust 16 (cr_strategy r) @ ljust 16 (cr_label r) @ print_row r)
       (ranked_rows outcomes) @
     [rule_of (CHR ''='')] @
     print_skipped (\<lambda>e. ''    '' @ ljust 16 (ce_strategy e) @ ljust 16 (ce_label e) @ str_exn (ce_reason e))
       (errors_of outcomes)"

definition print_mq_report :: "(exn \<Rightarrow> string) \<Rightarrow> sweep_outcome list \<Rightarrow> string list" where
  "print_mq_report str_exn outcomes =
     [[], rule_of (CHR ''=''), ''  MESSAGE-QUEUE SWEEP (load intensity -- not ranked against the table above)'',
      rule_of (CHR ''=''),
      ljust 16 ''config'' @ ljust 14 ''staleness %'' @ ljust 13 ''elapsed (s)'' @ ljust 10 ''failures'' @
        ljust 10 ''requests'',
      rule_of (CHR ''-'')] @
     map (\<lambda>r. ljust 16 (cr_label r) @ print_row r) (results_of outcomes) @
     [rule_of (CHR ''='')] @
     print_skipped (\<lambda>e. ''    '' @ ljust 16 (ce_label e) @ str_exn (ce_reason e)) (errors_of outcomes)"

section \<open>The sections of the results document\<close>

definition RESULTS_HEADER_MARKER :: string where
  "RESULTS_HEADER_MARKER = ''header''"

definition RESULTS_HEADER :: string where
  \<open>RESULTS_HEADER =
    ''# Replication strategy comparison results'' @ [newline] @ [newline]
    @ ''> **Auto-generated -- do not hand-edit.** This file is rebuilt by three scripts, each ''
    @ ''owning one or more sections marked below: `experiments/run_comparison.py` (main sweep and ''
    @ ''message-queue sweep), `experiments/leaderless_boundary_case_demo.py` (boundary-case ''
    @ ''demo), and `experiments/mq_lag_demo.py` (message-queue lag demo). Manual edits inside any ''
    @ ''marked section are overwritten the next time that section's script runs. For the ''
    @ ''hand-maintained interpretation of these numbers -- why they look the way they do -- see ''
    @ ''the top-level `README.md`'s "Results" section.''\<close>

definition METHODOLOGY_NOTES :: string where
  \<open>METHODOLOGY_NOTES =
    ''### Methodology notes'' @ [newline] @ [newline]
    @ ''**ack_required=0 vs. W=1,R=1 aren't apples-to-apples.** Both are each strategy's ''
    @ ''weakest/no-durability-wait config, but this harness gives them very different coordinator ''
    @ ''load: every leader-follower write goes through the one leader process (100% of write ''
    @ ''traffic, one process), while every leaderless write picks its coordinator by round robin ''
    @ ''across all 5 nodes (`NodeRotation` in `experiments/leaderless_staleness_load_test.py`, ''
    @ ''roughly 20% of write traffic per process). `ack_required=0`'s replicate fan-out is ''
    @ ''therefore concentrated on a single process; `W=1`'s architecturally-equivalent fan-out is ''
    @ ''split roughly five ways. This is a real, structural difference in what this harness ''
    @ ''measures for each config, not just "there may be some asymmetry here" -- it plausibly ''
    @ ''explains part of the gap between the two configs' results, independent of anything about ''
    @ ''the two replication strategies' actual protocols. See docs/AUDIT_FINDINGS.md's '' @ [CHR 0xA7]
    @ ''9.'' @ [newline] @ [newline] @ ''**Runs are seeded (default seed: '' @ py_str_of_int DEFAULT_SEED
    @ ''; override with --seed).** Every config's full sequence of per-request decisions -- which ''
    @ ''key, read vs. write, which follower/read-coordinator -- is precomputed before that ''
    @ ''config's timed portion starts, so the same seed produces the exact same sequence of ''
    @ ''decisions on every run (see `experiments/_load_test_common.py`'s ''
    @ ''`generate_request_plan`). This does **not** make a config's results identical run to run: ''
    @ ''real request timing/scheduling -- whether a read's real arrival races a write's real ''
    @ ''in-flight replication -- is not seeded and cannot be made deterministic. Measured ''
    @ ''directly (3 runs each, same seed='' @ py_str_of_int DEFAULT_SEED
    @ '', nothing else changed): leader-follower `ack_required=2` ranged 13.12-13.31% staleness, ''
    @ ''17-30 failures (elapsed 38.3-42.1s); leaderless `W=1,R=1` measured exactly 0.00% ''
    @ ''staleness, 0 failures, all three runs (elapsed 23.1-24.5s) -- consistent with `W=1,R=1` ''
    @ ''being a genuine structural blind spot at this scale (see the boundary-case-demo section) ''
    @ ''rather than something timing-sensitive enough to show variance here. Treat any single ''
    @ ''run's numbers, including the table above, as one sample from around that range, not an ''
    @ ''exact, repeatable figure -- tighter for some configs than others. See ''
    @ ''docs/AUDIT_FINDINGS.md's '' @ [CHR 0xA7] @ ''8.''\<close>

definition MQ_METHODOLOGY_NOTES :: string where
  \<open>MQ_METHODOLOGY_NOTES =
    ''### Methodology notes'' @ [newline] @ [newline]
    @ ''**This sweep's variable is load intensity (worker count), not an ack-wait knob.** Unlike ''
    @ ''`ack_required` or `W`/`R`, this strategy has no client-facing wait-and-ack setting to ''
    @ ''sweep -- every write acks as soon as Kafka confirms the message is durably logged, ''
    @ ''regardless of load (see `message_queue/producer.py`). Staleness here instead reflects how ''
    @ ''far a follower's consumer has fallen behind under load; ''
    @ ''`experiments/mq_staleness_load_test.py`'s `--workers` is what varies between rows, not a ''
    @ ''per-request override the way leaderless's `w`/`r` are.'' @ [newline] @ [newline]
    @ ''**Every row starts from a genuinely fresh topic, not just fresh processes.** ''
    @ ''`message_queue/topics.py`'s `reset_topic()` deletes and recreates the Kafka topic between ''
    @ ''configs (waiting for the deletion to actually complete first -- Kafka topic deletion is ''
    @ ''asynchronous), and every follower gets a config-specific node-id so its derived ''
    @ ''consumer-group id is unique to that row too -- see `experiments/run_comparison.py`'s ''
    @ ''`run_mq_configs` for why both matter, not just one.'' @ [newline] @ [newline]
    @ ''**Lag is sampled only on a detected-stale read, not on every read** (see ''
    @ ''`experiments/mq_staleness_load_test.py`'s own docstring for why) -- `lag_at_stale_read` ''
    @ ''in this sweep's raw JSONL logs is a per-event diagnostic sample, not a continuous ''
    @ ''measurement, and its absence from the table above is deliberate: aggregating it into a ''
    @ ''single summary number here would imply a precision this sampling strategy doesn't have.'' @ [newline]
    @ [newline] @ ''**Runs are seeded (default seed: '' @ py_str_of_int DEFAULT_SEED
    @ ''; override with --seed), with the same caveat as the main sweep above:** which decision ''
    @ ''each request makes is reproducible, real timing/scheduling is not, so treat any single ''
    @ ''run's numbers as one sample, not an exact repeatable figure.''\<close>

definition LOAD_TEST_LOG_DIR :: string where
  "LOAD_TEST_LOG_DIR = ''experiments/output/run_comparison_load_test_logs''"

text \<open>\<open>| a | b | c |\<close>, a row of a table.\<close>

definition table_row :: "string list \<Rightarrow> string" where
  "table_row cells = ''|'' @ concat (map (\<lambda>c. '' '' @ c @ '' |'') cells)"

definition result_cells :: "config_result \<Rightarrow> string list" where
  "result_cells r =
     [fmt_fixed 2 (Fin (cr_staleness_rate r)) @ ''%'', fmt_fixed 1 (cr_elapsed r) @ ''s'',
      py_str_of_int (cr_total_failures r), py_str_of_int (cr_total_requests r)]"

definition main_sweep_lines :: "(exn \<Rightarrow> string) \<Rightarrow> string \<Rightarrow> sweep_outcome list \<Rightarrow> string list" where
  "main_sweep_lines str_exn generated_at outcomes =
     [''## Main sweep'', [],
      ''Generated by `experiments/run_comparison.py` on '' @ generated_at @ ''.'', [],
    ''Ranked by staleness rate ascending (lowest/best first). See the top-level `README.md` for ''
    @ ''what each strategy/parameter means and the hand-maintained interpretation of these ''
    @ ''numbers -- why they look the way they do. Raw per-config stale-read/failure JSONL logs: `''
      @ LOAD_TEST_LOG_DIR @ ''/`.'', [],
      ''| Rank | Strategy | Config | Staleness rate | Elapsed | Failures | Total requests |'',
      ''|---|---|---|---|---|---|---|''] @
     map (\<lambda>(i, r). table_row ([num i, cr_strategy r, cr_label r] @ result_cells r)) (ranked_rows outcomes) @
     (if errors_of outcomes = [] then []
      else [[], ''### Skipped configurations'', [], ''| Strategy | Config | Reason |'', ''|---|---|---|''] @
        map (\<lambda>e. table_row [ce_strategy e, ce_label e, str_exn (ce_reason e)]) (errors_of outcomes)) @
     [[], METHODOLOGY_NOTES]"

definition mq_sweep_lines :: "(exn \<Rightarrow> string) \<Rightarrow> string \<Rightarrow> sweep_outcome list \<Rightarrow> string list" where
  "mq_sweep_lines str_exn generated_at outcomes =
     [''## Message-queue sweep'', [],
      ''Generated by `experiments/run_comparison.py` on '' @ generated_at @ ''.'', [],
    ''Listed in ascending load order (fewest concurrent workers first), not ranked by staleness ''
    @ ''-- see the top-level `README.md` for what this strategy's trade-off means and the ''
    @ ''hand-maintained interpretation of these numbers. Raw per-config stale-read/failure JSONL ''
    @ ''logs (including a `lag_at_stale_read` field on every stale-read event): `''
      @ LOAD_TEST_LOG_DIR @ ''/`.'', [],
      ''| Config | Staleness rate | Elapsed | Failures | Total requests |'',
      ''|---|---|---|---|---|''] @
     map (\<lambda>r. table_row (cr_label r # result_cells r)) (results_of outcomes) @
     (if errors_of outcomes = [] then []
      else [[], ''### Skipped configurations'', [], ''| Config | Reason |'', ''|---|---|''] @
        map (\<lambda>e. table_row [ce_label e, str_exn (ce_reason e)]) (errors_of outcomes)) @
     [[], MQ_METHODOLOGY_NOTES]"

text \<open>The two writers, as functions from the old text of the results document to the new one.\<close>

definition write_markdown_report ::
    "(exn \<Rightarrow> string) \<Rightarrow> string \<Rightarrow> sweep_outcome list \<Rightarrow> string \<Rightarrow> string" where
  "write_markdown_report str_exn generated_at outcomes doc =
     replace_section (replace_section doc RESULTS_HEADER_MARKER RESULTS_HEADER) ''main-sweep''
       (join_lines (main_sweep_lines str_exn generated_at outcomes))"

definition write_mq_markdown_report ::
    "(exn \<Rightarrow> string) \<Rightarrow> string \<Rightarrow> sweep_outcome list \<Rightarrow> string \<Rightarrow> string" where
  "write_mq_markdown_report str_exn generated_at outcomes doc =
     replace_section (replace_section doc RESULTS_HEADER_MARKER RESULTS_HEADER) ''mq-sweep''
       (join_lines (mq_sweep_lines str_exn generated_at outcomes))"

section \<open>The comparison\<close>

text \<open>
  \<open>main\<close>, over the world of the harness and the text of the results document: the sweeps, then the lines
  of both reports, then both sections.
\<close>

definition comparison_main ::
    "'b os \<Rightarrow> 'b bench \<Rightarrow> (exn \<Rightarrow> string) \<Rightarrow> string \<Rightarrow> string \<Rightarrow> ('b hstate \<times> string, string list) comp" where
  "comparison_main os bn str_exn generated_at mq_generated_at =
     h_bind (h_left (run_comparison os bn)) (\<lambda>(main_outcomes, mq_outcomes).
     h_bind (h_do (apsnd (write_markdown_report str_exn generated_at main_outcomes))) (\<lambda>_.
     h_bind (h_do (apsnd (write_mq_markdown_report str_exn mq_generated_at mq_outcomes))) (\<lambda>_.
       h_return (print_report str_exn main_outcomes @ print_mq_report str_exn mq_outcomes))))"

section \<open>Lemmas: texts that start no comment\<close>

definition no_lt :: "string \<Rightarrow> bool" where
  "no_lt s \<longleftrightarrow> CHR ''<'' \<notin> set s"

lemma no_lt_simps [simp]:
  "no_lt []" "no_lt (c # s) \<longleftrightarrow> c \<noteq> CHR ''<'' \<and> no_lt s" "no_lt (s @ t) \<longleftrightarrow> no_lt s \<and> no_lt t"
  "no_lt (concat ss) \<longleftrightarrow> list_all no_lt ss" "no_lt (replicate n c) \<longleftrightarrow> n = 0 \<or> c \<noteq> CHR ''<''"
  by (auto simp: no_lt_def list_all_iff)

lemma no_lt_join [simp]: "no_lt (join_lines ls) \<longleftrightarrow> list_all no_lt ls"
  by (induction ls rule: join_lines.induct) (simp_all add: newline_def)

lemma no_lt_dec [simp]: "no_lt (dec_of_nat n)"
proof (induction n rule: dec_of_nat.induct)
  case (1 n)
  have digit: "(char_of (k + 48) :: char) \<noteq> CHR ''<''" if "k < 10" for k :: nat
  proof
    assume "(char_of (k + 48) :: char) = CHR ''<''"
    then have "(of_char (char_of (k + 48) :: char) :: nat) = of_char (CHR ''<'')" by simp
    then show False using that by simp
  qed
  show ?case using 1 digit by (subst dec_of_nat.simps) simp
qed

lemma no_lt_numbers [simp]: "no_lt (py_str_of_int i)" "no_lt (num n)" "no_lt (fmt_fixed d x)"
  by (simp_all add: py_str_of_int_def num_def)
    (cases x; simp add: fixed_digits_def zfill_def Let_def py_str_of_int_def)

lemma no_lt_table_row [simp]: "no_lt (table_row cells) \<longleftrightarrow> list_all no_lt cells"
  by (simp add: table_row_def list.pred_map o_def)

lemma no_lt_result_cells [simp]: "list_all no_lt (result_cells r)"
  by (simp add: result_cells_def del: fmt_fixed.simps)

lemma no_lt_notes [simp]: "no_lt RESULTS_HEADER" "no_lt METHODOLOGY_NOTES" "no_lt MQ_METHODOLOGY_NOTES"
  "no_lt LOAD_TEST_LOG_DIR"
  by (simp_all add: RESULTS_HEADER_def METHODOLOGY_NOTES_def MQ_METHODOLOGY_NOTES_def LOAD_TEST_LOG_DIR_def newline_def)

text \<open>
  What a text must not hold is the start of a comment; a \<open><\<close> alone does no harm. So the text of an exception
  may hold one, as in \<open><AddressFamily.AF_UNSPEC: 0>\<close>.
\<close>

lemma plain_content_iff: "plain_content c \<longleftrightarrow> (\<forall>k. \<not> occurs_at ''<!-- '' c k)"
  by (simp add: plain_content_def py_find_None_iff)

lemma plain_content_prefix: "no_lt xs \<Longrightarrow> plain_content (xs @ ys) \<longleftrightarrow> plain_content ys"
  unfolding plain_content_def by (induction xs) auto

lemma plain_content_no_lt: "no_lt xs \<Longrightarrow> plain_content xs"
  using plain_content_prefix [of xs "[]"] by (simp add: plain_content_def)

lemma plain_content_line [simp]: "plain_content (xs @ newline # ys) \<longleftrightarrow> plain_content xs \<and> plain_content ys"
proof -
  have "newline \<notin> set ''<!-- ''" by (simp add: newline_def)
  then show ?thesis by (auto simp: plain_content_def py_find_line split: option.splits)
qed

lemma plain_content_join: "list_all plain_content ls \<Longrightarrow> plain_content (join_lines ls)"
  by (induction ls rule: join_lines.induct) (simp_all add: plain_content_def [of "[]"])

lemma plain_content_infix: "plain_content (xs @ ys @ zs) \<Longrightarrow> plain_content ys"
  unfolding plain_content_iff occurs_at_def by (metis append.assoc)

lemma plain_content_strip: "plain_content c \<Longrightarrow> plain_content (py_strip c)"
proof -
  let ?d = "dropWhile py_isspace c"
  have "c = takeWhile py_isspace c @ py_strip c @ rev (takeWhile py_isspace (rev ?d))"
    unfolding py_strip_def by (metis rev_append rev_rev_ident takeWhile_dropWhile_id)
  then show "plain_content c \<Longrightarrow> plain_content (py_strip c)" using plain_content_infix by metis
qed

text \<open>
  A row of a table whose last cell alone may hold a \<open><\<close>. The cell is followed by a blank, so it must not end
  with \<open><!--\<close> either.
\<close>

definition no_comment :: "string \<Rightarrow> bool" where
  "no_comment s \<longleftrightarrow> py_find ''<!--'' s = None"

lemma plain_content_table_row:
  assumes "list_all no_lt cells" "no_comment cell"
  shows "plain_content (table_row (cells @ [cell]))"
proof -
  have row: "table_row (cells @ [cell]) = (table_row cells @ '' '') @ (cell @ '' |'')"
    by (simp add: table_row_def)
  have "plain_content (cell @ '' |'')"
    unfolding plain_content_iff
  proof (intro allI notI)
    fix k
    assume "occurs_at ''<!-- '' (cell @ '' |'') k"
    then obtain us vs where split: "cell @ '' |'' = us @ ''<!-- '' @ vs" by (auto simp: occurs_at_def)
    show False
    proof (cases "length cell < length us + 4")
      case True
      have at: "(cell @ '' |'') ! i = (us @ ''<!-- '' @ vs) ! i" for i using split by simp
      have "length us + 5 \<le> length cell + 2" using arg_cong [OF split, of length] by simp
      then have "length cell = length us + 3" using True by simp
      then show ?thesis using at [of "length us + 3"] by (simp add: nth_append)
    next
      case False
      then have "take (length us + 4) cell = us @ ''<!--''"
        using arg_cong [OF split, of "take (length us + 4)"] by simp
      then have "occurs_at ''<!--'' cell (length us)"
        unfolding occurs_at_def by (metis append.assoc append_take_drop_id)
      then show ?thesis using assms(2) by (simp add: no_comment_def py_find_None_iff)
    qed
  qed
  then show ?thesis unfolding row by (subst plain_content_prefix) (simp_all add: assms(1))
qed

section \<open>Lemmas: what the report lists\<close>

fun outcome_plain :: "sweep_outcome \<Rightarrow> bool" where
  "outcome_plain (Config_result r) \<longleftrightarrow> no_lt (cr_strategy r) \<and> no_lt (cr_label r)"
| "outcome_plain (Config_error e) \<longleftrightarrow> no_lt (ce_strategy e) \<and> no_lt (ce_label e)"

lemma results_of_plain: "list_all outcome_plain outcomes \<Longrightarrow>
    list_all (\<lambda>r. no_lt (cr_strategy r) \<and> no_lt (cr_label r)) (results_of outcomes)"
  by (induction outcomes rule: results_of.induct) simp_all

lemma errors_of_plain: "list_all outcome_plain outcomes \<Longrightarrow>
    list_all (\<lambda>e. no_lt (ce_strategy e) \<and> no_lt (ce_label e)) (errors_of outcomes)"
  by (induction outcomes rule: errors_of.induct) simp_all

lemma ranked_plain: "list_all outcome_plain outcomes \<Longrightarrow>
    (i, r) \<in> set (ranked_rows outcomes) \<Longrightarrow> no_lt (cr_strategy r) \<and> no_lt (cr_label r)"
  using results_of_plain [of outcomes]
  by (auto simp: ranked_rows_def list_all_iff enumerate_eq_zip dest: set_zip_rightD)

lemma plain_skipped:
  assumes "list_all outcome_plain outcomes" "\<And>e. no_comment (str_exn e)"
  shows "list_all plain_content (map (\<lambda>e. table_row [ce_strategy e, ce_label e, str_exn (ce_reason e)]) (errors_of outcomes))"
    and "list_all plain_content (map (\<lambda>e. table_row [ce_label e, str_exn (ce_reason e)]) (errors_of outcomes))"
proof -
  have "plain_content (table_row [ce_strategy e, ce_label e, str_exn (ce_reason e)])"
    "plain_content (table_row [ce_label e, str_exn (ce_reason e)])" if "e \<in> set (errors_of outcomes)" for e
    using that errors_of_plain [OF assms(1)] plain_content_table_row [OF _ assms(2), of "[ce_strategy e, ce_label e]"]
      plain_content_table_row [OF _ assms(2), of "[ce_label e]"]
    by (simp_all add: list_all_iff)
  then show "list_all plain_content (map (\<lambda>e. table_row [ce_strategy e, ce_label e, str_exn (ce_reason e)]) (errors_of outcomes))"
    and "list_all plain_content (map (\<lambda>e. table_row [ce_label e, str_exn (ce_reason e)]) (errors_of outcomes))"
    by (simp_all add: list_all_iff)
qed

lemma plain_reports:
  assumes "list_all outcome_plain outcomes" "no_lt generated_at" "\<And>e. no_comment (str_exn e)"
  shows "plain_content (join_lines (main_sweep_lines str_exn generated_at outcomes))"
    and "plain_content (join_lines (mq_sweep_lines str_exn generated_at outcomes))"
proof -
  note rows = no_lt_result_cells [unfolded list_all_iff] ranked_plain [OF assms(1)]
    results_of_plain [OF assms(1), unfolded list_all_iff]
  have "list_all plain_content (map (\<lambda>(i, r). table_row ([num i, cr_strategy r, cr_label r] @ result_cells r)) (ranked_rows outcomes))"
    "list_all plain_content (map (\<lambda>r. table_row (cr_label r # result_cells r)) (results_of outcomes))"
    using rows by (auto simp: list_all_iff intro!: plain_content_no_lt)
  note tables = this plain_skipped [of _ str_exn, OF assms(1,3)] plain_content_no_lt [of METHODOLOGY_NOTES]
    plain_content_no_lt [of MQ_METHODOLOGY_NOTES]
  show "plain_content (join_lines (main_sweep_lines str_exn generated_at outcomes))"
    unfolding main_sweep_lines_def
    by (intro plain_content_join) (use tables assms(2) in \<open>simp add: plain_content_no_lt\<close>)
  show "plain_content (join_lines (mq_sweep_lines str_exn generated_at outcomes))"
    unfolding mq_sweep_lines_def
    by (intro plain_content_join) (use tables assms(2) in \<open>simp add: plain_content_no_lt\<close>)
qed

lemma run_config_plain:
  assumes "run_config os strategy label body s = Some (Inr outcome, s')" "no_lt strategy" "no_lt label"
  shows "outcome_plain outcome"
  using assms
  by (auto simp: run_config_def h_finally_def h_except_def h_bind_def h_return_def config_result_of_def
      split: option.splits sum.splits if_splits)

lemma h_map_all:
  assumes "\<And>x s y s'. x \<in> set xs \<Longrightarrow> f x s = Some (Inr y, s') \<Longrightarrow> P y" "h_map f xs s = Some (Inr ys, s')"
  shows "list_all P ys"
  using assms
proof (induction xs arbitrary: s s' ys)
  case Nil
  then show ?case by (simp add: h_return_def)
next
  case (Cons x xs)
  from Cons.prems(2) obtain y s1 zs s2 where r: "f x s = Some (Inr y, s1)" "h_map f xs s1 = Some (Inr zs, s2)"
    "ys = y # zs"
    by (auto simp: h_return_def elim!: h_bind_InrE)
  have "list_all P zs" by (rule Cons.IH [OF _ r(2)]) (rule Cons.prems(1), simp_all)
  moreover have "P y" by (rule Cons.prems(1) [OF _ r(1)]) simp
  ultimately show ?case using r(3) by simp
qed

lemma run_comparison_plain:
  assumes "run_comparison os bn s = Some (Inr (main_outcomes, mq_outcomes), s')"
  shows "list_all outcome_plain main_outcomes" "list_all outcome_plain mq_outcomes"
proof -
  obtain lf ll s1 s2 where r: "run_leader_follower_configs os bn s = Some (Inr lf, s1)"
    "run_leaderless_configs os bn s1 = Some (Inr ll, s2)" "run_mq_configs os bn s2 = Some (Inr mq_outcomes, s')"
    "main_outcomes = lf @ ll"
    using assms by (auto simp: run_comparison_def h_return_def elim!: h_bind_InrE)
  have "list_all outcome_plain lf"
    by (rule h_map_all [OF _ r(1) [unfolded run_leader_follower_configs_def]])
      (auto intro!: run_config_plain simp: lf_label_def)
  moreover have "list_all outcome_plain ll"
    by (rule h_map_all [OF _ r(2) [unfolded run_leaderless_configs_def]])
      (auto intro!: run_config_plain simp: LEADERLESS_WR_SWEEP_def)
  ultimately show "list_all outcome_plain main_outcomes" using r(4) by simp
  obtain config where "h_map (\<lambda>num_workers. run_config os ''message-queue'' (mq_label num_workers)
      (mq_config_body os bn config num_workers)) MQ_WORKER_SWEEP s2 = Some (Inr mq_outcomes, s')"
    using r(3) by (auto simp: run_mq_configs_def split: sum.splits)
  then show "list_all outcome_plain mq_outcomes"
    by (rule h_map_all [rotated]) (auto intro!: run_config_plain simp: mq_label_def)
qed

text \<open>What the two writers leave in a document made of sections.\<close>

lemma markers_plain [simp]:
  "plain_marker ''header''" "plain_marker ''main-sweep''" "plain_marker ''mq-sweep''"
  by (simp_all add: plain_marker_def marker_ok_def newline_def)

definition write_report :: "string \<Rightarrow> string \<Rightarrow> (string \<times> string) list \<Rightarrow> (string \<times> string) list" where
  "write_report m text xs = AList.update m (py_strip text) (AList.update ''header'' (py_strip RESULTS_HEADER) xs)"

lemma write_report_doc:
  assumes "plain_marker m" "sections_ok xs" "plain_content text"
  shows "replace_section (replace_section (doc_text xs) RESULTS_HEADER_MARKER RESULTS_HEADER) m text =
      doc_text (write_report m text xs)"
    and "sections_ok (write_report m text xs)"
    and "map_of (write_report m text xs) =
      (map_of xs)(''header'' \<mapsto> py_strip RESULTS_HEADER, m \<mapsto> py_strip text)"
  using assms
  by (simp_all add: write_report_def RESULTS_HEADER_MARKER_def replace_section_doc sections_ok_update
      plain_content_no_lt plain_content_strip update_conv')

lemma comparison_main_document:
  assumes "sections_ok xs" "no_lt generated_at" "no_lt mq_generated_at" "\<And>e. no_comment (str_exn e)"
    "comparison_main os bn str_exn generated_at mq_generated_at (s, doc_text xs) = Some (Inr lines, (s', doc'))"
  obtains main_outcomes mq_outcomes ys where
    "run_comparison os bn s = Some (Inr (main_outcomes, mq_outcomes), s')"
    "lines = print_report str_exn main_outcomes @ print_mq_report str_exn mq_outcomes"
    "doc' = doc_text ys" "sections_ok ys"
    "map_of ys = (map_of xs)
       (''header'' \<mapsto> py_strip RESULTS_HEADER,
        ''main-sweep'' \<mapsto> py_strip (join_lines (main_sweep_lines str_exn generated_at main_outcomes)),
        ''mq-sweep'' \<mapsto> py_strip (join_lines (mq_sweep_lines str_exn mq_generated_at mq_outcomes)))"
proof -
  obtain main_outcomes mq_outcomes where run: "run_comparison os bn s = Some (Inr (main_outcomes, mq_outcomes), s')"
    "lines = print_report str_exn main_outcomes @ print_mq_report str_exn mq_outcomes"
    "doc' = write_mq_markdown_report str_exn mq_generated_at mq_outcomes
       (write_markdown_report str_exn generated_at main_outcomes (doc_text xs))"
    using assms(5)
    by (auto simp: comparison_main_def h_left_def h_do_def h_return_def elim!: h_bind_InrE)
  let ?t = "join_lines (main_sweep_lines str_exn generated_at main_outcomes)"
  let ?u = "join_lines (mq_sweep_lines str_exn mq_generated_at mq_outcomes)"
  let ?ys = "write_report ''main-sweep'' ?t xs"
  have lt: "plain_content ?t" "plain_content ?u"
    using plain_reports run_comparison_plain [OF run(1)] assms(2-4) by blast+
  note first = write_report_doc [OF markers_plain(2) assms(1) lt(1)]
  note second = write_report_doc [OF markers_plain(3) first(2) lt(2)]
  show thesis
  proof (rule that [OF run(1,2)])
    show "doc' = doc_text (write_report ''mq-sweep'' ?u ?ys)"
      unfolding run(3) write_mq_markdown_report_def write_markdown_report_def first(1) second(1) ..
    show "sections_ok (write_report ''mq-sweep'' ?u ?ys)" by (rule second(2))
    show "map_of (write_report ''mq-sweep'' ?u ?ys) = (map_of xs)
       (''header'' \<mapsto> py_strip RESULTS_HEADER, ''main-sweep'' \<mapsto> py_strip ?t, ''mq-sweep'' \<mapsto> py_strip ?u)"
      unfolding second(3) first(3) by (simp add: fun_upd_twist)
  qed
qed

section \<open>Properties\<close>

text \<open>
  C23. A complete run of the comparison changes its own sections of the results document only: afterwards
  \<open>main-sweep\<close> and \<open>mq-sweep\<close> read back as the reports of the outcomes of the three sweeps, \<open>header\<close> as
  the fixed header, and every section of another script reads as before. The document is again one
  made of sections, so the next script may write to it. This holds for a document made of sections, time
  stamps without \<open><\<close> and reasons of skipped configurations without \<open><!--\<close>.
\<close>

theorem comparison_writes_its_sections:
  assumes "sections_ok xs" "no_lt generated_at" "no_lt mq_generated_at" "\<And>e. no_comment (str_exn e)"
    "comparison_main os bn str_exn generated_at mq_generated_at (s, doc_text xs) = Some (Inr lines, (s', doc'))"
    "plain_marker m"
  shows "\<exists>main_outcomes mq_outcomes.
      run_comparison os bn s = Some (Inr (main_outcomes, mq_outcomes), s') \<and>
      read_section m doc' =
        (if m = ''mq-sweep'' then Some (py_strip (join_lines (mq_sweep_lines str_exn mq_generated_at mq_outcomes)))
         else if m = ''main-sweep'' then Some (py_strip (join_lines (main_sweep_lines str_exn generated_at main_outcomes)))
         else if m = ''header'' then Some (py_strip RESULTS_HEADER)
         else read_section m (doc_text xs)) \<and>
      (\<exists>ys. sections_ok ys \<and> doc' = doc_text ys)"
proof -
  obtain main_outcomes mq_outcomes ys where d:
    "run_comparison os bn s = Some (Inr (main_outcomes, mq_outcomes), s')" "doc' = doc_text ys" "sections_ok ys"
    "map_of ys = (map_of xs)
       (''header'' \<mapsto> py_strip RESULTS_HEADER,
        ''main-sweep'' \<mapsto> py_strip (join_lines (main_sweep_lines str_exn generated_at main_outcomes)),
        ''mq-sweep'' \<mapsto> py_strip (join_lines (mq_sweep_lines str_exn mq_generated_at mq_outcomes)))"
    by (rule comparison_main_document [OF assms(1-5)])
  note reads = read_section_doc [OF assms(6)]
  show ?thesis
    by (intro exI [of _ main_outcomes] exI [of _ mq_outcomes] exI [of _ ys] conjI d(1-3))
      (simp only: d(2,4) reads [OF d(3)] reads [OF assms(1)] fun_upd_apply)
qed

text \<open>A world in which no process can be started: every configuration is skipped.\<close>

definition no_processes_os :: "rat os" where
  "no_processes_os = demo_os\<lparr>os_popen := (\<lambda>m args w. (Inl (OtherErr ''OSError''), w))\<rparr>"

lemma no_processes_run:
  "\<exists>main_outcomes mq_outcomes.
     run_comparison no_processes_os demo_bench (demo_state 0) = Some (Inr (main_outcomes, mq_outcomes), demo_state 0)"
proof -
  note ev = run_config_def h_finally_def h_except_def h_bind_def h_return_def demo_bench_def reset_topic_h_def
    reset_topic_def demo_admin_def delete_and_wait_def ensure_topic_exists_def bind_call_def spawn_def
    no_processes_os_def demo_os_def stop_all_def is_exception_def demo_state_def Let_def
  have lf: "run_config no_processes_os strategy label (lf_config_body no_processes_os demo_bench a) (demo_state 0) =
      Some (Inr (Config_error \<lparr>ce_strategy = strategy, ce_label = label, ce_reason = OtherErr ''OSError''\<rparr>), demo_state 0)"
    for strategy label a
    by (simp add: ev lf_config_body_def lf_spawn_follower_def LEADER_FOLLOWER_FOLLOWER_PORTS_def)
  have ll: "run_config no_processes_os strategy label (ll_config_body no_processes_os demo_bench (l, w, r)) (demo_state 0) =
      Some (Inr (Config_error \<lparr>ce_strategy = strategy, ce_label = label, ce_reason = OtherErr ''OSError''\<rparr>), demo_state 0)"
    for strategy label l w r
    by (simp add: ev ll_config_body_def ll_spawn_node_def LEADERLESS_NODE_PORTS_def)
  have mq: "run_config no_processes_os strategy label (mq_config_body no_processes_os demo_bench
       \<lparr>mq_bootstrap_servers = ''b'', mq_topic = ''t'', mq_num_partitions = 4, mq_consumer_group_prefix = ''g''\<rparr> n)
       (demo_state 0) =
      Some (Inr (Config_error \<lparr>ce_strategy = strategy, ce_label = label, ce_reason = OtherErr ''OSError''\<rparr>), demo_state 0)"
    for strategy label n
    by (simp add: ev mq_config_body_def mq_spawn_follower_def FOLLOWER_PORTS_def)
  have "bn_mq_config demo_bench = Inr \<lparr>mq_bootstrap_servers = ''b'', mq_topic = ''t'', mq_num_partitions = 4,
       mq_consumer_group_prefix = ''g''\<rparr>"
    by (simp add: demo_bench_def)
  then show ?thesis
    by (simp add: run_comparison_def run_leader_follower_configs_def run_leaderless_configs_def run_mq_configs_def
        ACK_REQUIRED_SWEEP_def LEADERLESS_WR_SWEEP_def MQ_WORKER_SWEEP_def h_bind_def h_return_def lf ll mq)
qed

theorem comparison_writes_its_sections_witness:
  "\<exists>lines s' doc'. comparison_main no_processes_os demo_bench (\<lambda>e. ''<OSError: 2>'') ''2026-01-01'' ''2026-01-01''
      (demo_state 0, doc_text [(''mq-lag-demo'', ''kept'')]) = Some (Inr lines, (s', doc')) \<and>
    read_section ''mq-lag-demo'' doc' = Some ''kept''"
proof -
  obtain lines s' doc' where run: "comparison_main no_processes_os demo_bench (\<lambda>e. ''<OSError: 2>'') ''2026-01-01'' ''2026-01-01''
      (demo_state 0, doc_text [(''mq-lag-demo'', ''kept'')]) = Some (Inr lines, (s', doc'))"
    using no_processes_run by (auto simp: comparison_main_def h_bind_def h_left_def h_do_def h_return_def)
  have ok: "sections_ok [(''mq-lag-demo'', ''kept'')]" "plain_marker ''mq-lag-demo''"
    "read_section ''mq-lag-demo'' (doc_text [(''mq-lag-demo'', ''kept'')]) = Some ''kept''"
    "no_comment ''<OSError: 2>''"
    by code_simp+
  have "read_section ''mq-lag-demo'' doc' = Some ''kept''"
    using comparison_writes_its_sections [OF ok(1) _ _ ok(4) run ok(2)] ok(3) by (auto simp del: doc_text.simps)
  then show ?thesis using run by blast
qed

lemma results_and_errors: "length (results_of outcomes) + length (errors_of outcomes) = length outcomes"
  by (induction outcomes rule: results_of.induct) simp_all

text \<open>
  The ranking leaves nothing out and invents nothing: the rows are numbered from 1 without gaps, their
  staleness rates ascend, they are the successful outcomes as a multiset, those with the same rate in the
  order they were run, and together with the skipped ones they are as many as the outcomes.
\<close>

theorem report_ranks_every_result:
  "map fst (ranked_rows outcomes) = [1..<Suc (length (results_of outcomes))] \<and>
   sorted (map (cr_staleness_rate \<circ> snd) (ranked_rows outcomes)) \<and>
   mset (map snd (ranked_rows outcomes)) = mset (results_of outcomes) \<and>
   filter (\<lambda>r. cr_staleness_rate r = rate) (map snd (ranked_rows outcomes)) =
     filter (\<lambda>r. cr_staleness_rate r = rate) (results_of outcomes) \<and>
   length (ranked_rows outcomes) + length (errors_of outcomes) = length outcomes"
proof -
  have rows: "map snd (ranked_rows outcomes) = sort_key cr_staleness_rate (results_of outcomes)"
    by (simp add: ranked_rows_def)
  then have "sorted (map cr_staleness_rate (map snd (ranked_rows outcomes)))" by simp
  then have "sorted (map (cr_staleness_rate \<circ> snd) (ranked_rows outcomes))" by simp
  moreover have "map fst (ranked_rows outcomes) = [1..<Suc (length (results_of outcomes))]"
    by (simp add: ranked_rows_def)
  moreover have "length (ranked_rows outcomes) = length (results_of outcomes)"
    by (simp add: ranked_rows_def)
  ultimately show ?thesis
    using results_and_errors [of outcomes] unfolding rows by (simp add: sort_key_stable)
qed

text \<open>
  Results wait for the last sweep: where the configuration of the message queue cannot be read, the
  ten ranked configurations are run, all their processes are stopped, and then the comparison raises
  without writing a section or returning a line of either report.
\<close>

theorem mq_config_error_loses_reports:
  assumes "kill_ends os" "os_clock_ok os" "hs_live s = []" "bn_mq_config bn = Inl e"
    "\<And>w. lf_test bn w \<noteq> None" "\<And>w r wd. ll_test bn w r wd \<noteq> None"
  shows "\<exists>exc s'. comparison_main os bn str_exn generated_at mq_generated_at (s, doc) = Some (Inl exc, (s', doc)) \<and>
     hs_live s' = [] \<and> (exc = e \<or> \<not> is_exception exc)"
proof -
  obtain r s1 where lf: "run_leader_follower_configs os bn s = Some (r, s1)"
    "sweep_ended (map lf_label ACK_REQUIRED_SWEEP) r s1"
    using lf_sweep_total [OF assms(1,2,5,3)] by blast
  have live: "hs_live s1 = []" using lf(2) by (simp add: sweep_ended_def)
  obtain r' s2 where ll: "run_leaderless_configs os bn s1 = Some (r', s2)"
    "sweep_ended (map fst LEADERLESS_WR_SWEEP) r' s2"
    using ll_sweep_total [OF assms(1,2,6) live] by blast
  have "\<exists>exc s'. run_comparison os bn s = Some (Inl exc, s') \<and> hs_live s' = [] \<and> (exc = e \<or> \<not> is_exception exc)"
    using lf ll assms(4)
    by (cases r; cases r') (auto simp: run_comparison_def run_mq_configs_def h_bind_def sweep_ended_def)
  then show ?thesis by (auto simp: comparison_main_def h_bind_def h_left_def)
qed

definition no_mq_bench :: "rat bench" where
  "no_mq_bench = demo_bench\<lparr>bn_mq_config := Inl (KeyErr ''topic''),
     bn_discover := (\<lambda>w u. Httpx_failed Connect_error [])\<rparr>"

lemma no_mq_bench_ends: "lf_test no_mq_bench w \<noteq> None" "ll_test no_mq_bench x y w \<noteq> None" "mq_test no_mq_bench n w \<noteq> None"
proof -
  show "lf_test no_mq_bench w \<noteq> None" "ll_test no_mq_bench x y w \<noteq> None"
    by (simp_all add: lf_test_def ll_test_def lf_run_load_test_def ll_run_load_test_def demo_bench_def no_mq_bench_def)
  have discover: "discover_follower_node_ids (\<lambda>u. Httpx_failed Connect_error []) FOLLOWER_PORTS [] = Inl e \<Longrightarrow>
      mq_run_load_test g (\<lambda>u. Httpx_failed Connect_error []) n k seed t t' evs \<noteq> None" for e g k seed t t' evs
    by (auto simp: mq_run_load_test_def bind_exn_def split: sum.split)
  have "\<exists>e. discover_follower_node_ids (\<lambda>u. Httpx_failed Connect_error []) FOLLOWER_PORTS [] = Inl e"
    by (simp add: FOLLOWER_PORTS_def checked_body_def)
  then show "mq_test no_mq_bench n w \<noteq> None"
    using discover by (auto simp: mq_test_def no_mq_bench_def)
qed

theorem mq_config_error_loses_reports_witness:
  "\<exists>exc s'. comparison_main demo_os no_mq_bench (\<lambda>e. []) [] [] (demo_state 2, ''text'') = Some (Inl exc, (s', ''text'')) \<and>
     hs_live s' = [] \<and> (exc = KeyErr ''topic'' \<or> \<not> is_exception exc)"
  by (rule mq_config_error_loses_reports [OF demo_os_ok(2,1)])
    (use no_mq_bench_ends in \<open>simp_all add: demo_state_def no_mq_bench_def\<close>)

text \<open>
  C22. The comparison comes to an end, provided SIGKILL ends a process, the clocks are sane and each load test
  ends: either all thirteen configurations have an outcome, in order, and both sections are written; or it
  raises, because the configuration of the message queue cannot be read or the script was ended, and the
  document is as before. It leaves no process behind if the followers of the message queue can be started,
  whatever other process cannot.
\<close>

theorem comparison_ends:
  assumes "kill_ends os" "os_clock_ok os" "clock_laws (bn_admin bn)" "hs_live s = []"
    "\<And>w. lf_test bn w \<noteq> None" "\<And>w r wd. ll_test bn w r wd \<noteq> None" "\<And>n w. mq_test bn n w \<noteq> None"
  shows "\<exists>r s' doc'. comparison_main os bn str_exn generated_at mq_generated_at (s, doc) = Some (r, (s', doc')) \<and>
     (popen_works os ''message_queue.follower'' \<longrightarrow> hs_live s' = []) \<and>
     (case r of
        Inl exc \<Rightarrow> doc' = doc \<and> (bn_mq_config bn = Inl exc \<or> \<not> is_exception exc)
      | Inr lines \<Rightarrow>
          \<exists>main_outcomes mq_outcomes.
            doc' = write_mq_markdown_report str_exn mq_generated_at mq_outcomes
              (write_markdown_report str_exn generated_at main_outcomes doc) \<and>
            map outcome_label main_outcomes = map lf_label ACK_REQUIRED_SWEEP @ map fst LEADERLESS_WR_SWEEP \<and>
            map outcome_label mq_outcomes = map mq_label MQ_WORKER_SWEEP)"
proof -
  obtain r1 s1 where lf: "run_leader_follower_configs os bn s = Some (r1, s1)"
    "sweep_ended (map lf_label ACK_REQUIRED_SWEEP) r1 s1"
    using lf_sweep_total [OF assms(1,2,5,4)] by blast
  then have live1: "hs_live s1 = []" by (simp add: sweep_ended_def)
  obtain r2 s2 where ll: "run_leaderless_configs os bn s1 = Some (r2, s2)"
    "sweep_ended (map fst LEADERLESS_WR_SWEEP) r2 s2"
    using ll_sweep_total [OF assms(1,2,6) live1] by blast
  then have live2: "hs_live s2 = []" by (simp add: sweep_ended_def)
  obtain r3 s3 where mq: "run_mq_configs os bn s2 = Some (r3, s3)"
    "popen_works os ''message_queue.follower'' \<longrightarrow> hs_live s3 = []"
    "case bn_mq_config bn of Inl e \<Rightarrow> r3 = Inl e | Inr config \<Rightarrow> sweep_labelled (map mq_label MQ_WORKER_SWEEP) r3"
    using mq_sweep_total [OF assms(1-3,7) live2] by blast
  note ev = comparison_main_def run_comparison_def h_bind_def h_left_def h_do_def h_return_def sweep_ended_def
    sweep_labelled_def
  show ?thesis
  proof (cases "\<exists>a b c. r1 = Inr a \<and> r2 = Inr b \<and> r3 = Inr c")
    case True
    then obtain a b c where r: "r1 = Inr a" "r2 = Inr b" "r3 = Inr c" by blast
    have labels: "map outcome_label a = map lf_label ACK_REQUIRED_SWEEP"
      "map outcome_label b = map fst LEADERLESS_WR_SWEEP" "map outcome_label c = map mq_label MQ_WORKER_SWEEP"
      using lf(2) ll(2) mq(3) r by (auto simp: sweep_ended_def sweep_labelled_def split: sum.splits)
    have "comparison_main os bn str_exn generated_at mq_generated_at (s, doc) =
      Some (Inr (print_report str_exn (a @ b) @ print_mq_report str_exn c), (s3,
        write_mq_markdown_report str_exn mq_generated_at c
          (write_markdown_report str_exn generated_at (a @ b) doc)))"
      using lf(1) ll(1) mq(1) r by (simp add: ev)
    then show ?thesis
      by (intro exI conjI) (assumption, rule mq(2), simp only: sum.case, rule exI [of _ "a @ b"], rule exI [of _ c], simp add: labels)
  next
    case False
    then show ?thesis
      using lf ll mq by (cases r1; cases r2; cases r3; cases "bn_mq_config bn") (auto simp: ev)
  qed
qed

theorem comparison_ends_witness:
  "\<exists>r s' doc'. comparison_main demo_os no_mq_bench (\<lambda>e. []) [] [] (demo_state 2, ''text'') = Some (r, (s', doc')) \<and>
     hs_live s' = []"
proof -
  have "popen_works demo_os m" "clock_laws (bn_admin no_mq_bench)" for m
    by (simp_all add: popen_works_def demo_os_def clock_laws_def no_mq_bench_def demo_bench_def demo_admin_def)
  moreover have "hs_live (demo_state 2) = []" by (simp add: demo_state_def)
  ultimately show ?thesis
    using comparison_ends [OF demo_os_ok(2,1) _ _ no_mq_bench_ends] by blast
qed

end
