(* ===== verification/KV_Summary.thy ===== *)
theory KV_Summary
  imports KV_Report
begin

text \<open>
  What a load test leaves behind: the two JSON-lines logs and the printed summary of
  \<open>experiments/_load_test_common.py\<close>, and the end of \<open>run_load_test\<close> that writes them. A text is the list of
  its lines. \<open>dumps\<close> is \<open>json.dumps\<close> of an event.
\<close>

section \<open>The logs\<close>

text \<open>\<open>open(path, "w")\<close> replaces the file; each event is a line.\<close>

definition write_jsonl :: "('e \<Rightarrow> string) \<Rightarrow> string \<Rightarrow> 'e list \<Rightarrow> (string \<Rightarrow> string option) \<Rightarrow> string \<Rightarrow> string option" where
  "write_jsonl dumps path events files = files(path \<mapsto> concat (map (\<lambda>e. dumps e @ [newline]) events))"

section \<open>The failures\<close>

fun operation_text :: "operation \<Rightarrow> string" where
  "operation_text Read_op = ''read''"
| "operation_text Write_op = ''write''"

fun failure_type_text :: "failure_type \<Rightarrow> string" where
  "failure_type_text Timeout_failure = ''timeout''"
| "failure_type_text Connection_error = ''connection_error''"
| "failure_type_text Other_error = ''other_error''"
| "failure_type_text Non_2xx = ''non_2xx''"

text \<open>
  \<open>sorted(stats.failure_counts.items())\<close>: the keys in the order of their texts. The counter holds the keys
  that were counted.
\<close>

definition failure_keys :: "(operation \<times> failure_type) list" where
  "failure_keys = List.product [Read_op, Write_op] [Connection_error, Non_2xx, Other_error, Timeout_failure]"

definition failure_rows :: "stats \<Rightarrow> ((operation \<times> failure_type) \<times> int) list" where
  "failure_rows s = map (\<lambda>k. (k, failure_counts s k)) (filter (\<lambda>k. failure_counts s k \<noteq> 0) failure_keys)"

text \<open>The status codes of the non-2xx failures, which all carry one, with their numbers, in order.\<close>

definition status_codes :: "stats \<Rightarrow> (int \<times> int) list" where
  "status_codes s =
     (let codes = List.map_filter fe_status_code (filter (\<lambda>e. fe_failure_type e = Non_2xx) (failure_events s))
      in map (\<lambda>c. (c, int (count_list codes c))) (sort (remdups codes)))"

fun join_comma :: "string list \<Rightarrow> string" where
  "join_comma [] = []"
| "join_comma [x] = x"
| "join_comma (x # y # xs) = x @ '', '' @ join_comma (y # xs)"

definition dict_text :: "(int \<times> int) list \<Rightarrow> string" where
  "dict_text items =
     ''{'' @ join_comma (map (\<lambda>(k, v). py_str_of_int k @ '': '' @ py_str_of_int v) items) @ ''}''"

definition print_failure_section :: "stats \<Rightarrow> string list" where
  "print_failure_section s =
     (let failures = total_failures s;
          border = replicate 60 (if failures \<noteq> 0 then CHR ''!'' else CHR ''='')
      in [[], border,
          ''  FAILED REQUESTS: '' @ py_str_of_int failures @ ''  (reads: '' @ py_str_of_int (failed_reads s) @
            '', writes: '' @ py_str_of_int (failed_writes s) @ '')''] @
         (if failures \<noteq> 0
          then [border] @
            map (\<lambda>((op, ft), n). ''    '' @ ljust 6 (operation_text op) @ '' '' @ ljust 17 (failure_type_text ft) @ '' '' @
              py_str_of_int n) (failure_rows s) @
            (if status_codes s = [] then []
             else [''    non-2xx status codes seen: '' @ dict_text (status_codes s)])
          else []) @
         [border])"

section \<open>The summary\<close>

text \<open>
  The gaps of the stale reads, \<open>None\<close> where one is not finite: their statistics are in exact arithmetic, which
  an infinite or undefined gap has no part in.
\<close>

fun finite_gap :: "pyfloat \<Rightarrow> rat option" where
  "finite_gap (Fin q) = Some q"
| "finite_gap x = None"

fun finite_gaps :: "stale_event list \<Rightarrow> rat list option" where
  "finite_gaps [] = Some []"
| "finite_gaps (e # es) =
     (case finite_gap (se_gap_ms e) of
        None \<Rightarrow> None
      | Some q \<Rightarrow> map_option (\<lambda>qs. q # qs) (finite_gaps es))"

definition mean :: "rat list \<Rightarrow> rat" where
  "mean qs = sum_list qs / of_nat (length qs)"

definition gap_lines :: "rat list \<Rightarrow> string list" where
  "gap_lines gaps =
     (if gaps \<noteq> [] then
        [[], ''staleness gap (ms), stale reads only:'',
         ''  min:  '' @ fmt_fixed 2 (Fin (Min (set gaps))), ''  max:  '' @ fmt_fixed 2 (Fin (Max (set gaps))),
         ''  mean: '' @ fmt_fixed 2 (Fin (mean gaps)), ''  p95:  '' @ fmt_fixed 2 (Fin (percentile gaps 95))]
      else [[], ''no stale reads observed.''])"

definition print_summary :: "stats \<Rightarrow> pyfloat \<Rightarrow> string \<Rightarrow> string \<Rightarrow> string \<Rightarrow> string list option" where
  "print_summary s elapsed output_log_path failure_log_path title =
     map_option (\<lambda>gaps.
       [[], ''=== '' @ title @ '' ==='', ''elapsed:              '' @ fmt_fixed 2 elapsed @ ''s'',
        ''total requests sent:  '' @ py_str_of_int (total_requests s),
        ''total reads:          '' @ py_str_of_int (total_reads s),
        ''total writes:         '' @ py_str_of_int (total_writes s)] @
       print_failure_section s @
       [[], ''comparable reads:     '' @ py_str_of_int (comparable_reads s) @ ''  '' @
          ''(reads with a source-of-truth entry to check against; failed reads excluded)'',
        ''stale reads observed: '' @ py_str_of_int (stale_reads s),
        ''staleness rate:       '' @ fmt_fixed 2 (Fin (staleness_rate s)) @ ''%  (stale / comparable reads)''] @
       gap_lines gaps @
       [[], ''raw stale-read log written to '' @ output_log_path,
        ''raw failure log written to '' @ failure_log_path]) (finite_gaps (stale_events s))"

text \<open>The end of \<open>run_load_test\<close>: the logs first, then the summary, each on its switch.\<close>

definition finish_run ::
    "(stale_event \<Rightarrow> string) \<Rightarrow> (failure_event \<Rightarrow> string) \<Rightarrow> bool \<Rightarrow> bool \<Rightarrow> string \<Rightarrow> string \<Rightarrow> string \<Rightarrow>
     load_test_result \<Rightarrow> (string \<Rightarrow> string option) \<Rightarrow> (string \<Rightarrow> string option) \<times> string list option" where
  "finish_run dumps_stale dumps_failure write_logs verbose output_log_path failure_log_path title result files =
     (let s = ltr_stats result
      in (if write_logs
          then write_jsonl dumps_failure failure_log_path (failure_events s)
            (write_jsonl dumps_stale output_log_path (stale_events s) files)
          else files,
          if verbose then print_summary s (ltr_elapsed result) output_log_path failure_log_path title else Some []))"

section \<open>Lemmas\<close>

lemma failures_of_operation:
  "length (filter (\<lambda>e. fe_operation e = op) es) =
     (\<Sum>ft\<leftarrow>[Connection_error, Non_2xx, Other_error, Timeout_failure].
        length (filter (\<lambda>e. fe_operation e = op \<and> fe_failure_type e = ft) es))"
proof (induction es)
  case (Cons e es)
  then show ?case by (cases "fe_failure_type e") simp_all
qed simp

lemma sum_nonzero: "(\<Sum>k\<leftarrow>filter (\<lambda>k. f k \<noteq> (0 :: int)) ks. f k) = (\<Sum>k\<leftarrow>ks. f k)"
  by (induction ks) simp_all

text \<open>The rows of the failure section add up to the total above them.\<close>

lemma failure_rows_add_up:
  assumes "stats_consistent s"
  shows "(\<Sum>row\<leftarrow>failure_rows s. snd row) = total_failures s"
proof -
  have "(\<Sum>row\<leftarrow>failure_rows s. snd row) = (\<Sum>k\<leftarrow>failure_keys. failure_counts s k)"
    by (simp add: failure_rows_def comp_def sum_nonzero)
  then show ?thesis
    using assms failures_of_operation [of Read_op "failure_events s"] failures_of_operation [of Write_op "failure_events s"]
    by (simp add: stats_consistent_def total_failures_def failure_keys_def)
qed

text \<open>The statistics of the gaps lie between the least and the greatest one.\<close>

lemma mean_bounds: "gaps \<noteq> [] \<Longrightarrow> Min (set gaps) \<le> mean gaps \<and> mean gaps \<le> Max (set gaps)"
proof
  assume nonempty: "gaps \<noteq> []"
  then have pos: "0 < (of_nat (length gaps) :: rat)" by simp
  have "of_nat (length gaps) * Min (set gaps) = (\<Sum>q\<leftarrow>gaps. Min (set gaps))" by (simp add: sum_list_triv)
  also have "\<dots> \<le> (\<Sum>q\<leftarrow>gaps. q)" by (rule sum_list_mono) simp
  finally show "Min (set gaps) \<le> mean gaps" using pos by (simp add: mean_def field_simps)
  have "(\<Sum>q\<leftarrow>gaps. q) \<le> (\<Sum>q\<leftarrow>gaps. Max (set gaps))" by (rule sum_list_mono) simp
  also have "\<dots> = of_nat (length gaps) * Max (set gaps)" by (simp add: sum_list_triv)
  finally show "mean gaps \<le> Max (set gaps)" using pos by (simp add: mean_def field_simps)
qed

end
