(* ===== verification/KV_Demos.thy ===== *)
theory KV_Demos
  imports KV_Report
begin

text \<open>
  The two demonstrations with injected faults: \<open>experiments/leaderless_boundary_case_demo.py\<close> and
  \<open>experiments/mq_lag_demo.py\<close>, with the checks of their arguments, the section each writes and their
  \<open>main\<close>. They use the processes of \<open>KV_Harness\<close> but catch a \<open>NodeStartupError\<close> only.
\<close>

section \<open>Arguments\<close>

record demo_args =
  da_delay_ms :: pyfloat
  da_delayed_count :: int
  da_workers :: int

definition DEFAULT_DELAY_MS :: pyfloat where "DEFAULT_DELAY_MS = Fin 800"
definition DEFAULT_DELAYED_NODE_COUNT :: int where "DEFAULT_DELAYED_NODE_COUNT = 4"
definition MQ_DEFAULT_DELAY_MS :: pyfloat where "MQ_DEFAULT_DELAY_MS = Fin 500"
definition DEFAULT_DELAYED_FOLLOWER_COUNT :: int where "DEFAULT_DELAYED_FOLLOWER_COUNT = 2"
definition DEFAULT_WORKERS :: int where "DEFAULT_WORKERS = 5"

text \<open>
  \<open>_parse_args\<close> from the parsed flags on, a flag that is not given being \<open>None\<close>; \<open>parser.error\<close> raises
  SystemExit. The boundary-case demo has no \<open>--workers\<close>.
\<close>

definition default_to :: "'a \<Rightarrow> 'a option \<Rightarrow> 'a" where
  "default_to d x = (case x of None \<Rightarrow> d | Some y \<Rightarrow> y)"

definition boundary_parse_args :: "pyfloat option \<Rightarrow> int option \<Rightarrow> exn + demo_args" where
  "boundary_parse_args delay_ms delayed_node_count =
     (let args = \<lparr>da_delay_ms = default_to DEFAULT_DELAY_MS delay_ms,
            da_delayed_count = default_to DEFAULT_DELAYED_NODE_COUNT delayed_node_count, da_workers = 0\<rparr>
      in if flt (da_delay_ms args) (Fin 0) then Inl (SystemExitErr ''--delay-ms must be >= 0'')
         else if \<not> (0 \<le> da_delayed_count args \<and> da_delayed_count args \<le> int (length LEADERLESS_NODE_PORTS))
         then Inl (SystemExitErr ''--delayed-node-count must be between 0 and 5'')
         else Inr args)"

definition lag_parse_args :: "pyfloat option \<Rightarrow> int option \<Rightarrow> int option \<Rightarrow> exn + demo_args" where
  "lag_parse_args delay_ms delayed_follower_count workers =
     (let args = \<lparr>da_delay_ms = default_to MQ_DEFAULT_DELAY_MS delay_ms,
            da_delayed_count = default_to DEFAULT_DELAYED_FOLLOWER_COUNT delayed_follower_count,
            da_workers = default_to DEFAULT_WORKERS workers\<rparr>
      in if flt (da_delay_ms args) (Fin 0) then Inl (SystemExitErr ''--delay-ms must be >= 0'')
         else if \<not> (0 \<le> da_delayed_count args \<and> da_delayed_count args \<le> int (length FOLLOWER_PORTS))
         then Inl (SystemExitErr ''--delayed-follower-count must be between 0 and 4'')
         else Inr args)"

section \<open>The sections they write\<close>

text \<open>\<open>fmt_g\<close> is Python's \<open>:g\<close> format of a float.\<close>

definition result_table :: "load_test_result \<Rightarrow> string list" where
  "result_table result =
     (let stats = ltr_stats result
      in [''| Staleness rate | Comparable reads | Stale reads | Failures | Elapsed | Total requests |'',
          ''|---|---|---|---|---|---|'',
          table_row [fmt_fixed 2 (Fin (staleness_rate stats)) @ ''%'', py_str_of_int (comparable_reads stats),
            py_str_of_int (stale_reads stats), py_str_of_int (total_failures stats),
            fmt_fixed 1 (ltr_elapsed result) @ ''s'', py_str_of_int (total_requests stats)]])"

definition boundary_section_lines ::
    "(pyfloat \<Rightarrow> string) \<Rightarrow> string \<Rightarrow> demo_args \<Rightarrow> load_test_result \<Rightarrow> string list" where
  "boundary_section_lines fmt_g generated_at args result =
     (let delay = fmt_g (da_delay_ms args); count = py_str_of_int (da_delayed_count args)
      in [''## Demonstrating the W+R boundary case'', [],
          ''Generated by `experiments/leaderless_boundary_case_demo.py` on '' @ generated_at @ '', '' @
          ''against `W=2,R=3` with `--delay-ms '' @ delay @ '' '' @
          ''--delayed-node-count '' @ count @ ''` ('' @ count @ '' of '' @
          py_str_of_int (int (length LEADERLESS_NODE_PORTS)) @ '' nodes fault-injected with a '' @ delay @ ''ms '' @
    ''replicate delay each). See the top-level `README.md`'s \"Results\" section for what this ''
    @ ''demonstrates and why, and this script's own module docstring for the exploration that led ''
    @ ''to these default parameters.'',
          []] @
         result_table result @
         [[], ''Raw stale-read/failure JSONL logs: `experiments/output/leaderless_boundary_case_demo/`.''])"

definition lag_section_lines ::
    "(pyfloat \<Rightarrow> string) \<Rightarrow> string \<Rightarrow> demo_args \<Rightarrow> load_test_result \<Rightarrow> (int \<times> int) list \<Rightarrow> int list \<Rightarrow> string list" where
  "lag_section_lines fmt_g generated_at args result per_follower_lag delayed_ports =
     (let delay = fmt_g (da_delay_ms args); count = py_str_of_int (da_delayed_count args)
      in [''## Demonstrating message-queue consumer lag'', [],
          ''Generated by `experiments/mq_lag_demo.py` on '' @ generated_at @ '', at '' @
          ''`--workers '' @ py_str_of_int (da_workers args) @ ''` with `--delay-ms '' @ delay @ '' '' @
          ''--delayed-follower-count '' @ count @ ''` ('' @ count @ '' of '' @
          py_str_of_int (int (length FOLLOWER_PORTS)) @ '' followers fault-injected with a '' @ delay @ ''ms '' @
    ''consume delay each). See the top-level `README.md`'s \"Results\" section for what this ''
    @ ''demonstrates and why, and this script's own module docstring for why this configuration ''
    @ ''was chosen.'',
          []] @
         result_table result @
         [[],
    ''Final consumer lag per follower, queried immediately after the load test finished ''
    @ ''(delayed followers are still working through their backlog at this point; undelayed ones ''
    @ ''have typically already drained theirs):'',
          [], ''| Follower | Delayed? | Final lag |'', ''|---|---|---|''] @
         map (\<lambda>(port, lag). table_row [''`'' @ FOLLOWER_HOST @ '':'' @ py_str_of_int port @ ''`'',
             if port \<in> set delayed_ports then ''yes'' else ''no'', py_str_of_int lag]) per_follower_lag @
         [[], ''Raw stale-read/failure JSONL logs: `experiments/output/mq_lag_demo/`.''])"

definition write_demo_section :: "string \<Rightarrow> string list \<Rightarrow> string \<Rightarrow> string" where
  "write_demo_section marker lines doc =
     replace_section (replace_section doc RESULTS_HEADER_MARKER RESULTS_HEADER) marker (join_lines lines)"

section \<open>The boundary-case demo\<close>

text \<open>
  The frame of both: \<open>nodes = []\<close>, the body, a message for a \<open>NodeStartupError\<close>, which is the result
  here, and \<open>_stop_all(nodes)\<close>. A result of \<open>None\<close> is a run that wrote its section.
\<close>

definition is_startup_error :: "exn \<Rightarrow> bool" where
  "is_startup_error e \<longleftrightarrow> (case e of NodeStartupErr l \<Rightarrow> True | _ \<Rightarrow> False)"

definition run_demo ::
    "'b os \<Rightarrow> ('b hstate \<times> string, unit) comp \<Rightarrow> ('b hstate \<times> string, exn option) comp" where
  "run_demo os body sd =
     h_finally
       (h_except (h_bind body (\<lambda>_. h_return None))
         (\<lambda>exc. if is_startup_error exc then h_return (Some exc) else h_raise exc))
       (h_left (\<lambda>s. stop_all os (hs_nodes s) s))
       (apfst (\<lambda>s. s\<lparr>hs_nodes := []\<rparr>) sd)"

text \<open>\<open>str_float\<close> is Python's \<open>str\<close> of a float.\<close>

definition boundary_node_argv :: "(pyfloat \<Rightarrow> string) \<Rightarrow> demo_args \<Rightarrow> nat \<Rightarrow> int \<Rightarrow> string list" where
  "boundary_node_argv str_float args i port =
     [''--node-id'', ''node'' @ num i, ''--port'', py_str_of_int port] @
     (if int i \<le> da_delayed_count args then [''--fault-inject-delay-ms'', str_float (da_delay_ms args)] else [])"

definition boundary_spawn_node :: "'b os \<Rightarrow> (pyfloat \<Rightarrow> string) \<Rightarrow> demo_args \<Rightarrow> nat \<times> int \<Rightarrow> ('b, unit) hcomp" where
  "boundary_spawn_node os str_float args = (\<lambda>(i, port).
     h_bind (spawn os ''leaderless.node'' (boundary_node_argv str_float args i port)
         (''boundary_demo_node'' @ num i) LEADERLESS_HOST port)
       add_node)"

definition boundary_run :: "'b os \<Rightarrow> 'b bench \<Rightarrow> (pyfloat \<Rightarrow> string) \<Rightarrow> demo_args \<Rightarrow> ('b, load_test_result) hcomp" where
  "boundary_run os bn str_float args =
     h_bind (h_iter (boundary_spawn_node os str_float args) (enumerate 1 LEADERLESS_NODE_PORTS)) (\<lambda>_.
     h_bind (\<lambda>s. wait_for_all_healthy os (hs_nodes s) s) (\<lambda>_.
       on_test bn (ll_test bn 2 3)))"

definition boundary_demo_main ::
    "'b os \<Rightarrow> 'b bench \<Rightarrow> (pyfloat \<Rightarrow> string) \<Rightarrow> (pyfloat \<Rightarrow> string) \<Rightarrow> string \<Rightarrow> demo_args \<Rightarrow>
     ('b hstate \<times> string, exn option) comp" where
  "boundary_demo_main os bn str_float fmt_g generated_at args =
     run_demo os
       (h_bind (h_left (boundary_run os bn str_float args)) (\<lambda>result.
          h_do (apsnd (write_demo_section ''boundary-case-demo''
            (boundary_section_lines fmt_g generated_at args result)))))"

section \<open>The lag demo\<close>

text \<open>\<open>lag_of\<close> is the GET of a follower's \<open>/internal/lag\<close> with the \<open>total_lag\<close> of its body.\<close>

definition query_final_lag ::
    "(string \<Rightarrow> 'b \<Rightarrow> int http_outcome \<times> 'b) \<Rightarrow> int \<Rightarrow> ('b, int) hcomp" where
  "query_final_lag lag_of port s =
     (let (outcome, w) = lag_of (''http://'' @ FOLLOWER_HOST @ '':'' @ py_str_of_int port @ ''/internal/lag'') (hs_world s)
      in Some (checked_body outcome, s\<lparr>hs_world := w\<rparr>))"

definition lag_follower_argv :: "(pyfloat \<Rightarrow> string) \<Rightarrow> demo_args \<Rightarrow> int list \<Rightarrow> nat \<Rightarrow> int \<Rightarrow> string list" where
  "lag_follower_argv str_float args delayed_ports i port =
     [''--node-id'', ''follower'' @ num i @ ''_lagdemo'', ''--port'', py_str_of_int port] @
     (if port \<in> set delayed_ports then [''--fault-inject-consume-delay-ms'', str_float (da_delay_ms args)] else [])"

definition lag_spawn_follower ::
    "'b os \<Rightarrow> (pyfloat \<Rightarrow> string) \<Rightarrow> demo_args \<Rightarrow> int list \<Rightarrow> nat \<times> int \<Rightarrow> ('b, spawned_node) hcomp" where
  "lag_spawn_follower os str_float args delayed_ports = (\<lambda>(i, port).
     spawn os ''message_queue.follower'' (lag_follower_argv str_float args delayed_ports i port)
       (''lagdemo_follower'' @ num i) FOLLOWER_HOST port)"

definition lag_delayed_ports :: "demo_args \<Rightarrow> int list" where
  "lag_delayed_ports args = take (nat (da_delayed_count args)) FOLLOWER_PORTS"

definition lag_run ::
    "'b os \<Rightarrow> 'b bench \<Rightarrow> (pyfloat \<Rightarrow> string) \<Rightarrow> (string \<Rightarrow> 'b \<Rightarrow> int http_outcome \<times> 'b) \<Rightarrow> mq_config \<Rightarrow> demo_args \<Rightarrow>
     ('b, load_test_result \<times> (int \<times> int) list) hcomp" where
  "lag_run os bn str_float lag_of config args =
     h_bind (reset_topic_h bn config) (\<lambda>_.
     h_bind (h_map (lag_spawn_follower os str_float args (lag_delayed_ports args)) (enumerate 1 FOLLOWER_PORTS))
       (\<lambda>followers.
     h_bind (add_nodes followers) (\<lambda>_.
     h_bind (wait_for_all_healthy os followers) (\<lambda>_.
     h_bind (wait_for_mq_followers_assigned os followers) (\<lambda>_.
     h_bind (spawn os ''message_queue.producer''
         [''--node-id'', ''producer_lagdemo'', ''--port'', py_str_of_int PRODUCER_PORT]
         ''lagdemo_producer'' FOLLOWER_HOST PRODUCER_PORT) (\<lambda>producer.
     h_bind (add_node producer) (\<lambda>_.
     h_bind (wait_for_all_healthy os [producer]) (\<lambda>_.
     h_bind (on_test bn (mq_test bn (da_workers args))) (\<lambda>result.
     h_bind (h_map (query_final_lag lag_of) FOLLOWER_PORTS) (\<lambda>lags.
       h_return (result, zip FOLLOWER_PORTS lags)))))))))))"

definition lag_demo_main ::
    "'b os \<Rightarrow> 'b bench \<Rightarrow> (pyfloat \<Rightarrow> string) \<Rightarrow> (pyfloat \<Rightarrow> string) \<Rightarrow> (string \<Rightarrow> 'b \<Rightarrow> int http_outcome \<times> 'b) \<Rightarrow>
     string \<Rightarrow> demo_args \<Rightarrow> ('b hstate \<times> string, exn option) comp" where
  "lag_demo_main os bn str_float fmt_g lag_of generated_at args =
     h_bind (h_lift (bn_mq_config bn)) (\<lambda>config.
       run_demo os
         (h_bind (h_left (lag_run os bn str_float lag_of config args)) (\<lambda>(result, per_follower_lag).
            h_do (apsnd (write_demo_section ''mq-lag-demo''
              (lag_section_lines fmt_g generated_at args result per_follower_lag (lag_delayed_ports args)))))))"

section \<open>Lemmas: how a demo ends\<close>

lemma startup_is_exception: "is_startup_error e \<Longrightarrow> is_exception e"
  by (auto simp: is_startup_error_def is_exception_def split: exn.splits)

text \<open>
  A demo that keeps its processes in \<open>nodes\<close>: it ends without a process, and its section was written
  exactly when it reports no skip and no exception.
\<close>

definition demo_ended :: "('x \<Rightarrow> string \<Rightarrow> string) \<Rightarrow> string \<Rightarrow> exn + exn option \<Rightarrow> 'b hstate \<times> string \<Rightarrow> bool" where
  "demo_ended write_section doc r sd \<longleftrightarrow>
     hs_live (fst sd) = [] \<and>
     (case r of
        Inl e \<Rightarrow> \<not> is_startup_error e \<and> snd sd = doc
      | Inr skipped \<Rightarrow>
          (case skipped of
             None \<Rightarrow> \<exists>x. snd sd = write_section x doc
           | Some e \<Rightarrow> is_startup_error e \<and> snd sd = doc))"

lemma run_demo_ends:
  assumes "kill_ends os" "keeps tracked m" "ends m" "hs_live s = []"
  shows "\<exists>r sd. run_demo os (h_bind (h_left m) (\<lambda>x. h_do (apsnd (write_section x)))) (s, doc) = Some (r, sd) \<and>
    demo_ended write_section doc r sd"
proof -
  obtain q s1 where m: "m (s\<lparr>hs_nodes := []\<rparr>) = Some (q, s1)"
    using assms(3) unfolding ends_def by fastforce
  have "tracked (s\<lparr>hs_nodes := []\<rparr>)" using assms(4) by (simp add: tracked_def)
  then have t: "tracked s1" using keepsD [OF assms(2)] m by blast
  obtain s2 where s2: "stop_all os (hs_nodes s1) s1 = Some (Inr (), s2)"
    "hs_live s2 = filter (\<lambda>p. p \<notin> sn_proc ` set (hs_nodes s1)) (hs_live s1)"
    using stop_all_ends [OF assms(1)] by blast
  have live: "hs_live s2 = []" using t unfolding s2(2) by (auto simp: tracked_def filter_empty_conv)
  note ev = run_demo_def h_finally_def h_except_def h_bind_def h_left_def h_do_def h_return_def h_raise_def
    demo_ended_def m s2(1) live
  show ?thesis
  proof (cases q)
    case (Inl e)
    then show ?thesis
      using startup_is_exception [of e] by (cases "is_exception e"; cases "is_startup_error e") (simp_all add: ev)
  next
    case (Inr x)
    then show ?thesis by (auto simp: ev)
  qed
qed

lemma tracked_boundary_run: "keeps tracked (boundary_run os bn str_float args)"
  unfolding boundary_run_def boundary_spawn_node_def by (auto intro!: keeps_rules split: prod.splits)

lemma ends_boundary_run:
  assumes "os_clock_ok os" "\<And>wd. ll_test bn 2 3 wd \<noteq> None"
  shows "ends (boundary_run os bn str_float args)"
  unfolding boundary_run_def boundary_spawn_node_def
  using assms by (auto intro!: ends_rules split: prod.splits)

lemma tracked_query [keeps_rules]: "keeps tracked (query_final_lag lag_of port)"
  by (auto simp: keeps_def query_final_lag_def tracked_def split: prod.splits)

lemma ends_query [ends_rules]: "ends (query_final_lag lag_of port)"
  by (auto simp: ends_def query_final_lag_def split: prod.splits)

lemma keeps_map [keeps_rules]: "(\<And>x. keeps P (f x)) \<Longrightarrow> keeps P (h_map f xs)"
  by (induction xs) (simp_all add: keeps_rules)

lemma tracked_lag_run:
  assumes "popen_works os ''message_queue.follower''"
  shows "keeps tracked (lag_run os bn str_float lag_of config args)"
  unfolding lag_run_def lag_spawn_follower_def case_prod_beta
  by (intro keeps_rules tracked_spawn_all assms)

lemma ends_lag_run:
  assumes "os_clock_ok os" "clock_laws (bn_admin bn)" "\<And>n w. mq_test bn n w \<noteq> None"
  shows "ends (lag_run os bn str_float lag_of config args)"
  unfolding lag_run_def lag_spawn_follower_def case_prod_beta
  by (intro ends_rules assms)

section \<open>Properties\<close>

text \<open>
  C25. The boundary-case demo cleans up after itself on every path: given that SIGKILL ends a process, a sane
  clock and a load test that ends, it ends with none of its processes left; its section of the results
  document is written exactly when it neither was skipped for a \<open>NodeStartupError\<close> nor raised, and the
  document is untouched otherwise.
\<close>

theorem boundary_demo_cleans_up:
  assumes "kill_ends os" "os_clock_ok os" "hs_live s = []" "\<And>wd. ll_test bn 2 3 wd \<noteq> None"
  shows "\<exists>r sd. boundary_demo_main os bn str_float fmt_g generated_at args (s, doc) = Some (r, sd) \<and>
    demo_ended (\<lambda>result. write_demo_section ''boundary-case-demo''
      (boundary_section_lines fmt_g generated_at args result)) doc r sd"
  unfolding boundary_demo_main_def
  by (rule run_demo_ends [OF assms(1) tracked_boundary_run ends_boundary_run [OF assms(2,4)] assms(3)])

theorem boundary_demo_cleans_up_witness:
  "\<exists>r sd. boundary_demo_main demo_os demo_bench (\<lambda>x. ''800.0'') (\<lambda>x. ''800'') ''now''
      \<lparr>da_delay_ms = Fin 800, da_delayed_count = 4, da_workers = 0\<rparr> (demo_state 2, ''text'') = Some (r, sd) \<and>
    demo_ended (\<lambda>result. write_demo_section ''boundary-case-demo''
      (boundary_section_lines (\<lambda>x. ''800'') ''now'' \<lparr>da_delay_ms = Fin 800, da_delayed_count = 4, da_workers = 0\<rparr> result))
      ''text'' r sd"
  by (rule boundary_demo_cleans_up [OF demo_os_ok(2,1)])
    (simp_all add: demo_state_def ll_test_def ll_run_load_test_def demo_bench_def)

text \<open>
  The lag demo does as much only where every follower can be started: then it ends without a process
  left, and writes its section or leaves the document alone.
\<close>

theorem lag_demo_cleans_up:
  assumes "kill_ends os" "os_clock_ok os" "popen_works os ''message_queue.follower''" "clock_laws (bn_admin bn)" "hs_live s = []"
    "bn_mq_config bn = Inr config" "\<And>n w. mq_test bn n w \<noteq> None"
  shows "\<exists>r sd. lag_demo_main os bn str_float fmt_g lag_of generated_at args (s, doc) = Some (r, sd) \<and>
    demo_ended (\<lambda>(result, per_follower_lag). write_demo_section ''mq-lag-demo''
      (lag_section_lines fmt_g generated_at args result per_follower_lag (lag_delayed_ports args))) doc r sd"
proof -
  have split: "(\<lambda>(result, per_follower_lag). h_do (apsnd (f result per_follower_lag))) =
      (\<lambda>x. h_do (apsnd ((\<lambda>(result, per_follower_lag). f result per_follower_lag) x)))"
    for f :: "load_test_result \<Rightarrow> (int \<times> int) list \<Rightarrow> string \<Rightarrow> string"
    by (rule ext) (simp add: case_prod_beta)
  show ?thesis
    unfolding lag_demo_main_def h_lift_def assms(6) split
    using run_demo_ends [OF assms(1) tracked_lag_run [OF assms(3)] ends_lag_run [OF assms(2,4,7)] assms(5)]
    by (simp add: h_bind_def)
qed

text \<open>
  And where the third follower cannot be started, the first two are left running: the exception leaves the
  demo before they have joined \<open>nodes\<close>.
\<close>

theorem lag_demo_leaks_followers:
  "\<exists>sd. lag_demo_main two_processes_os demo_bench (\<lambda>x. ''500.0'') (\<lambda>x. ''500'') (\<lambda>u w. (Replied 200 (Inr 0), w)) ''now''
      \<lparr>da_delay_ms = Fin 500, da_delayed_count = 2, da_workers = 5\<rparr> (demo_state 0, ''text'') =
    Some (Inl (OtherErr ''OSError''), sd) \<and> hs_live (fst sd) = [1, 0]"
  by (simp add: lag_demo_main_def h_lift_def run_demo_def lag_run_def h_finally_def h_except_def h_bind_def h_left_def
      h_return_def h_raise_def demo_bench_def reset_topic_h_def reset_topic_def demo_admin_def delete_and_wait_def
      ensure_topic_exists_def bind_call_def lag_spawn_follower_def spawn_def two_processes_os_def demo_os_def
      stop_all_def is_exception_def is_startup_error_def demo_state_def FOLLOWER_PORTS_def Let_def)

text \<open>
  What the arguments are checked for: a delay below zero or a count outside the cluster ends the script, and the
  defaults pass; but no comparison with NaN is true, so \<open>--delay-ms nan\<close> is accepted.
\<close>

theorem boundary_parse_args_checked:
  "(\<forall>args. boundary_parse_args d n = Inr args \<longrightarrow>
      0 \<le> da_delayed_count args \<and> da_delayed_count args \<le> 5 \<and> \<not> flt (da_delay_ms args) (Fin 0)) \<and>
   boundary_parse_args None None = Inr \<lparr>da_delay_ms = Fin 800, da_delayed_count = 4, da_workers = 0\<rparr> \<and>
   boundary_parse_args (Some NaN) None = Inr \<lparr>da_delay_ms = NaN, da_delayed_count = 4, da_workers = 0\<rparr>"
  by (auto simp: boundary_parse_args_def default_to_def DEFAULT_DELAY_MS_def DEFAULT_DELAYED_NODE_COUNT_def
      LEADERLESS_NODE_PORTS_def Let_def split: if_splits)

end
