(* ===== verification/KV_Measured.thy ===== *)
theory KV_Measured
  imports KV_LoadRuns
begin

text \<open>
  A load test run against a service: the workers of \<open>KV_LoadRuns\<close> take their steps while the service takes
  its own, and a worker's call can only end with a reply the service gives between its begin and its end.
  The interfaces below say what a service promises about acknowledged writes and what a worker's code makes of
  replies; together they imply that the test measures no staleness.
\<close>

section \<open>The run of a test against a service\<close>

text \<open>
  A service: its steps, and the outcomes a read or a write can have when the service was in the first state at
  the call and is in the second at the reply.
\<close>

record ('s, 'a) service =
  sv_step :: "'s \<Rightarrow> 'a \<Rightarrow> 's"
  sv_read :: "'s \<Rightarrow> 's \<Rightarrow> http_request \<Rightarrow> string \<Rightarrow> pyfloat http_outcome \<Rightarrow> bool"
  sv_write :: "'s \<Rightarrow> 's \<Rightarrow> http_request \<Rightarrow> string \<Rightarrow> write_body http_outcome \<Rightarrow> bool"

text \<open>The service and the test, and for each worker the state of the service when its last call began.\<close>

record 's measured =
  me_service :: 's
  me_load :: load_state
  me_began :: "nat \<Rightarrow> 's"

datatype 'a measured_event = Service 'a | Worker load_event

definition pending_at :: "load_state \<Rightarrow> nat \<Rightarrow> pending option" where
  "pending_at st i = (if i < length (st_workers st) then wk_pending (st_workers st ! i) else None)"

definition reply_possible :: "('s, 'a) service \<Rightarrow> 's measured \<Rightarrow> load_event \<Rightarrow> bool" where
  "reply_possible sv m ev =
     (case ev of
        Begin i \<Rightarrow> True
      | End_read i now outcome lag \<Rightarrow>
          (case pending_at (me_load m) i of
             Some (Pending_read rq key node_id expected) \<Rightarrow> sv_read sv (me_began m i) (me_service m) rq key outcome
           | _ \<Rightarrow> True)
      | End_write i now outcome \<Rightarrow>
          (case pending_at (me_load m) i of
             Some (Pending_write rq key node_id v) \<Rightarrow> sv_write sv (me_began m i) (me_service m) rq key outcome
           | _ \<Rightarrow> True))"

definition begun :: "'s measured \<Rightarrow> load_event \<Rightarrow> nat \<Rightarrow> 's" where
  "begun m ev =
     (case ev of
        Begin i \<Rightarrow> if pending_at (me_load m) i = None then (me_began m)(i := me_service m) else me_began m
      | _ \<Rightarrow> me_began m)"

fun measured_step :: "('s, 'a) service \<Rightarrow> worker_code \<Rightarrow> 's measured \<Rightarrow> 'a measured_event \<Rightarrow> 's measured" where
  "measured_step sv code m (Service a) = m\<lparr>me_service := sv_step sv (me_service m) a\<rparr>"
| "measured_step sv code m (Worker ev) =
     (if reply_possible sv m ev
      then m\<lparr>me_load := load_step code (me_load m) ev, me_began := begun m ev\<rparr> else m)"

fun measured_run :: "('s, 'a) service \<Rightarrow> worker_code \<Rightarrow> 's measured \<Rightarrow> 'a measured_event list \<Rightarrow> 's measured" where
  "measured_run sv code m [] = m"
| "measured_run sv code m (ev # evs) = measured_run sv code (measured_step sv code m ev) evs"

definition measured_start :: "'s \<Rightarrow> request_plan list list \<Rightarrow> 's measured" where
  "measured_start s chunks = \<lparr>me_service = s, me_load = load_start chunks, me_began = (\<lambda>i. s)\<rparr>"

definition no_stale :: "stats \<Rightarrow> bool" where
  "no_stale s \<longleftrightarrow> stale_reads s = 0 \<and> stale_events s = []"

lemma measured_run_append: "measured_run sv code m (evs @ evs') = measured_run sv code (measured_run sv code m evs) evs'"
  by (induction evs arbitrary: m) simp_all

lemma no_stale_merge_all:
  assumes "list_all no_stale results"
  shows "no_stale (merge_all results)"
proof -
  have "no_stale (foldl stats_merge a results)" if "list_all no_stale results" "no_stale a" for a
    using that by (induction results arbitrary: a) (simp_all add: no_stale_def stats_merge_def)
  with assms show ?thesis by (simp add: merge_all_def stats_init_def no_stale_def)
qed

section \<open>Replies\<close>

text \<open>
  What the code reads of a reply. A call fails with an httpx exception or is refused at any time; a 200, or
  a read's 404, is one of the answers of the handlers.
\<close>

definition read_reply :: "int kv_response http_result \<Rightarrow> int \<Rightarrow> exn + pyfloat \<Rightarrow> bool" where
  "read_reply res status body \<longleftrightarrow> status = http_status res \<and>
     (case res of Http_ok resp \<Rightarrow> body = Inr (kres_timestamp resp) | _ \<Rightarrow> True)"

definition write_reply :: "put_response http_result \<Rightarrow> int \<Rightarrow> exn + write_body \<Rightarrow> bool" where
  "write_reply res status body \<longleftrightarrow> status = http_status res \<and>
     (case res of
        Http_ok resp \<Rightarrow> body = Inr \<lparr>wb_applied = pres_applied resp, wb_timestamp = Inr (pres_timestamp resp)\<rparr>
      | _ \<Rightarrow> True)"

definition read_outcome_possible :: "int kv_response http_result list \<Rightarrow> pyfloat http_outcome \<Rightarrow> bool" where
  "read_outcome_possible answers outcome \<longleftrightarrow>
     (case outcome of
        Httpx_failed exc detail \<Rightarrow> True
      | Replied status body \<Rightarrow>
          status \<noteq> 200 \<and> status \<noteq> 404 \<or> (\<exists>res \<in> set answers. read_reply res status body))"

definition write_outcome_possible :: "put_response http_result list \<Rightarrow> write_body http_outcome \<Rightarrow> bool" where
  "write_outcome_possible answers outcome \<longleftrightarrow>
     (case outcome of
        Httpx_failed exc detail \<Rightarrow> True
      | Replied status body \<Rightarrow> status \<noteq> 200 \<or> (\<exists>res \<in> set answers. write_reply res status body))"

lemma read_outcome_fresh:
  assumes "read_outcome_possible answers (Replied status body)"
    and "\<And>res. res \<in> set answers \<Longrightarrow> http_status res = 200 \<or> http_status res = 404 \<Longrightarrow>
      \<exists>resp. res = Http_ok resp \<and> \<not> flt (kres_timestamp resp) t"
    and "status = 200 \<or> status = 404"
  shows "status = 200 \<and> (\<exists>t'. body = Inr t' \<and> \<not> flt t' t)"
proof -
  obtain res where "res \<in> set answers" "read_reply res status body"
    using assms(1,3) by (auto simp: read_outcome_possible_def)
  moreover from this obtain resp where "res = Http_ok resp" "\<not> flt (kres_timestamp resp) t"
    using assms(2) [of res] assms(3) by (auto simp: read_reply_def)
  ultimately show ?thesis by (simp add: read_reply_def)
qed

lemma write_outcome_acked:
  assumes "write_outcome_possible answers (Replied 200 body)"
    and "\<And>res. res \<in> set answers \<Longrightarrow> http_status res = 200 \<Longrightarrow> \<exists>resp. res = Http_ok resp \<and> P (pres_timestamp resp)"
  shows "\<exists>b t. body = Inr b \<and> wb_timestamp b = Inr t \<and> P t"
proof -
  obtain res where "res \<in> set answers" "write_reply res 200 body"
    using assms(1) by (auto simp: write_outcome_possible_def)
  moreover from this obtain resp where "res = Http_ok resp" "P (pres_timestamp resp)"
    using assms(2) [of res] by (auto simp: write_reply_def)
  ultimately show ?thesis by (simp add: write_reply_def)
qed

lemma record_failure_stale [simp]:
  "stale_reads (record_failure now s operation kind key node_id status detail) = stale_reads s"
  "stale_events (record_failure now s operation kind key node_id status detail) = stale_events s"
  by (simp_all add: record_failure_def Let_def split: operation.split)

section \<open>Interfaces\<close>

text \<open>
  A service keeps what it acknowledged: \<open>acked s key t\<close> says that in \<open>s\<close> a write of \<open>key\<close> with timestamp \<open>t\<close> has been
  acknowledged. On the histories \<open>ok\<close> allows, a proper request (\<open>proper\<close>) to read the key, one of those the service
  can be read with (\<open>readable\<close>), that begins after that is answered with a version at least as new, if it is
  answered 200 or 404 at all.
\<close>

locale honest_service =
  fixes sv :: "('s, 'a) service" and later :: "'s \<Rightarrow> 's \<Rightarrow> bool" and ok :: "'s \<Rightarrow> bool"
    and acked :: "'s \<Rightarrow> string \<Rightarrow> pyfloat \<Rightarrow> bool" and proper :: "http_request \<Rightarrow> bool"
    and readable :: "string \<Rightarrow> bool"
  assumes later_refl: "later s s" and later_trans: "later s s' \<Longrightarrow> later s' s'' \<Longrightarrow> later s s''"
    and later_step: "later s (sv_step sv s a)" and ok_earlier: "later s s' \<Longrightarrow> ok s' \<Longrightarrow> ok s"
    and acked_later: "later s s' \<Longrightarrow> acked s key t \<Longrightarrow> acked s' key t"
    and read_fresh: "later s s' \<Longrightarrow> ok s' \<Longrightarrow> acked s key t \<Longrightarrow> proper rq \<Longrightarrow> readable key \<Longrightarrow> sv_read sv s s' rq key (Replied status body) \<Longrightarrow>
      status = 200 \<or> status = 404 \<Longrightarrow> status = 200 \<and> (\<exists>t'. body = Inr t' \<and> \<not> flt t' t)"
    and write_acked: "later s s' \<Longrightarrow> proper rq \<Longrightarrow> sv_write sv s s' rq key (Replied 200 reply) \<Longrightarrow>
      \<exists>b t. reply = Inr b \<and> wb_timestamp b = Inr t \<and> acked s' key t"

text \<open>A reply that is no evidence of staleness for a read that expects \<open>expected\<close>.\<close>

definition fresh_reply :: "source_entry \<Rightarrow> pyfloat http_outcome \<Rightarrow> bool" where
  "fresh_reply expected outcome \<longleftrightarrow>
     (\<forall>status body. outcome = Replied status body \<longrightarrow> status = 200 \<or> status = 404 \<longrightarrow>
        status = 200 \<and> (\<exists>t. body = Inr t \<and> \<not> flt t (src_timestamp expected)))"

fun properly_made :: "(http_request \<Rightarrow> bool) \<Rightarrow> source_of_truth \<Rightarrow> pending \<Rightarrow> bool" where
  "properly_made proper sot (Pending_read rq key node_id expected) \<longleftrightarrow> proper rq \<and> map_of sot key = Some expected"
| "properly_made proper sot (Pending_write rq key node_id v) \<longleftrightarrow> proper rq"

fun pending_key :: "pending \<Rightarrow> string" where
  "pending_key (Pending_read rq key node_id expected) = key"
| "pending_key (Pending_write rq key node_id v) = key"

text \<open>A worker counts no fresh reply as stale, and records only what a 200 confirmed.\<close>

locale fair_worker =
  fixes code :: worker_code and proper :: "http_request \<Rightarrow> bool"
  assumes begin_made: "wc_begin code sh item s = Inr (s', p, sh') \<Longrightarrow>
      ls_sot sh' = ls_sot sh \<and> (no_stale s \<longrightarrow> no_stale s') \<and>
      (\<forall>call. p = Some call \<longrightarrow> properly_made proper (ls_sot sh) call \<and> pending_key call = rp_key item)"
    and end_read_fair: "wc_end_read code now s key node_id expected outcome lag = Inr s' \<Longrightarrow>
      fresh_reply expected outcome \<Longrightarrow> no_stale s \<Longrightarrow> no_stale s'"
    and end_write_records: "wc_end_write code now s sot key node_id v reply = Inr (s', sot') \<Longrightarrow>
      (no_stale s \<longrightarrow> no_stale s') \<and>
      (sot' = sot \<or>
       (\<exists>b t. reply = Replied 200 (Inr b) \<and> wb_timestamp b = Inr t \<and> sot' = sot_record sot key v t))"

locale measured_test = honest_service sv later ok acked proper readable + fair_worker code proper
  for sv :: "('s, 'a) service" and later ok acked proper readable code
begin

text \<open>
  The invariant: what the source of truth holds was acknowledged, and for a call in flight, the expected
  version of a read already when the call began.
\<close>

definition call_known :: "'s \<Rightarrow> 's \<Rightarrow> pending \<Rightarrow> bool" where
  "call_known began now p \<longleftrightarrow> later began now \<and> readable (pending_key p) \<and>
     (case p of
        Pending_read rq key node_id expected \<Rightarrow> proper rq \<and> acked began key (src_timestamp expected)
      | Pending_write rq key node_id v \<Rightarrow> proper rq)"

definition measured_ok :: "'s measured \<Rightarrow> bool" where
  "measured_ok m \<longleftrightarrow>
     (\<forall>key e. map_of (ls_sot (st_shared (me_load m))) key = Some e \<longrightarrow> acked (me_service m) key (src_timestamp e)) \<and>
     (\<forall>i p. pending_at (me_load m) i = Some p \<longrightarrow> call_known (me_began m i) (me_service m) p) \<and>
     (\<forall>wk \<in> set (st_workers (me_load m)). no_stale (wk_stats wk) \<and> (\<forall>item \<in> set (wk_todo wk). readable (rp_key item)))"

lemma call_known_mono: "call_known began s p \<Longrightarrow> later s s' \<Longrightarrow> call_known began s' p"
  using later_trans by (cases p) (auto simp: call_known_def)

lemma todo_readable:
  "measured_ok m \<Longrightarrow> i < length (st_workers (me_load m)) \<Longrightarrow>
     \<forall>item \<in> set (wk_todo (st_workers (me_load m) ! i)). readable (rp_key item)"
  unfolding measured_ok_def using nth_mem by blast

lemma measured_ok_service:
  assumes "measured_ok m"
  shows "measured_ok (m\<lparr>me_service := sv_step sv (me_service m) a\<rparr>)"
  using assms acked_later [OF later_step] call_known_mono [OF _ later_step] by (simp add: measured_ok_def)

lemma begun_pending: "pending_at (me_load m) i = Some p \<Longrightarrow> begun m ev i = me_began m i"
  by (auto simp: begun_def split: load_event.splits)

text \<open>A worker's step changes nothing but whether an exception was raised, or one worker and perhaps the shared state.\<close>

lemma measured_ok_idle:
  assumes ok: "measured_ok m" and same: "st_workers st' = st_workers (me_load m)" "st_shared st' = st_shared (me_load m)"
  shows "measured_ok (m\<lparr>me_load := st', me_began := begun m ev\<rparr>)"
proof -
  have "pending_at st' = pending_at (me_load m)" using same by (simp add: pending_at_def fun_eq_iff)
  moreover have "call_known (begun m ev i) (me_service m) p" if "pending_at (me_load m) i = Some p" for i p
    using ok that by (simp add: measured_ok_def begun_pending [OF that])
  ultimately show ?thesis using ok same by (simp add: measured_ok_def)
qed

lemma measured_ok_worker:
  assumes ok: "measured_ok m" and i: "i < length (st_workers (me_load m))"
    and st': "st_workers st' = (st_workers (me_load m))[i := wk]"
    and wk: "no_stale (wk_stats wk)" "\<forall>item \<in> set (wk_todo wk). readable (rp_key item)"
    and began: "\<And>j. j \<noteq> i \<Longrightarrow> began j = me_began m j"
    and pending: "\<And>p. wk_pending wk = Some p \<Longrightarrow> call_known (began i) (me_service m) p"
    and sot: "\<And>key e. map_of (ls_sot (st_shared st')) key = Some e \<Longrightarrow> acked (me_service m) key (src_timestamp e)"
  shows "measured_ok (m\<lparr>me_load := st', me_began := began\<rparr>)"
proof -
  have "call_known (began j) (me_service m) p" if "pending_at st' j = Some p" for j p
  proof (cases "j = i")
    case True
    then show ?thesis using that pending i st' by (simp add: pending_at_def)
  next
    case False
    then have "pending_at (me_load m) j = Some p" using that st' by (auto simp: pending_at_def split: if_splits)
    then show ?thesis using ok began [OF False] by (simp add: measured_ok_def)
  qed
  moreover have "no_stale (wk_stats w) \<and> (\<forall>item \<in> set (wk_todo w). readable (rp_key item))" if "w \<in> set (st_workers st')" for w
    using that set_update_subset_insert [of "st_workers (me_load m)" i wk] ok wk
    unfolding st' measured_ok_def by blast
  ultimately show ?thesis using sot by (simp add: measured_ok_def)
qed

lemma sot_record_cases:
  "map_of (sot_record sot key v t) k = Some e \<Longrightarrow> map_of sot k = Some e \<or> k = key \<and> src_timestamp e = t"
  by (auto simp: sot_record_def Let_def update_conv split: option.splits if_splits)

lemma measured_ok_begin:
  assumes ok: "measured_ok m" and i: "i < length (st_workers (me_load m))" "wk_pending (st_workers (me_load m) ! i) = None"
    "wk_todo (st_workers (me_load m) ! i) = item # todo"
    and began: "wc_begin code (st_shared (me_load m)) item (wk_stats (st_workers (me_load m) ! i)) = Inr (s, p, sh)"
    and st': "st_shared st' = sh" "st_workers st' = (st_workers (me_load m))[i := \<lparr>wk_todo = todo, wk_pending = p, wk_stats = s\<rparr>]"
  shows "measured_ok (m\<lparr>me_load := st', me_began := begun m (Begin i)\<rparr>)"
proof -
  note made = begin_made [OF began]
  have now: "begun m (Begin i) = (me_began m)(i := me_service m)" using i by (simp add: begun_def pending_at_def)
  have keys: "\<forall>it \<in> set (item # todo). readable (rp_key it)" using todo_readable [OF ok i(1)] i(3) by simp
  have "properly_made proper (ls_sot (st_shared (me_load m))) q" "readable (pending_key q)" if "p = Some q" for q
    using made that keys by auto
  then have "call_known (me_service m) (me_service m) q" if "p = Some q" for q
    using that ok later_refl by (cases q) (auto simp: call_known_def measured_ok_def)
  then show ?thesis
    unfolding now by (intro measured_ok_worker [OF ok i(1) st'(2)]) (use ok made i(1) st'(1) keys in \<open>auto simp: measured_ok_def\<close>)
qed

lemma measured_ok_end_read:
  assumes ok: "measured_ok m" "ok (me_service m)" and i: "i < length (st_workers (me_load m))"
    and p: "wk_pending (st_workers (me_load m) ! i) = Some (Pending_read rq key node_id expected)"
    and possible: "reply_possible sv m (End_read i now outcome lag)"
    and ended: "wc_end_read code now (wk_stats (st_workers (me_load m) ! i)) key node_id expected outcome lag = Inr s"
    and st': "st_shared st' = st_shared (me_load m)"
      "st_workers st' = (st_workers (me_load m))[i := (st_workers (me_load m) ! i)\<lparr>wk_pending := None, wk_stats := s\<rparr>]"
  shows "measured_ok (m\<lparr>me_load := st', me_began := me_began m\<rparr>)"
proof -
  have at: "pending_at (me_load m) i = Some (Pending_read rq key node_id expected)" using i p by (simp add: pending_at_def)
  then have "call_known (me_began m i) (me_service m) (Pending_read rq key node_id expected)"
    using ok(1) by (simp add: measured_ok_def)
  then have known: "later (me_began m i) (me_service m)" "proper rq" "acked (me_began m i) key (src_timestamp expected)" "readable key"
    by (simp_all add: call_known_def)
  have "sv_read sv (me_began m i) (me_service m) rq key outcome"
    using possible at by (simp add: reply_possible_def)
  then have "fresh_reply expected outcome"
    unfolding fresh_reply_def using read_fresh [OF known(1) ok(2) known(3,2,4)] by blast
  then have "no_stale s" using end_read_fair [OF ended] ok(1) i by (simp add: measured_ok_def)
  then show ?thesis
    by (intro measured_ok_worker [OF ok(1) i st'(2)]) (use ok(1) st'(1) todo_readable [OF ok(1) i] in \<open>simp_all add: measured_ok_def\<close>)
qed

lemma measured_ok_end_write:
  assumes ok: "measured_ok m" and i: "i < length (st_workers (me_load m))"
    and p: "wk_pending (st_workers (me_load m) ! i) = Some (Pending_write rq key node_id v)"
    and possible: "reply_possible sv m (End_write i now outcome)"
    and ended: "wc_end_write code now (wk_stats (st_workers (me_load m) ! i)) (ls_sot (st_shared (me_load m))) key node_id v
      outcome = Inr (s, sot)"
    and st': "ls_sot (st_shared st') = sot"
      "st_workers st' = (st_workers (me_load m))[i := (st_workers (me_load m) ! i)\<lparr>wk_pending := None, wk_stats := s\<rparr>]"
  shows "measured_ok (m\<lparr>me_load := st', me_began := me_began m\<rparr>)"
proof -
  have at: "pending_at (me_load m) i = Some (Pending_write rq key node_id v)" using i p by (simp add: pending_at_def)
  then have "call_known (me_began m i) (me_service m) (Pending_write rq key node_id v)"
    using ok by (simp add: measured_ok_def)
  then have known: "later (me_began m i) (me_service m)" "proper rq" by (simp_all add: call_known_def)
  have reply: "sv_write sv (me_began m i) (me_service m) rq key outcome"
    using possible at by (simp add: reply_possible_def)
  note rec = end_write_records [OF ended]
  have "acked (me_service m) k (src_timestamp e)" if "map_of sot k = Some e" for k e
  proof (cases "sot = ls_sot (st_shared (me_load m))")
    case False
    then obtain b t where "outcome = Replied 200 (Inr b)" "wb_timestamp b = Inr t"
        "sot = sot_record (ls_sot (st_shared (me_load m))) key v t"
      using rec by blast
    then show ?thesis
      using write_acked [OF known] reply that ok sot_record_cases by (fastforce simp: measured_ok_def)
  qed (use that ok in \<open>simp add: measured_ok_def\<close>)
  moreover have "no_stale s" using rec ok i by (simp add: measured_ok_def)
  ultimately show ?thesis
    by (intro measured_ok_worker [OF ok i st'(2)]) (use st'(1) todo_readable [OF ok i] in simp_all)
qed

lemma measured_ok_load:
  assumes ok: "measured_ok m" "ok (me_service m)" and possible: "reply_possible sv m ev"
  shows "measured_ok (m\<lparr>me_load := load_step code (me_load m) ev, me_began := begun m ev\<rparr>)"
proof (cases rule: load_step_cases [of code "me_load m" ev])
  case idle
  then show ?thesis using measured_ok_idle [OF ok(1), of "load_step code (me_load m) ev" ev] by (simp only:)
next
  case (raise e)
  then show ?thesis using measured_ok_idle [OF ok(1)] by simp
next
  case (began i item todo s p sh)
  have "begun m ev = begun m (Begin i)" by (simp only: began(1))
  then show ?thesis unfolding began(7) by (simp add: measured_ok_begin [OF ok(1) began(3-6)])
next
  case (read i now outcome lag rq key node_id expected s)
  have "begun m ev = me_began m" using read(1) by (simp add: begun_def)
  then show ?thesis
    using measured_ok_end_read [OF ok read(3,4) possible [unfolded read(1)] read(5)] read(6) by simp
next
  case (wrote i now outcome rq key node_id v s sot)
  have "begun m ev = me_began m" using wrote(1) by (simp add: begun_def)
  then show ?thesis
    using measured_ok_end_write [OF ok(1) wrote(3,4) possible [unfolded wrote(1)] wrote(5)] wrote(6) by simp
qed

lemma service_later: "later (me_service m) (me_service (measured_run sv code m evs))"
proof (induction evs arbitrary: m)
  case (Cons ev evs)
  have "later (me_service m) (me_service (measured_step sv code m ev))"
    using later_refl later_step by (cases ev) auto
  then show ?case using later_trans Cons.IH by (metis measured_run.simps(2))
qed (simp add: later_refl)

lemma measured_run_ok:
  assumes "measured_ok m" "ok (me_service (measured_run sv code m evs))"
  shows "measured_ok (measured_run sv code m evs)"
  using assms
proof (induction evs arbitrary: m)
  case (Cons ev evs)
  have "ok (me_service m)" using ok_earlier [OF service_later] Cons.prems(2) by blast
  then have "measured_ok (measured_step sv code m ev)"
    using measured_ok_service measured_ok_load Cons.prems(1) by (cases ev) auto
  then show ?case using Cons by simp
qed simp

lemma start_ok:
  "(\<And>chunk item. chunk \<in> set chunks \<Longrightarrow> item \<in> set chunk \<Longrightarrow> readable (rp_key item)) \<Longrightarrow>
     measured_ok (measured_start s chunks)"
  by (auto simp: measured_ok_def measured_start_def load_start_def shared_init_def start_worker_def stats_init_def
      pending_at_def no_stale_def)

lemma measures_no_staleness:
  assumes "ok (me_service (measured_run sv code (measured_start s chunks) evs))"
    and "load_gather (me_load (measured_run sv code (measured_start s chunks) evs)) = Some (Inr results)"
    and "\<And>chunk item. chunk \<in> set chunks \<Longrightarrow> item \<in> set chunk \<Longrightarrow> readable (rp_key item)"
  shows "staleness_rate (merge_all results) = 0 \<and> stale_events (merge_all results) = []"
proof -
  have "list_all no_stale results"
    using measured_run_ok [OF start_ok [OF assms(3)] assms(1)] assms(2)
    by (auto simp: measured_ok_def load_gather_def list_all_iff split: option.splits if_splits)
  then show ?thesis using no_stale_merge_all by (simp add: no_stale_def staleness_rate_def)
qed

end

end
