(* ===== verification/KV_LoadCluster.thy ===== *)
theory KV_LoadCluster
  imports KV_Cluster KV_Measured "HOL-Library.Sublist"
begin

text \<open>
  The leaderless load test run against the cluster: the service of \<open>KV_Measured\<close> made of the runs of
  \<open>KV_Cluster\<close>. Its state is the list of the steps the cluster has made, so its own steps, requests of any
  client, the network and the coordinators' rounds, interleave freely with the workers'.
\<close>

section \<open>The cluster as a service\<close>

text \<open>
  The answers a call can be given: those of the coordinators that the node of the URL started for the key
  after the call began, with the quorum that the request's parameters ask for.
\<close>

definition ll_read_by :: "(pyval \<Rightarrow> string) \<Rightarrow> cluster_config \<Rightarrow> http_request \<Rightarrow> string \<Rightarrow> int read_ctx \<Rightarrow> bool" where
  "ll_read_by fmt config rq key rd \<longleftrightarrow>
     hr_method rq = ''GET'' \<and> hr_url rq = ll_base_url fmt (rd_node rd) @ ''/kv/'' @ key \<and> rd_key rd = key \<and>
     rd_r rd = r_required_of config (map_of (hr_params rq) ''r'')"

definition ll_write_by :: "(pyval \<Rightarrow> string) \<Rightarrow> cluster_config \<Rightarrow> http_request \<Rightarrow> string \<Rightarrow> int write_ctx \<Rightarrow> bool" where
  "ll_write_by fmt config rq key wr \<longleftrightarrow>
     hr_method rq = ''PUT'' \<and> hr_url rq = ll_base_url fmt (wr_node wr) @ ''/kv/'' @ key \<and>
     rreq_key (wr_request wr) = key \<and> hr_json rq = Some (rreq_value (wr_request wr)) \<and>
     wr_w wr = w_required_of config (map_of (hr_params rq) ''w'')"

definition ll_read_answers ::
    "(pyval \<Rightarrow> string) \<Rightarrow> cluster_config \<Rightarrow> int cluster \<Rightarrow> int cluster \<Rightarrow> http_request \<Rightarrow> string \<Rightarrow>
     int kv_response http_result list" where
  "ll_read_answers fmt config s s' rq key =
     List.map_filter rd_answer (filter (ll_read_by fmt config rq key) (drop (length (cl_reads s)) (cl_reads s')))"

definition ll_write_answers ::
    "(pyval \<Rightarrow> string) \<Rightarrow> cluster_config \<Rightarrow> int cluster \<Rightarrow> int cluster \<Rightarrow> http_request \<Rightarrow> string \<Rightarrow>
     put_response http_result list" where
  "ll_write_answers fmt config s s' rq key =
     List.map_filter wr_answer (filter (ll_write_by fmt config rq key) (drop (length (cl_writes s)) (cl_writes s')))"

abbreviation ll_run :: "url_routing \<Rightarrow> cluster_config \<Rightarrow> (node \<Rightarrow> string) \<Rightarrow> int action list \<Rightarrow> int cluster" where
  "ll_run net config ids acts \<equiv> cluster_run net config ids acts cluster_init"

definition ll_service ::
    "(pyval \<Rightarrow> string) \<Rightarrow> url_routing \<Rightarrow> cluster_config \<Rightarrow> (node \<Rightarrow> string) \<Rightarrow> (int action list, int action) service" where
  "ll_service fmt net config ids =
     \<lparr>sv_step = (\<lambda>acts a. acts @ [a]),
      sv_read = (\<lambda>acts acts' rq key.
        read_outcome_possible (ll_read_answers fmt config (ll_run net config ids acts) (ll_run net config ids acts') rq key)),
      sv_write = (\<lambda>acts acts' rq key.
        write_outcome_possible (ll_write_answers fmt config (ll_run net config ids acts) (ll_run net config ids acts') rq key))\<rparr>"

section \<open>Lemmas: what the cluster's steps keep\<close>

text \<open>Requests and quorums of coordinators never change, an answer is final, and numbers are not reused.\<close>

definition grows :: "'v cluster \<Rightarrow> 'v cluster \<Rightarrow> bool" where
  "grows s s' \<longleftrightarrow>
     length (cl_writes s) \<le> length (cl_writes s') \<and> length (cl_reads s) \<le> length (cl_reads s') \<and>
     (\<forall>k < length (cl_writes s).
        wr_request (cl_writes s' ! k) = wr_request (cl_writes s ! k) \<and> wr_w (cl_writes s' ! k) = wr_w (cl_writes s ! k) \<and>
        (wr_answer (cl_writes s ! k) \<noteq> None \<longrightarrow> wr_answer (cl_writes s' ! k) = wr_answer (cl_writes s ! k))) \<and>
     (\<forall>j < length (cl_reads s).
        rd_key (cl_reads s' ! j) = rd_key (cl_reads s ! j) \<and> rd_r (cl_reads s' ! j) = rd_r (cl_reads s ! j))"

lemma grows_refl [simp]: "grows s s"
  by (simp add: grows_def)

lemma grows_trans:
  assumes "grows s s'" "grows s' s''"
  shows "grows s s''"
proof -
  have le: "length (cl_writes s) \<le> length (cl_writes s')" "length (cl_reads s) \<le> length (cl_reads s')"
    using assms(1) by (simp_all add: grows_def)
  have wr: "k < length (cl_writes s')" if "k < length (cl_writes s)" for k
    using le(1) that by simp
  have rd: "j < length (cl_reads s')" if "j < length (cl_reads s)" for j
    using le(2) that by simp
  show ?thesis using assms wr rd by (auto simp: grows_def)
qed

lemma grows_step: "grows s (cluster_step net config ids s a)"
proof (cases a)
  case (Client_put n key body w now)
  then show ?thesis
    by (auto simp: grows_def start_put_def Let_def nth_append split: sum.split prod.split)
next
  case (Client_get n key r choice)
  then show ?thesis
    by (auto simp: grows_def start_get_def Let_def nth_append split: sum.split)
next
  case (Deliver_write i t)
  then show ?thesis
    by (auto simp: grows_def deliver_write_def Let_def nth_list_update split: prod.split)
next
  case (End_write i t r)
  then show ?thesis by (auto simp: grows_def end_write_def Let_def nth_list_update)
next
  case (Put_round i remaining ev)
  then show ?thesis by (auto simp: grows_def put_round_def Let_def nth_list_update split: prod.split)
next
  case (Deliver_read j t)
  then show ?thesis by (auto simp: grows_def deliver_read_def Let_def nth_list_update split: prod.split)
next
  case (End_read j t r)
  then show ?thesis by (auto simp: grows_def end_read_def Let_def nth_list_update)
next
  case (Get_round j remaining ev)
  then show ?thesis by (auto simp: grows_def get_round_def Let_def nth_list_update split: prod.split)
qed (auto simp: grows_def)

lemma grows_run: "grows s (cluster_run net config ids acts s)"
  by (induction acts arbitrary: s) (auto intro: grows_trans [OF grows_step])

text \<open>A 200 carries the timestamp the write was stored with.\<close>

definition stamped_answer :: "'v write_ctx \<Rightarrow> bool" where
  "stamped_answer wr \<longleftrightarrow>
     (\<forall>res. wr_answer wr = Some res \<longrightarrow> http_status res = 200 \<longrightarrow>
        (\<exists>resp. res = Http_ok resp \<and> pres_timestamp resp = rreq_timestamp (wr_request wr)))"

definition answers_stamped :: "'v cluster \<Rightarrow> bool" where
  "answers_stamped s \<longleftrightarrow> (\<forall>wr \<in> set (cl_writes s). stamped_answer wr)"

lemma resolve_put_stamp:
  "http_status (resolve_put w timeout applied t acked) = 200 \<Longrightarrow>
    \<exists>resp. resolve_put w timeout applied t acked = Http_ok resp \<and> pres_timestamp resp = t"
  by (auto simp: resolve_put_def Let_def http_error_def split: sum.splits if_splits)

lemma answers_stamped_update:
  "answers_stamped s \<Longrightarrow> cl_writes s' = (cl_writes s)[i := wr] \<Longrightarrow> stamped_answer wr \<Longrightarrow> answers_stamped s'"
  unfolding answers_stamped_def using set_update_subset_insert by fastforce

lemma answers_stamped_step:
  assumes "answers_stamped s"
  shows "answers_stamped (cluster_step net config ids s a)"
proof -
  have old: "stamped_answer (cl_writes s ! i)" if "i < length (cl_writes s)" for i
    using assms that by (simp add: answers_stamped_def)
  show ?thesis
  proof (cases a)
    case (Client_put n key body w now)
    then show ?thesis using assms
      by (auto simp: answers_stamped_def start_put_def stamped_answer_def Let_def split: sum.split prod.split)
  next
    case (Deliver_write i t)
    then show ?thesis using assms old [of i]
      by (auto simp: deliver_write_def Let_def split: prod.split intro!: answers_stamped_update [OF assms])
        (simp add: stamped_answer_def)
  next
    case (End_write i t r)
    then show ?thesis using assms old [of i]
      by (auto simp: end_write_def Let_def intro!: answers_stamped_update [OF assms]) (simp add: stamped_answer_def)
  next
    case (Put_round i remaining ev)
    then show ?thesis using assms
      by (auto simp: put_round_def Let_def split: prod.split intro!: answers_stamped_update [OF assms])
        (auto simp: stamped_answer_def resolve_put_stamp)
  qed (use assms in \<open>auto simp: answers_stamped_def start_get_def deliver_read_def end_read_def get_round_def Let_def
      split: sum.split prod.split\<close>)
qed

lemma answers_stamped_run: "answers_stamped (cluster_run net config ids acts cluster_init)"
  by (rule cluster_run_induct) (simp_all add: answers_stamped_step, simp add: answers_stamped_def cluster_init_def)

section \<open>What the cluster promises\<close>

text \<open>An acknowledged write of the key, of the quorum the test asks for.\<close>

definition ll_acked ::
    "url_routing \<Rightarrow> cluster_config \<Rightarrow> (node \<Rightarrow> string) \<Rightarrow> int option \<Rightarrow> int action list \<Rightarrow> string \<Rightarrow> pyfloat \<Rightarrow> bool" where
  "ll_acked net config ids w acts key t \<longleftrightarrow>
     (\<exists>wr \<in> set (cl_writes (ll_run net config ids acts)).
        rreq_key (wr_request wr) = key \<and> rreq_timestamp (wr_request wr) = t \<and> wr_w wr = w_required_of config w \<and>
        (\<exists>resp. wr_answer wr = Some (Http_ok resp)))"

definition ll_proper :: "int option \<Rightarrow> int option \<Rightarrow> http_request \<Rightarrow> bool" where
  "ll_proper w r rq \<longleftrightarrow>
     (hr_method rq = ''PUT'' \<longrightarrow> map_of (hr_params rq) ''w'' = w) \<and>
     (hr_method rq = ''GET'' \<longrightarrow> map_of (hr_params rq) ''r'' = r)"

text \<open>The histories on which the quorums overlap.\<close>

definition ll_strict ::
    "url_routing \<Rightarrow> cluster_config \<Rightarrow> (node \<Rightarrow> string) \<Rightarrow> int option \<Rightarrow> int option \<Rightarrow> int action list \<Rightarrow> bool" where
  "ll_strict net config ids w r acts \<longleftrightarrow>
     distinct (map node_port (cc_nodes config)) \<and>
     int (length (cc_nodes config)) < w_required_of config w + r_required_of config r \<and>
     routes_plain net (cc_nodes config) \<and> (\<forall>key. clean_run ids key acts)"

lemma grows_prefix: "prefix acts acts' \<Longrightarrow> grows (ll_run net config ids acts) (ll_run net config ids acts')"
  by (auto simp: prefix_def cluster_run_append grows_run)

lemma ll_acked_later:
  assumes "prefix acts acts'" "ll_acked net config ids w acts key t"
  shows "ll_acked net config ids w acts' key t"
proof -
  let ?s = "ll_run net config ids acts" and ?s' = "ll_run net config ids acts'"
  obtain wr resp where wr: "wr \<in> set (cl_writes ?s)" "rreq_key (wr_request wr) = key" "rreq_timestamp (wr_request wr) = t"
    "wr_w wr = w_required_of config w" "wr_answer wr = Some (Http_ok resp)"
    using assms(2) by (auto simp: ll_acked_def)
  moreover from wr(1) obtain k where k: "k < length (cl_writes ?s)" "wr = cl_writes ?s ! k"
    by (auto simp: in_set_conv_nth)
  ultimately have "k < length (cl_writes ?s')" "wr_answer (cl_writes ?s' ! k) = Some (Http_ok resp)"
    "wr_request (cl_writes ?s' ! k) = wr_request (cl_writes ?s ! k)" "wr_w (cl_writes ?s' ! k) = wr_w (cl_writes ?s ! k)"
    using grows_prefix [OF assms(1), of net config ids] by (auto simp: grows_def)
  with wr k show ?thesis unfolding ll_acked_def by (intro bexI [of _ "cl_writes ?s' ! k"]) auto
qed

lemma clean_run_prefix: "prefix acts acts' \<Longrightarrow> clean_run ids key acts' \<Longrightarrow> clean_run ids key acts"
  by (auto simp: prefix_def clean_run_def)

text \<open>The quorums overlap: an answer given to a read is at least as new as a write acknowledged before.\<close>

lemma ll_read_fresh:
  assumes later: "prefix acts acts'" and strict: "ll_strict net config ids w r acts'"
    and acked: "ll_acked net config ids w acts key t" and proper: "ll_proper w r rq" "url_plain key"
    and res: "res \<in> set (ll_read_answers fmt config (ll_run net config ids acts) (ll_run net config ids acts') rq key)"
      "http_status res = 200 \<or> http_status res = 404"
  shows "\<exists>resp. res = Http_ok resp \<and> \<not> flt (kres_timestamp resp) t"
proof -
  let ?s = "ll_run net config ids acts" and ?s' = "ll_run net config ids acts'"
  obtain more where more: "acts' = acts @ more" using later by (auto simp: prefix_def)
  obtain wr wresp where wr: "wr \<in> set (cl_writes ?s)" "rreq_key (wr_request wr) = key"
    "rreq_timestamp (wr_request wr) = t" "wr_w wr = w_required_of config w" "wr_answer wr = Some (Http_ok wresp)"
    using acked by (auto simp: ll_acked_def)
  obtain rd where rd: "rd \<in> set (drop (length (cl_reads ?s)) (cl_reads ?s'))" "ll_read_by fmt config rq key rd"
    "rd_answer rd = Some res"
    using res(1) by (auto simp: ll_read_answers_def List.map_filter_def)
  from rd(1) obtain j where "j < length (cl_reads ?s') - length (cl_reads ?s)" "cl_reads ?s' ! (length (cl_reads ?s) + j) = rd"
    by (auto simp: in_set_conv_nth)
  then obtain j where j: "length (cl_reads ?s) \<le> j" "j < length (cl_reads ?s')" "cl_reads ?s' ! j = rd"
    by (metis le_add1 less_diff_conv add.commute)
  have "\<exists>resp. res = Http_ok resp \<and> kres_key resp = key \<and>
    stamp (rreq_entry (wr_request wr)) \<le> (kres_timestamp resp, kres_node_id resp)"
    by (rule quorum_overlap [of config ?s net ids acts wr key wresp ?s' more j])
      (use more wr rd j strict proper res(2) in
        \<open>simp_all add: cluster_run_append ll_strict_def ll_read_by_def ll_proper_def routes_plain_def\<close>)
  then show ?thesis
    using wr(3) by (auto simp: stamp_def rreq_entry_def less_eq_prod_def flt_def)
qed

lemma ll_write_acked:
  assumes proper: "ll_proper w r rq"
    and res: "res \<in> set (ll_write_answers fmt config s (ll_run net config ids acts') rq key)" "http_status res = 200"
  shows "\<exists>resp. res = Http_ok resp \<and> ll_acked net config ids w acts' key (pres_timestamp resp)"
proof -
  obtain wr where wr: "wr \<in> set (cl_writes (ll_run net config ids acts'))" "ll_write_by fmt config rq key wr"
    "wr_answer wr = Some res"
    using res(1) by (auto simp: ll_write_answers_def List.map_filter_def dest: in_set_dropD)
  then have "stamped_answer wr" using answers_stamped_run [of net config ids acts'] by (auto simp: answers_stamped_def)
  then obtain resp where "res = Http_ok resp" "pres_timestamp resp = rreq_timestamp (wr_request wr)"
    using wr(3) res(2) by (auto simp: stamped_answer_def)
  moreover have "rreq_key (wr_request wr) = key" "wr_w wr = w_required_of config w"
    using wr(2) proper by (auto simp: ll_write_by_def ll_proper_def)
  ultimately show ?thesis using wr(1,3) by (auto simp: ll_acked_def)
qed

interpretation ll_honest: honest_service "ll_service fmt net config ids" prefix "ll_strict net config ids w r"
    "ll_acked net config ids w" "ll_proper w r" url_plain for fmt net config ids w r
proof
  fix acts acts' :: "int action list" and key t rq status body
  assume "prefix acts acts'" "ll_strict net config ids w r acts'" "ll_acked net config ids w acts key t" "ll_proper w r rq" "url_plain key"
    "sv_read (ll_service fmt net config ids) acts acts' rq key (Replied status body)" "status = 200 \<or> status = 404"
  then show "status = 200 \<and> (\<exists>t'. body = Inr t' \<and> \<not> flt t' t)"
    by (intro read_outcome_fresh [OF _ ll_read_fresh]) (simp_all add: ll_service_def)
next
  fix acts acts' :: "int action list" and key rq reply
  assume "prefix acts acts'" "ll_proper w r rq" "sv_write (ll_service fmt net config ids) acts acts' rq key (Replied 200 reply)"
  then show "\<exists>b t. reply = Inr b \<and> wb_timestamp b = Inr t \<and> ll_acked net config ids w acts' key t"
    by (intro write_outcome_acked [OF _ ll_write_acked]) (simp_all add: ll_service_def)
next
  fix acts acts' :: "int action list" and key t
  show "ll_strict net config ids w r acts" if "prefix acts acts'" "ll_strict net config ids w r acts'"
    using that clean_run_prefix [OF that(1)] by (simp add: ll_strict_def)
  show "ll_acked net config ids w acts' key t" if "prefix acts acts'" "ll_acked net config ids w acts key t"
    using that by (rule ll_acked_later)
  show "prefix acts (sv_step (ll_service fmt net config ids) acts a)" for a
    by (simp add: ll_service_def)
qed (auto intro: prefix_order.trans)

section \<open>What the worker's code makes of replies\<close>

lemma ll_begin_made:
  assumes "wc_begin (ll_code fmt nodes node_ids w r) sh item s = Inr (s', p, sh')"
  shows "ls_sot sh' = ls_sot sh \<and> (no_stale s \<longrightarrow> no_stale s') \<and>
    (\<forall>call. p = Some call \<longrightarrow> properly_made (ll_proper w r) (ls_sot sh) call \<and> pending_key call = rp_key item)"
  using assms
  by (cases "rp_is_read item")
    (auto simp: ll_code_def ll_begin_request_def ll_begin_read_def ll_begin_write_def sot_snapshot_def Let_def
      ll_proper_def no_stale_def bind_exn_Inr_iff split: option.splits prod.splits)

lemma ll_end_read_fair:
  "wc_end_read (ll_code fmt nodes node_ids w r) now s key node_id expected outcome lag = Inr s' \<Longrightarrow>
     fresh_reply expected outcome \<Longrightarrow> no_stale s \<Longrightarrow> no_stale s'"
  by (auto simp: ll_code_def ll_end_read_def fresh_reply_def no_stale_def bind_exn_Inr_iff Let_def
      split: http_outcome.splits if_splits)

lemma ll_end_write_records:
  "wc_end_write (ll_code fmt nodes node_ids w r) now s sot key node_id v reply = Inr (s', sot') \<Longrightarrow>
     (no_stale s \<longrightarrow> no_stale s') \<and>
     (sot' = sot \<or> (\<exists>b t. reply = Replied 200 (Inr b) \<and> wb_timestamp b = Inr t \<and> sot' = sot_record sot key v t))"
  by (auto simp: ll_code_def ll_end_write_def no_stale_def bind_exn_Inr_iff split: http_outcome.splits if_splits)

interpretation ll_measured: measured_test "ll_service fmt net config ids" prefix "ll_strict net config ids w r"
    "ll_acked net config ids w" "ll_proper w r" url_plain "ll_code fmt nodes node_ids w r"
  for fmt net config ids w r nodes node_ids
  by unfold_locales (erule ll_begin_made | erule (2) ll_end_read_fair | erule ll_end_write_records)+

text \<open>The keys of the load tests.\<close>

lemma unreserved_digit: "d < 10 \<Longrightarrow> unreserved (char_of (d + 48 :: nat))"
  by (simp add: unreserved_def Let_def)

lemma unreserved_decimal: "list_all unreserved (dec_of_nat n)"
  by (induction n rule: dec_of_nat.induct)
    (subst dec_of_nat.simps, simp add: unreserved_digit)

lemma KEYS_plain: "key \<in> set KEYS \<Longrightarrow> url_plain key"
  by (auto simp: KEYS_def url_plain_def py_str_of_int_def unreserved_decimal)
    (simp_all add: unreserved_def Let_def)

section \<open>Properties\<close>

text \<open>
  C2. What the benchmark measures is what the protocol guarantees: run the leaderless load test, with any
  number of workers and any plan over keys of unreserved characters, as \<open>KEYS\<close> are (\<open>KEYS_plain\<close>), against a
  cluster of \<open>N\<close> nodes on distinct ports with quorums \<open>N < w + r\<close>. However the workers, the network and the coordinators interleave, whichever calls are lost
  or time out and whatever other clients do, the test reports a staleness rate of zero and no stale
  event, provided nothing is deleted and the nodes' clocks yield real timestamps.
\<close>

theorem strict_quorum_measures_no_staleness:
  assumes "m = measured_run (ll_service fmt net config ids) (ll_code fmt (cc_nodes config) node_ids w r)
      (measured_start [] chunks) evs"
    and "distinct (map node_port (cc_nodes config))"
    and "int (length (cc_nodes config)) < w_required_of config w + r_required_of config r"
    and "\<And>key. clean_run ids key (me_service m)"
    and "load_gather (me_load m) = Some (Inr results)"
    and "routes_plain net (cc_nodes config)"
    and "\<And>chunk item. chunk \<in> set chunks \<Longrightarrow> item \<in> set chunk \<Longrightarrow> url_plain (rp_key item)"
  shows "staleness_rate (merge_all results) = 0 \<and> stale_events (merge_all results) = []"
  using assms by (intro ll_measured.measures_no_staleness) (auto simp: ll_strict_def)

text \<open>One worker writes a key through the first of three nodes and reads it back through the third.\<close>

definition example_plan :: "request_plan list list" where
  "example_plan = [[\<lparr>rp_is_read = False, rp_key = ''k'', rp_read_target_index = None\<rparr>,
     \<lparr>rp_is_read = True, rp_key = ''k'', rp_read_target_index = Some 2\<rparr>]]"

text \<open>What the cluster does for the write and for the read.\<close>

definition example_write :: "int action list" where
  "example_write = [Client_put (example_node 8001) ''k'' \<lparr>preq_value = 0\<rparr> None (Fin 5), Deliver_write 0 0,
     action.End_write 0 0 ack_call, Put_round 0 (Fin 2) (Completed [0]), Put_round 0 (Fin 1) (Completed [])]"

definition example_read :: "int action list" where
  "example_read = [Client_get (example_node 8003) ''k'' None [1], Deliver_read 0 0,
     action.End_read 0 0 (Call_response 200 (Body_ok \<lparr>kres_key = ''k'', kres_value = 0, kres_timestamp = Fin 5,
       kres_node_id = ''node-1''\<rparr>)),
     Get_round 0 (Fin 2) (Completed [0]), Get_round 0 (Fin 1) (Completed [])]"

abbreviation example_run :: "int action list \<Rightarrow> int cluster" where
  "example_run \<equiv> ll_run example_net (example_cluster 2 2) example_id"

lemma example_write_run:
  "cl_reads (example_run example_write) = []"
  "map (\<lambda>wr. (wr_node wr, rreq_key (wr_request wr), rreq_value (wr_request wr), wr_w wr, wr_answer wr))
     (cl_writes (example_run example_write)) =
     [(example_node 8001, ''k'', 0, 2, Some (Http_ok \<lparr>pres_applied = True, pres_timestamp = Fin 5\<rparr>))]"
  by (simp_all add: example_write_def cluster_eval example_id_def)

lemma example_read_run:
  "map (\<lambda>rd. (rd_node rd, rd_key rd, rd_r rd, rd_answer rd)) (cl_reads (example_run (example_write @ example_read))) =
     [(example_node 8003, ''k'', 2,
       Some (Http_ok \<lparr>kres_key = ''k'', kres_value = 0, kres_timestamp = Fin 5, kres_node_id = ''node-1''\<rparr>))]"
  by (simp add: example_write_def example_read_def cluster_eval example_id_def)

definition example_code :: worker_code where
  "example_code = ll_code (\<lambda>x. ''h'') (cc_nodes (example_cluster 2 2))
     [(example_node 8001, ''node-1''), (example_node 8003, ''node-3'')] None None"

definition example_lag :: "int http_outcome" where
  "example_lag = Httpx_failed Connect_error []"

text \<open>What the worker does at its four steps.\<close>

definition example_loads :: "load_event list" where
  "example_loads = [Begin 0, load_event.End_write 0 (Fin 6) (Replied 200 (Inr \<lparr>wb_applied = True, wb_timestamp = Inr (Fin 5)\<rparr>)),
     Begin 0, load_event.End_read 0 (Fin 8) (Replied 200 (Inr (Fin 5))) example_lag]"

definition example_load :: "nat \<Rightarrow> load_state" where
  "example_load n = foldl (load_step example_code) (load_start example_plan) (take n example_loads)"

lemmas example_load_eval = example_load_def example_loads_def example_code_def example_plan_def
  load_start_def start_worker_def shared_init_def pending_at_def example_lag_def
  ll_code_def ll_begin_request_def ll_begin_write_def ll_begin_read_def ll_end_write_def
  ll_end_read_def ll_base_url_def next_node_def next_value_def py_item_def sot_record_def sot_snapshot_def flt_def Let_def

definition example_url :: "int \<Rightarrow> string" where
  "example_url port = ll_base_url (\<lambda>x. ''h'') (example_node port) @ ''/kv/k''"

lemma example_load_calls:
  "pending_at (example_load 0) 0 = None"
  "pending_at (example_load (Suc 0)) 0 = Some (Pending_write
     \<lparr>hr_method = ''PUT'', hr_url = example_url 8001, hr_params = [], hr_json = Some 0\<rparr> ''k'' ''node-1'' 0)"
  "pending_at (example_load 2) 0 = None"
  "pending_at (example_load 3) 0 = Some (Pending_read
     \<lparr>hr_method = ''GET'', hr_url = example_url 8003, hr_params = [], hr_json = None\<rparr> ''k'' ''node-3'' \<lparr>src_value = 0, src_timestamp = Fin 5\<rparr>)"
  by (simp_all add: example_load_eval example_url_def)

lemma example_load_steps:
  "load_start example_plan = example_load 0"
  "load_step example_code (example_load 0) (Begin 0) = example_load (Suc 0)"
  "load_step example_code (example_load (Suc 0))
     (load_event.End_write 0 (Fin 6) (Replied 200 (Inr \<lparr>wb_applied = True, wb_timestamp = Inr (Fin 5)\<rparr>))) = example_load 2"
  "load_step example_code (example_load 2) (Begin 0) = example_load 3"
  "load_step example_code (example_load 3)
     (load_event.End_read 0 (Fin 8) (Replied 200 (Inr (Fin 5))) example_lag) = example_load 4"
  by (simp_all add: example_load_def example_loads_def del: load_step.simps)

definition example_events :: "int action measured_event list" where
  "example_events =
     [Worker (Begin 0)] @ map Service example_write @
     [Worker (load_event.End_write 0 (Fin 6) (Replied 200 (Inr \<lparr>wb_applied = True, wb_timestamp = Inr (Fin 5)\<rparr>))),
      Worker (Begin 0)] @ map Service example_read @
     [Worker (load_event.End_read 0 (Fin 8) (Replied 200 (Inr (Fin 5))) example_lag)]"

abbreviation example_service :: "(int action list, int action) service" where
  "example_service \<equiv> ll_service (\<lambda>x. ''h'') example_net (example_cluster 2 2) example_id"

lemma ll_service_sel:
  "sv_read (ll_service fmt net config ids) acts acts' rq key =
     read_outcome_possible (ll_read_answers fmt config (ll_run net config ids acts) (ll_run net config ids acts') rq key)"
  "sv_write (ll_service fmt net config ids) acts acts' rq key =
     write_outcome_possible (ll_write_answers fmt config (ll_run net config ids acts) (ll_run net config ids acts') rq key)"
  by (simp_all add: ll_service_def)

lemma measured_run_services:
  "measured_run (ll_service fmt net config ids) code m (map Service acts) = m\<lparr>me_service := me_service m @ acts\<rparr>"
  by (induction acts arbitrary: m) (simp_all add: ll_service_def)

lemma example_answers:
  "ll_write_answers (\<lambda>x. ''h'') (example_cluster 2 2) cluster_init (example_run example_write)
     \<lparr>hr_method = ''PUT'', hr_url = example_url 8001, hr_params = [], hr_json = Some 0\<rparr> ''k'' =
     [Http_ok \<lparr>pres_applied = True, pres_timestamp = Fin 5\<rparr>]"
  "ll_read_answers (\<lambda>x. ''h'') (example_cluster 2 2) (example_run example_write) (example_run (example_write @ example_read))
     \<lparr>hr_method = ''GET'', hr_url = example_url 8003, hr_params = [], hr_json = None\<rparr> ''k'' =
     [Http_ok \<lparr>kres_key = ''k'', kres_value = 0, kres_timestamp = Fin 5, kres_node_id = ''node-1''\<rparr>]"
proof -
  obtain wr where "cl_writes (example_run example_write) = [wr]" "wr_node wr = example_node 8001"
    "rreq_key (wr_request wr) = ''k''" "rreq_value (wr_request wr) = 0" "wr_w wr = 2"
    "wr_answer wr = Some (Http_ok \<lparr>pres_applied = True, pres_timestamp = Fin 5\<rparr>)"
    using example_write_run(2) by auto
  then show "ll_write_answers (\<lambda>x. ''h'') (example_cluster 2 2) cluster_init (example_run example_write)
     \<lparr>hr_method = ''PUT'', hr_url = example_url 8001, hr_params = [], hr_json = Some 0\<rparr> ''k'' =
     [Http_ok \<lparr>pres_applied = True, pres_timestamp = Fin 5\<rparr>]"
    by (simp add: ll_write_answers_def ll_write_by_def example_url_def List.map_filter_def cluster_init_def)
  obtain rd where "cl_reads (example_run (example_write @ example_read)) = [rd]" "rd_node rd = example_node 8003"
    "rd_key rd = ''k''" "rd_r rd = 2"
    "rd_answer rd = Some (Http_ok \<lparr>kres_key = ''k'', kres_value = 0, kres_timestamp = Fin 5, kres_node_id = ''node-1''\<rparr>)"
    using example_read_run by auto
  then show "ll_read_answers (\<lambda>x. ''h'') (example_cluster 2 2) (example_run example_write)
     (example_run (example_write @ example_read))
     \<lparr>hr_method = ''GET'', hr_url = example_url 8003, hr_params = [], hr_json = None\<rparr> ''k'' =
     [Http_ok \<lparr>kres_key = ''k'', kres_value = 0, kres_timestamp = Fin 5, kres_node_id = ''node-1''\<rparr>]"
    by (simp add: ll_read_answers_def ll_read_by_def example_url_def List.map_filter_def example_write_run(1))
qed

definition example_end :: "int action list measured" where
  "example_end = measured_run example_service example_code (measured_start [] example_plan) example_events"

lemma example_end_eq:
  "example_end = \<lparr>me_service = example_write @ example_read, me_load = example_load 4,
     me_began = (\<lambda>i. [])(0 := example_write)\<rparr>"
  unfolding example_end_def example_events_def
  by (simp add: measured_run_append measured_run_services measured_start_def example_load_steps begun_def
      reply_possible_def example_load_calls ll_service_sel example_answers read_outcome_possible_def
      write_outcome_possible_def read_reply_def write_reply_def del: load_step.simps cluster_step.simps)

lemma example_gather:
  "\<exists>results. load_gather (example_load 4) = Some (Inr results) \<and> comparable_reads (merge_all results) = 1"
  by (simp add: load_gather_def worker_done_def example_load_eval merge_all_def stats_merge_def stats_init_def)

theorem strict_quorum_measures_no_staleness_witness:
  "\<exists>results. load_gather (me_load example_end) = Some (Inr results) \<and> comparable_reads (merge_all results) = 1 \<and>
     staleness_rate (merge_all results) = 0 \<and> stale_events (merge_all results) = []"
proof -
  obtain results where results: "load_gather (me_load example_end) = Some (Inr results)"
      "comparable_reads (merge_all results) = 1"
    using example_gather by (auto simp: example_end_eq)
  have "clean_run example_id key (me_service example_end)" for key
    by (simp add: example_end_eq clean_run_def example_write_def example_read_def deletes_def)
  then have "staleness_rate (merge_all results) = 0 \<and> stale_events (merge_all results) = []"
    using results(1) example_net_plain plain_k
    by (intro strict_quorum_measures_no_staleness [OF example_end_def [unfolded example_code_def]])
      (simp_all add: example_plan_def, auto)
  with results show ?thesis by blast
qed

end
