(* ===== verification/KV_LoadLeader.thy ===== *)
theory KV_LoadLeader
  imports KV_LeaderCluster KV_Measured "HOL-Library.Sublist"
begin

text \<open>
  The leader-follower load test run against a leader and its followers: the service of \<open>KV_Measured\<close> made of
  the runs of \<open>KV_LeaderCluster\<close>, whose state is again the list of the steps made so far.
\<close>

section \<open>The leader and its followers as a service\<close>

abbreviation lf_hist :: "leader_config \<Rightarrow> string \<Rightarrow> (nat \<Rightarrow> string) \<Rightarrow> int lf_action list \<Rightarrow> int lf_cluster" where
  "lf_hist config node_id fid acts \<equiv> lf_run config node_id fid acts lf_init"

text \<open>
  A read is served at once by the follower its URL names, at any moment since the call began; a write by a
  replication that the leader started since.
\<close>

definition lf_read_answers ::
    "(pyval \<Rightarrow> string) \<Rightarrow> leader_config \<Rightarrow> string \<Rightarrow> (nat \<Rightarrow> string) \<Rightarrow> int lf_action list \<Rightarrow> int lf_action list \<Rightarrow>
     http_request \<Rightarrow> string \<Rightarrow> int kv_response http_result list" where
  "lf_read_answers fmt config node_id fid acts acts' rq key =
     [get_key (lfc_followers (lf_hist config node_id fid (take k acts')) t) key.
        k \<leftarrow> [length acts..<Suc (length acts')],
        t \<leftarrow> [0..<length (lc_followers config)],
        hr_url rq = lf_base_url fmt (lc_followers config ! t) @ ''/kv/'' @ key]"

definition lf_write_by :: "http_request \<Rightarrow> string \<Rightarrow> int leader_write \<Rightarrow> bool" where
  "lf_write_by rq key wr \<longleftrightarrow>
     hr_url rq = LEADER_URL @ ''/kv/'' @ key \<and> rreq_key (lw_request wr) = key \<and>
     hr_json rq = Some (rreq_value (lw_request wr))"

definition lf_write_answers ::
    "int lf_cluster \<Rightarrow> int lf_cluster \<Rightarrow> http_request \<Rightarrow> string \<Rightarrow> put_response http_result list" where
  "lf_write_answers s s' rq key =
     List.map_filter lw_answer (filter (lf_write_by rq key) (drop (length (lfc_writes s)) (lfc_writes s')))"

definition lf_service ::
    "(pyval \<Rightarrow> string) \<Rightarrow> leader_config \<Rightarrow> string \<Rightarrow> (nat \<Rightarrow> string) \<Rightarrow> (int lf_action list, int lf_action) service" where
  "lf_service fmt config node_id fid =
     \<lparr>sv_step = (\<lambda>acts a. acts @ [a]),
      sv_read = (\<lambda>acts acts' rq key. read_outcome_possible (lf_read_answers fmt config node_id fid acts acts' rq key)),
      sv_write = (\<lambda>acts acts' rq key.
        write_outcome_possible
          (lf_write_answers (lf_hist config node_id fid acts) (lf_hist config node_id fid acts') rq key))\<rparr>"

section \<open>Lemmas: answers are final and carry the write's timestamp\<close>

definition lf_write_kept :: "'v leader_write \<Rightarrow> 'v leader_write \<Rightarrow> bool" where
  "lf_write_kept wr wr' \<longleftrightarrow>
     lw_request wr' = lw_request wr \<and> (lw_answer wr \<noteq> None \<longrightarrow> lw_answer wr' = lw_answer wr)"

definition lf_grows :: "'v lf_cluster \<Rightarrow> 'v lf_cluster \<Rightarrow> bool" where
  "lf_grows s s' \<longleftrightarrow> length (lfc_writes s) \<le> length (lfc_writes s') \<and>
     (\<forall>i < length (lfc_writes s). lf_write_kept (lfc_writes s ! i) (lfc_writes s' ! i))"

lemma lf_write_kept_refl [simp]: "lf_write_kept wr wr"
  by (simp add: lf_write_kept_def)

lemma lf_write_kept_trans: "lf_write_kept a b \<Longrightarrow> lf_write_kept b c \<Longrightarrow> lf_write_kept a c"
  by (auto simp: lf_write_kept_def)

lemma lf_grows_trans: "lf_grows s s' \<Longrightarrow> lf_grows s' s'' \<Longrightarrow> lf_grows s s''"
  by (auto simp: lf_grows_def intro: lf_write_kept_trans)

lemma lf_grows_step: "lf_grows s (lf_step config node_id fid s a)"
proof (cases a)
  case (Leader_request r)
  then show ?thesis by (cases r) (auto simp: lf_grows_def lf_start_put_def Let_def nth_append split: prod.split)
next
  case (Send_delivered i t)
  then show ?thesis
    by (auto simp: lf_grows_def send_delivered_def Let_def nth_list_update lf_write_kept_def split: prod.split)
next
  case (Send_ended i t was_closed r)
  then show ?thesis by (auto simp: lf_grows_def send_ended_def Let_def nth_list_update lf_write_kept_def)
next
  case (Put_pass i remaining ev)
  then show ?thesis by (auto simp: lf_grows_def put_pass_def Let_def nth_list_update lf_write_kept_def)
qed (simp add: lf_grows_def)

lemma lf_grows_run: "lf_grows s (lf_run config node_id fid acts s)"
  by (induction acts arbitrary: s) (auto intro: lf_grows_trans [OF lf_grows_step], simp add: lf_grows_def)

definition lf_stamped :: "'v leader_write \<Rightarrow> bool" where
  "lf_stamped wr \<longleftrightarrow>
     (\<forall>res. lw_answer wr = Some res \<longrightarrow> http_status res = 200 \<longrightarrow>
        (\<exists>resp. res = Http_ok resp \<and> pres_timestamp resp = rreq_timestamp (lw_request wr)))"

lemma lf_stamped_pass: "lf_stamped wr \<Longrightarrow> lf_stamped (put_pass_write config remaining ev wr)"
  by (auto simp: lf_stamped_def put_pass_write_def resolve_put_leader_def http_error_def Let_def
      split: if_splits round.splits sum.splits)

definition lf_answers_stamped :: "'v lf_cluster \<Rightarrow> bool" where
  "lf_answers_stamped s \<longleftrightarrow> (\<forall>wr \<in> set (lfc_writes s). lf_stamped wr)"

lemma lf_stamped_update:
  "lf_answers_stamped s \<Longrightarrow> lfc_writes s' = (lfc_writes s)[i := wr] \<Longrightarrow> lf_stamped wr \<Longrightarrow> lf_answers_stamped s'"
  unfolding lf_answers_stamped_def using set_update_subset_insert by fastforce

lemma lf_stamped_step:
  assumes "lf_answers_stamped s"
  shows "lf_answers_stamped (lf_step config node_id fid s a)"
proof -
  have old: "lf_stamped (lfc_writes s ! i)" if "i < length (lfc_writes s)" for i
    using assms that by (simp add: lf_answers_stamped_def)
  show ?thesis
  proof (cases a)
    case (Leader_request r)
    then show ?thesis using assms
      by (cases r) (auto simp: lf_answers_stamped_def lf_start_put_def Let_def lf_stamped_def split: prod.split)
  next
    case (Send_delivered i t)
    then show ?thesis using assms old [of i]
      by (auto simp: send_delivered_def Let_def split: prod.split intro!: lf_stamped_update [OF assms])
        (simp add: lf_stamped_def)
  next
    case (Send_ended i t was_closed r)
    then show ?thesis using assms old [of i]
      by (auto simp: send_ended_def Let_def intro!: lf_stamped_update [OF assms]) (simp add: lf_stamped_def)
  next
    case (Put_pass i remaining ev)
    then show ?thesis using assms old [of i] lf_stamped_pass
      by (auto simp: put_pass_def Let_def intro!: lf_stamped_update [OF assms])
  qed (use assms in \<open>simp add: lf_answers_stamped_def\<close>)
qed

lemma lf_stamped_run: "lf_answers_stamped (lf_hist config node_id fid acts)"
  by (rule lf_run_induct) (simp_all add: lf_stamped_step, simp add: lf_answers_stamped_def lf_init_def)

section \<open>What the leader promises\<close>

definition lf_acked ::
    "leader_config \<Rightarrow> string \<Rightarrow> (nat \<Rightarrow> string) \<Rightarrow> int lf_action list \<Rightarrow> string \<Rightarrow> pyfloat \<Rightarrow> bool" where
  "lf_acked config node_id fid acts key t \<longleftrightarrow>
     (\<exists>wr \<in> set (lfc_writes (lf_hist config node_id fid acts)).
        rreq_key (lw_request wr) = key \<and> rreq_timestamp (lw_request wr) = t \<and>
        (\<exists>resp. lw_answer wr = Some (Http_ok resp)))"

text \<open>The histories on which every acknowledged write is everywhere.\<close>

definition lf_full :: "leader_config \<Rightarrow> string \<Rightarrow> (nat \<Rightarrow> string) \<Rightarrow> int lf_action list \<Rightarrow> bool" where
  "lf_full config node_id fid acts \<longleftrightarrow>
     lc_ack_required config = int (length (lc_followers config)) \<and> (\<forall>key. lf_clean node_id fid key acts)"

lemma lf_clean_prefix: "prefix acts acts' \<Longrightarrow> lf_clean node_id fid key acts' \<Longrightarrow> lf_clean node_id fid key acts"
  by (auto simp: prefix_def lf_clean_def)

lemma lf_acked_later:
  assumes "prefix acts acts'" "lf_acked config node_id fid acts key t"
  shows "lf_acked config node_id fid acts' key t"
proof -
  let ?s = "lf_hist config node_id fid acts" and ?s' = "lf_hist config node_id fid acts'"
  obtain wr resp where wr: "wr \<in> set (lfc_writes ?s)" "rreq_key (lw_request wr) = key"
    "rreq_timestamp (lw_request wr) = t" "lw_answer wr = Some (Http_ok resp)"
    using assms(2) by (auto simp: lf_acked_def)
  moreover from wr(1) obtain i where i: "i < length (lfc_writes ?s)" "wr = lfc_writes ?s ! i"
    by (auto simp: in_set_conv_nth)
  moreover have "lf_grows ?s ?s'"
    using assms(1) by (auto simp: prefix_def lf_run_append lf_grows_run)
  ultimately have "i < length (lfc_writes ?s')" "lf_write_kept wr (lfc_writes ?s' ! i)"
    by (auto simp: lf_grows_def)
  then show ?thesis
    using wr unfolding lf_acked_def by (intro bexI [of _ "lfc_writes ?s' ! i"]) (auto simp: lf_write_kept_def)
qed

lemma lf_read_fresh:
  assumes later: "prefix acts acts'" and full: "lf_full config node_id fid acts'"
    and acked: "lf_acked config node_id fid acts key t"
    and res: "res \<in> set (lf_read_answers fmt config node_id fid acts acts' rq key)"
  shows "\<exists>resp. res = Http_ok resp \<and> \<not> flt (kres_timestamp resp) t"
proof -
  obtain wr wresp where wr: "wr \<in> set (lfc_writes (lf_hist config node_id fid acts))" "rreq_key (lw_request wr) = key"
    "rreq_timestamp (lw_request wr) = t" "lw_answer wr = Some (Http_ok wresp)"
    using acked by (auto simp: lf_acked_def)
  obtain k u where k: "length acts \<le> k" "u < length (lc_followers config)"
    "res = get_key (lfc_followers (lf_hist config node_id fid (take k acts')) u) key"
    using res by (auto simp: lf_read_answers_def split: if_splits)
  obtain more where more: "take k acts' = acts @ more"
    using later k(1) by (auto simp: prefix_def)
  have "lf_clean node_id fid key (acts @ more)"
    using full lf_clean_prefix [OF take_is_prefix [of k acts']] by (simp add: lf_full_def flip: more)
  then have "holds (lfc_followers (lf_hist config node_id fid (take k acts')) u) key (rreq_entry (lw_request wr))"
    using acked_write_held [OF refl refl _ wr(1,2,4), of more] full k(2) more
    by (simp add: lf_full_def lf_run_append)
  then show ?thesis
    using k(3) wr(3) by (auto simp: holds_def get_key_def stamp_def rreq_entry_def less_eq_prod_def flt_def)
qed

lemma lf_write_acked:
  assumes "res \<in> set (lf_write_answers s (lf_hist config node_id fid acts') rq key)" "http_status res = 200"
  shows "\<exists>resp. res = Http_ok resp \<and> lf_acked config node_id fid acts' key (pres_timestamp resp)"
proof -
  obtain wr where wr: "wr \<in> set (lfc_writes (lf_hist config node_id fid acts'))" "lf_write_by rq key wr" "lw_answer wr = Some res"
    using assms(1) by (auto simp: lf_write_answers_def List.map_filter_def dest: in_set_dropD)
  then have "lf_stamped wr" using lf_stamped_run by (auto simp: lf_answers_stamped_def)
  then obtain resp where "res = Http_ok resp" "pres_timestamp resp = rreq_timestamp (lw_request wr)"
    using wr(3) assms(2) by (auto simp: lf_stamped_def)
  then show ?thesis using wr by (auto simp: lf_acked_def lf_write_by_def)
qed

interpretation lf_honest: honest_service "lf_service fmt config node_id fid" prefix "lf_full config node_id fid"
    "lf_acked config node_id fid" "\<lambda>rq. True" "\<lambda>key. True" for fmt config node_id fid
proof
  fix acts acts' :: "int lf_action list" and key t rq status body
  assume "prefix acts acts'" "lf_full config node_id fid acts'" "lf_acked config node_id fid acts key t"
    "sv_read (lf_service fmt config node_id fid) acts acts' rq key (Replied status body)" "status = 200 \<or> status = 404"
  then show "status = 200 \<and> (\<exists>t'. body = Inr t' \<and> \<not> flt t' t)"
    by (intro read_outcome_fresh [OF _ lf_read_fresh]) (simp_all add: lf_service_def)
next
  fix acts acts' :: "int lf_action list" and key rq reply
  assume "sv_write (lf_service fmt config node_id fid) acts acts' rq key (Replied 200 reply)"
  then show "\<exists>b t. reply = Inr b \<and> wb_timestamp b = Inr t \<and> lf_acked config node_id fid acts' key t"
    by (intro write_outcome_acked [OF _ lf_write_acked]) (simp_all add: lf_service_def)
next
  fix acts acts' :: "int lf_action list" and key t
  show "lf_full config node_id fid acts" if "prefix acts acts'" "lf_full config node_id fid acts'"
    using that lf_clean_prefix [OF that(1)] by (simp add: lf_full_def)
  show "lf_acked config node_id fid acts' key t" if "prefix acts acts'" "lf_acked config node_id fid acts key t"
    using that by (rule lf_acked_later)
  show "prefix acts (sv_step (lf_service fmt config node_id fid) acts a)" for a
    by (simp add: lf_service_def)
qed (auto intro: prefix_order.trans)

section \<open>What the worker's code makes of replies\<close>

lemma lf_begin_made:
  assumes "wc_begin (lf_code fmt followers node_ids leader_node_id) sh item s = Inr (s', p, sh')"
  shows "ls_sot sh' = ls_sot sh \<and> (no_stale s \<longrightarrow> no_stale s') \<and>
    (\<forall>call. p = Some call \<longrightarrow> properly_made (\<lambda>rq. True) (ls_sot sh) call \<and> pending_key call = rp_key item)"
  using assms
  by (cases "rp_is_read item")
    (auto simp: lf_code_def lf_begin_request_def lf_begin_read_def lf_begin_write_def sot_snapshot_def Let_def
      no_stale_def bind_exn_Inr_iff split: option.splits prod.splits)

lemma lf_end_read_fair:
  "wc_end_read (lf_code fmt followers node_ids leader_node_id) now s key node_id expected outcome lag = Inr s' \<Longrightarrow>
     fresh_reply expected outcome \<Longrightarrow> no_stale s \<Longrightarrow> no_stale s'"
  by (auto simp: lf_code_def lf_end_read_def fresh_reply_def no_stale_def bind_exn_Inr_iff Let_def
      split: http_outcome.splits if_splits)

lemma lf_end_write_records:
  "wc_end_write (lf_code fmt followers node_ids leader_node_id) now s sot key node_id v reply = Inr (s', sot') \<Longrightarrow>
     (no_stale s \<longrightarrow> no_stale s') \<and>
     (sot' = sot \<or> (\<exists>b t. reply = Replied 200 (Inr b) \<and> wb_timestamp b = Inr t \<and> sot' = sot_record sot key v t))"
  by (auto simp: lf_code_def lf_end_write_def no_stale_def bind_exn_Inr_iff split: http_outcome.splits if_splits)

interpretation lf_measured: measured_test "lf_service fmt config node_id fid" prefix "lf_full config node_id fid"
    "lf_acked config node_id fid" "\<lambda>rq. True" "\<lambda>key. True" "lf_code fmt followers node_ids leader_node_id"
  for fmt config node_id fid followers node_ids leader_node_id
  by unfold_locales (erule lf_begin_made | erule (2) lf_end_read_fair | erule lf_end_write_records)+

section \<open>Properties\<close>

text \<open>
  C3. Waiting for every follower buys consistent reads: run the leader-follower load test, with any number
  of workers and any plan, against a leader that requires an ack of each follower. However the workers, the
  replicate calls and their losses interleave and whatever other clients do, the test reports a staleness
  rate of zero and no stale event, provided nothing is deleted and writes carry real timestamps.
\<close>

theorem full_acks_measure_no_staleness:
  assumes "m = measured_run (lf_service fmt config node_id fid) (lf_code fmt (lc_followers config) node_ids leader_node_id)
      (measured_start [] chunks) evs"
    and "lc_ack_required config = int (length (lc_followers config))"
    and "\<And>key. lf_clean node_id fid key (me_service m)"
    and "load_gather (me_load m) = Some (Inr results)"
  shows "staleness_rate (merge_all results) = 0 \<and> stale_events (merge_all results) = []"
  using assms by (intro lf_measured.measures_no_staleness) (auto simp: lf_full_def)

text \<open>One worker writes a key, which both followers acknowledge, and reads it from the second.\<close>

definition full_plan :: "request_plan list list" where
  "full_plan = [[\<lparr>rp_is_read = False, rp_key = ''k'', rp_read_target_index = None\<rparr>,
     \<lparr>rp_is_read = True, rp_key = ''k'', rp_read_target_index = Some 1\<rparr>]]"

definition full_write :: "int lf_action list" where
  "full_write = [Leader_request (Req_put ''k'' \<lparr>preq_value = 0\<rparr> (Fin 5)), Send_delivered 0 0, Send_ended 0 0 False ack_call,
     Put_pass 0 (Fin 2) (Completed [0]), Send_delivered 0 1, Send_ended 0 1 False ack_call,
     Put_pass 0 (Fin 1) (Completed [1]), Put_pass 0 (Fin 1) (Completed [])]"

abbreviation full_run :: "int lf_action list \<Rightarrow> int lf_cluster" where
  "full_run \<equiv> lf_hist (example_leader 2) ''leader'' follower_name"

lemma full_write_run:
  "map (\<lambda>wr. (rreq_key (lw_request wr), rreq_value (lw_request wr), lw_answer wr)) (lfc_writes (full_run full_write)) =
     [(''k'', 0, Some (Http_ok \<lparr>pres_applied = True, pres_timestamp = Fin 5\<rparr>))]"
  "get_key (lfc_followers (full_run full_write) 1) ''k'' =
     Http_ok \<lparr>kres_key = ''k'', kres_value = 0, kres_timestamp = Fin 5, kres_node_id = ''leader''\<rparr>"
  by (simp_all add: full_write_def KV_LeaderCluster.lf_eval)

definition full_code :: worker_code where
  "full_code = lf_code (\<lambda>x. ''h'') (lc_followers (example_leader 2))
     (map (\<lambda>f. (f, ''follower'')) (lc_followers (example_leader 2))) ''leader''"

definition full_events :: "int lf_action measured_event list" where
  "full_events =
     [Worker (Begin 0)] @ map Service full_write @
     [Worker (End_write 0 (Fin 6) (Replied 200 (Inr \<lparr>wb_applied = True, wb_timestamp = Inr (Fin 5)\<rparr>))),
      Worker (Begin 0), Worker (End_read 0 (Fin 8) (Replied 200 (Inr (Fin 5))) (Httpx_failed Connect_error []))]"

text \<open>What the worker does at its four steps.\<close>

definition full_load :: "nat \<Rightarrow> load_state" where
  "full_load n = foldl (load_step full_code) (load_start full_plan) (take n
     [Begin 0, End_write 0 (Fin 6) (Replied 200 (Inr \<lparr>wb_applied = True, wb_timestamp = Inr (Fin 5)\<rparr>)),
      Begin 0, End_read 0 (Fin 8) (Replied 200 (Inr (Fin 5))) (Httpx_failed Connect_error [])])"

lemmas full_load_eval = full_load_def full_code_def full_plan_def example_leader_def
  load_start_def start_worker_def shared_init_def pending_at_def
  lf_code_def lf_begin_request_def lf_begin_write_def lf_begin_read_def lf_end_write_def
  lf_end_read_def lf_base_url_def next_value_def py_item_def sot_record_def sot_snapshot_def flt_def Let_def

definition full_url :: string where
  "full_url = lf_base_url (\<lambda>x. ''h'') \<lparr>follower_host = PStr ''127.0.0.1'', follower_port = 8002\<rparr> @ ''/kv/k''"

lemma full_load_calls:
  "pending_at (full_load 0) 0 = None"
  "pending_at (full_load (Suc 0)) 0 = Some (Pending_write
     \<lparr>hr_method = ''PUT'', hr_url = LEADER_URL @ ''/kv/k'', hr_params = [], hr_json = Some 0\<rparr> ''k'' ''leader'' 0)"
  "pending_at (full_load 2) 0 = None"
  "pending_at (full_load 3) 0 = Some (Pending_read
     \<lparr>hr_method = ''GET'', hr_url = full_url, hr_params = [], hr_json = None\<rparr> ''k'' ''follower''
     \<lparr>src_value = 0, src_timestamp = Fin 5\<rparr>)"
  by (simp_all add: full_load_eval full_url_def)

lemma full_load_steps:
  "load_start full_plan = full_load 0"
  "load_step full_code (full_load 0) (Begin 0) = full_load (Suc 0)"
  "load_step full_code (full_load (Suc 0))
     (End_write 0 (Fin 6) (Replied 200 (Inr \<lparr>wb_applied = True, wb_timestamp = Inr (Fin 5)\<rparr>))) = full_load 2"
  "load_step full_code (full_load 2) (Begin 0) = full_load 3"
  "load_step full_code (full_load 3)
     (End_read 0 (Fin 8) (Replied 200 (Inr (Fin 5))) (Httpx_failed Connect_error [])) = full_load 4"
  by (simp_all add: full_load_def del: load_step.simps)

lemma full_answers:
  "lf_write_answers lf_init (full_run full_write)
     \<lparr>hr_method = ''PUT'', hr_url = LEADER_URL @ ''/kv/k'', hr_params = [], hr_json = Some 0\<rparr> ''k'' =
     [Http_ok \<lparr>pres_applied = True, pres_timestamp = Fin 5\<rparr>]"
  "lf_read_answers (\<lambda>x. ''h'') (example_leader 2) ''leader'' follower_name full_write full_write
     \<lparr>hr_method = ''GET'', hr_url = full_url, hr_params = [], hr_json = None\<rparr> ''k'' =
     [Http_ok \<lparr>kres_key = ''k'', kres_value = 0, kres_timestamp = Fin 5, kres_node_id = ''leader''\<rparr>]"
proof -
  obtain wr where "lfc_writes (full_run full_write) = [wr]" "rreq_key (lw_request wr) = ''k''"
    "rreq_value (lw_request wr) = 0" "lw_answer wr = Some (Http_ok \<lparr>pres_applied = True, pres_timestamp = Fin 5\<rparr>)"
    using full_write_run(1) by auto
  then show "lf_write_answers lf_init (full_run full_write)
     \<lparr>hr_method = ''PUT'', hr_url = LEADER_URL @ ''/kv/k'', hr_params = [], hr_json = Some 0\<rparr> ''k'' =
     [Http_ok \<lparr>pres_applied = True, pres_timestamp = Fin 5\<rparr>]"
    by (simp add: lf_write_answers_def lf_write_by_def List.map_filter_def lf_init_def)
  show "lf_read_answers (\<lambda>x. ''h'') (example_leader 2) ''leader'' follower_name full_write full_write
     \<lparr>hr_method = ''GET'', hr_url = full_url, hr_params = [], hr_json = None\<rparr> ''k'' =
     [Http_ok \<lparr>kres_key = ''k'', kres_value = 0, kres_timestamp = Fin 5, kres_node_id = ''leader''\<rparr>]"
    using full_write_run(2) by (simp add: lf_read_answers_def full_url_def lf_base_url_def example_leader_def numeral_2_eq_2)
qed

lemma lf_service_sel:
  "sv_read (lf_service fmt config node_id fid) acts acts' rq key =
     read_outcome_possible (lf_read_answers fmt config node_id fid acts acts' rq key)"
  "sv_write (lf_service fmt config node_id fid) acts acts' rq key =
     write_outcome_possible (lf_write_answers (lf_hist config node_id fid acts) (lf_hist config node_id fid acts') rq key)"
  by (simp_all add: lf_service_def)

lemma lf_run_services:
  "measured_run (lf_service fmt config node_id fid) code m (map Service acts) = m\<lparr>me_service := me_service m @ acts\<rparr>"
  by (induction acts arbitrary: m) (simp_all add: lf_service_def)

definition full_end :: "int lf_action list measured" where
  "full_end = measured_run (lf_service (\<lambda>x. ''h'') (example_leader 2) ''leader'' follower_name) full_code
     (measured_start [] full_plan) full_events"

lemma full_end_eq:
  "full_end = \<lparr>me_service = full_write, me_load = full_load 4, me_began = (\<lambda>i. [])(0 := full_write)\<rparr>"
  unfolding full_end_def full_events_def
  by (simp add: measured_run_append lf_run_services measured_start_def full_load_steps begun_def
      reply_possible_def full_load_calls lf_service_sel full_answers [simplified] read_outcome_possible_def
      write_outcome_possible_def read_reply_def write_reply_def del: load_step.simps lf_step.simps)

theorem full_acks_measure_no_staleness_witness:
  "\<exists>results. load_gather (me_load full_end) = Some (Inr results) \<and> comparable_reads (merge_all results) = 1 \<and>
     staleness_rate (merge_all results) = 0 \<and> stale_events (merge_all results) = []"
proof -
  have "\<exists>results. load_gather (full_load 4) = Some (Inr results) \<and> comparable_reads (merge_all results) = 1"
    by (simp add: load_gather_def worker_done_def full_load_eval merge_all_def stats_merge_def stats_init_def)
  then obtain results where results: "load_gather (me_load full_end) = Some (Inr results)"
      "comparable_reads (merge_all results) = 1"
    by (auto simp: full_end_eq)
  have "lf_clean ''leader'' follower_name key (me_service full_end)" for key
    by (simp add: full_end_eq lf_clean_def full_write_def)
  then have "staleness_rate (merge_all results) = 0 \<and> stale_events (merge_all results) = []"
    using results(1)
    by (intro full_acks_measure_no_staleness [OF full_end_def [unfolded full_code_def]]) simp_all
  with results show ?thesis by blast
qed

end
