(* ===== verification/KV_LoadQueue.thy ===== *)
theory KV_LoadQueue
  imports KV_Queue KV_Measured "HOL-Library.Sublist"
begin

text \<open>
  The message queue load test run against a producer, its topic and any number of followers: the service of
  \<open>KV_Measured\<close> made of their joint runs. Each follower sees the run of \<open>KV_Queue\<close> with the other followers left
  out, so what is proved there about one follower holds of each.
\<close>

section \<open>The producer, the topic and the followers together\<close>

text \<open>What a deployment fixes: the JSON codec, Kafka's partitioner, the topic and the processes.\<close>

record mq_deployment =
  md_dump :: "int replicate_request \<Rightarrow> string"
  md_parse :: "bytes \<Rightarrow> int replicate_request option"
  md_partitioner :: "bytes \<Rightarrow> nat"
  md_partitions :: nat
  md_producer_id :: string
  md_ports :: "int list"

text \<open>
  A PUT takes effect when its message reaches the log or its send fails; the timestamp it carries was read
  before, so timestamps need not grow along the log. Followers are numbered by their place in \<open>md_ports\<close>.
\<close>

datatype mqc_action =
    Put_request string int pyfloat send_result
  | Get_request nat string
  | Message_applied nat nat
  | Commit_ended nat commit_result
  | Follower_restarted nat

record mq_cluster =
  mqc_log :: kafka_log
  mqc_followers :: "nat \<Rightarrow> int mq_follower"

definition mqc_init :: mq_cluster where
  "mqc_init = \<lparr>mqc_log = (\<lambda>p. []), mqc_followers = (\<lambda>i. mq_follower_startup (\<lambda>p. None))\<rparr>"

definition mqc_put ::
    "mq_deployment \<Rightarrow> mq_cluster \<Rightarrow> string \<Rightarrow> int \<Rightarrow> pyfloat \<Rightarrow> send_result \<Rightarrow> put_response http_result \<times> kafka_log" where
  "mqc_put d s key v now sent =
     producer_put_key (md_dump d) (md_partitioner d) (md_producer_id d) True now sent key \<lparr>preq_value = v\<rparr> (mqc_log s)"

fun mqc_step :: "mq_deployment \<Rightarrow> mq_cluster \<Rightarrow> mqc_action \<Rightarrow> mq_cluster" where
  "mqc_step d s (Put_request key v now sent) = s\<lparr>mqc_log := snd (mqc_put d s key v now sent)\<rparr>"
| "mqc_step d s (Get_request i key) = s"
| "mqc_step d s (Message_applied i p) =
     s\<lparr>mqc_followers := (mqc_followers s)
         (i := consume_message (md_parse d) p (mqc_log s) (mqc_followers s i))\<rparr>"
| "mqc_step d s (Commit_ended i r) =
     s\<lparr>mqc_followers := (mqc_followers s)(i := end_commit r (mqc_followers s i))\<rparr>"
| "mqc_step d s (Follower_restarted i) =
     s\<lparr>mqc_followers := (mqc_followers s)(i := mq_follower_startup (mf_committed (mqc_followers s i)))\<rparr>"

definition mqc_hist :: "mq_deployment \<Rightarrow> mqc_action list \<Rightarrow> mq_cluster" where
  "mqc_hist d acts = foldl (mqc_step d) mqc_init acts"

section \<open>The service\<close>

text \<open>
  A read is served by the follower its URL names, a write by the producer, at a step of the history made
  since the call began.
\<close>

definition mqc_read_answers ::
    "mq_deployment \<Rightarrow> mqc_action list \<Rightarrow> mqc_action list \<Rightarrow> http_request \<Rightarrow> string \<Rightarrow> int kv_response http_result list" where
  "mqc_read_answers d acts acts' rq key =
     [get_key (mf_store (mqc_followers (mqc_hist d (take k acts')) i)) key.
        k \<leftarrow> [length acts..<length acts'], i \<leftarrow> [0..<length (md_ports d)],
        acts' ! k = Get_request i key \<and> hr_url rq = mq_base_url (md_ports d ! i) @ ''/kv/'' @ key]"

fun mqc_put_answer :: "mq_deployment \<Rightarrow> mq_cluster \<Rightarrow> http_request \<Rightarrow> string \<Rightarrow> mqc_action \<Rightarrow> put_response http_result option" where
  "mqc_put_answer d s rq key (Put_request key' v now sent) =
     (if key' = key \<and> hr_url rq = PRODUCER_URL @ ''/kv/'' @ key \<and> hr_json rq = Some v
      then Some (fst (mqc_put d s key v now sent)) else None)"
| "mqc_put_answer d s rq key _ = None"

definition mqc_write_answers ::
    "mq_deployment \<Rightarrow> mqc_action list \<Rightarrow> mqc_action list \<Rightarrow> http_request \<Rightarrow> string \<Rightarrow> put_response http_result list" where
  "mqc_write_answers d acts acts' rq key =
     List.map_filter (\<lambda>k. mqc_put_answer d (mqc_hist d (take k acts')) rq key (acts' ! k)) [length acts..<length acts']"

definition mqc_service :: "mq_deployment \<Rightarrow> (mqc_action list, mqc_action) service" where
  "mqc_service d =
     \<lparr>sv_step = (\<lambda>acts a. acts @ [a]),
      sv_read = (\<lambda>acts acts' rq key. read_outcome_possible (mqc_read_answers d acts acts' rq key)),
      sv_write = (\<lambda>acts acts' rq key. write_outcome_possible (mqc_write_answers d acts acts' rq key))\<rparr>"

section \<open>What each follower sees\<close>

text \<open>The events of \<open>KV_Queue\<close> that a step is for follower \<open>i\<close>.\<close>

definition reached_log :: "send_result \<Rightarrow> bool" where
  "reached_log sent = (case sent of Send_ok \<Rightarrow> True | Send_kafka_error exc ok \<Rightarrow> ok | Send_raises e ok \<Rightarrow> ok)"

fun mqc_events :: "mq_deployment \<Rightarrow> nat \<Rightarrow> mqc_action \<Rightarrow> mq_event list" where
  "mqc_events d i (Put_request key v now sent) =
     (if reached_log sent then [Logged (build_message (md_dump d) key v now (md_producer_id d))] else [])"
| "mqc_events d i (Get_request j key) = []"
| "mqc_events d i (Message_applied j p) = (if j = i then [Applied p] else [])"
| "mqc_events d i (Commit_ended j r) = (if j = i then [Committed r] else [])"
| "mqc_events d i (Follower_restarted j) = (if j = i then [Restarted] else [])"

definition mqc_view :: "nat \<Rightarrow> mq_cluster \<Rightarrow> int mq_state" where
  "mqc_view i s = \<lparr>ms_log = mqc_log s, ms_follower = mqc_followers s i\<rparr>"

abbreviation mqc_follower_run :: "mq_deployment \<Rightarrow> mq_event list \<Rightarrow> int mq_state \<Rightarrow> int mq_state" where
  "mqc_follower_run d \<equiv> mq_run (md_parse d) (md_partitioner d)"

lemma mqc_put_log:
  "snd (mqc_put d s key v now sent) =
     (if reached_log sent
      then publish (md_partitioner d) (build_message (md_dump d) key v now (md_producer_id d)) (mqc_log s)
      else mqc_log s)"
  by (simp add: mqc_put_def producer_put_key_def reached_log_def Let_def split: send_result.split)

lemma mqc_view_step: "mqc_view i (mqc_step d s a) = mqc_follower_run d (mqc_events d i a) (mqc_view i s)"
  by (cases a) (simp_all add: mqc_view_def mqc_put_log)

lemma mqc_hist_snoc [simp]: "mqc_hist d (acts @ [a]) = mqc_step d (mqc_hist d acts) a"
  by (simp add: mqc_hist_def)

lemma mqc_view_hist: "mqc_view i (mqc_hist d acts) = mqc_follower_run d (concat (map (mqc_events d i) acts)) mq_init"
proof (induction acts rule: rev_induct)
  case (snoc a acts)
  then show ?case by (simp add: mqc_view_step mq_run_append)
qed (simp add: mqc_hist_def mqc_init_def mqc_view_def mq_init_def)

section \<open>Histories without loss or lag\<close>

text \<open>
  The codec gives back what it was handed, clocks give numbers, messages go to a partition of the topic,
  and no follower is restarted. Commits may fail, which ends the follower's consume loop.
\<close>

fun mqc_regular :: "mq_deployment \<Rightarrow> mqc_action \<Rightarrow> bool" where
  "mqc_regular d (Put_request key v now sent) \<longleftrightarrow>
     now \<noteq> NaN \<and> md_partitioner d (utf8_encode key) < md_partitions d \<and>
     md_parse d (snd (build_message (md_dump d) key v now (md_producer_id d))) =
       Some \<lparr>rreq_key = key, rreq_value = v, rreq_timestamp = now, rreq_node_id = md_producer_id d\<rparr>"
| "mqc_regular d (Get_request i key) \<longleftrightarrow> True"
| "mqc_regular d (Message_applied i p) \<longleftrightarrow> True"
| "mqc_regular d (Commit_ended i r) \<longleftrightarrow> True"
| "mqc_regular d (Follower_restarted i) \<longleftrightarrow> False"

text \<open>Of the messages the follower's consumer has not reached yet, none writes the key.\<close>

definition mqc_caught_up :: "mq_deployment \<Rightarrow> mq_cluster \<Rightarrow> nat \<Rightarrow> string \<Rightarrow> bool" where
  "mqc_caught_up d s i key \<longleftrightarrow>
     (\<forall>p < md_partitions d. list_all
        (\<lambda>m. case md_parse d (snd m) of None \<Rightarrow> True | Some r \<Rightarrow> rreq_key r \<noteq> key)
        (drop (mf_position (mqc_followers s i) p) (mqc_log s p)))"

fun mqc_current :: "mq_deployment \<Rightarrow> mq_cluster \<Rightarrow> mqc_action \<Rightarrow> bool" where
  "mqc_current d s (Get_request i key) \<longleftrightarrow> mqc_caught_up d s i key"
| "mqc_current d s _ \<longleftrightarrow> True"

definition mqc_reads_current :: "mq_deployment \<Rightarrow> mqc_action list \<Rightarrow> bool" where
  "mqc_reads_current d acts \<longleftrightarrow> (\<forall>k < length acts. mqc_current d (mqc_hist d (take k acts)) (acts ! k))"

definition mqc_ok :: "mq_deployment \<Rightarrow> mqc_action list \<Rightarrow> bool" where
  "mqc_ok d acts \<longleftrightarrow> list_all (mqc_regular d) acts \<and> mqc_reads_current d acts"

lemma mqc_regular_events: "mqc_regular d a \<Longrightarrow> list_all (fresh_event (md_parse d) (md_partitioner d) (md_partitions d) key) (mqc_events d i a)"
  by (cases a) (auto simp: build_message_def)

lemma mqc_inv:
  assumes "list_all (mqc_regular d) acts"
  shows "mq_inv (md_parse d) (md_partitions d) key (mqc_view i (mqc_hist d acts))"
proof -
  have "list_all (fresh_event (md_parse d) (md_partitioner d) (md_partitions d) key) (concat (map (mqc_events d i) acts))"
    using assms mqc_regular_events by (induction acts) simp_all
  then show ?thesis unfolding mqc_view_hist by (intro mq_inv_run mq_inv_init)
qed

lemma mqc_ok_prefix:
  assumes "prefix acts acts'" "mqc_ok d acts'"
  shows "mqc_ok d acts"
proof -
  obtain later where later: "acts' = acts @ later" using assms(1) by (auto simp: prefix_def)
  have "mqc_current d (mqc_hist d (take k acts)) (acts ! k)" if "k < length acts" for k
    using assms(2) that unfolding later mqc_ok_def mqc_reads_current_def
    by (auto simp: nth_append dest: spec [of _ k])
  then show ?thesis using assms(2) by (simp add: later mqc_ok_def mqc_reads_current_def)
qed

section \<open>What the producer promises\<close>

text \<open>The producer has confirmed a PUT of the key with that timestamp.\<close>

definition mqc_acked :: "mqc_action list \<Rightarrow> string \<Rightarrow> pyfloat \<Rightarrow> bool" where
  "mqc_acked acts key t \<longleftrightarrow> (\<exists>v. Put_request key v t Send_ok \<in> set acts)"

lemma mqc_acked_later: "prefix acts acts' \<Longrightarrow> mqc_acked acts key t \<Longrightarrow> mqc_acked acts' key t"
  by (auto simp: prefix_def mqc_acked_def)

lemma mqc_log_step: "set (mqc_log s p) \<subseteq> set (mqc_log (mqc_step d s a) p)"
  by (cases a) (auto simp: mqc_put_log publish_def Let_def)

lemma mqc_put_logged:
  "Put_request key v now Send_ok \<in> set acts \<Longrightarrow>
     build_message (md_dump d) key v now (md_producer_id d) \<in>
       set (mqc_log (mqc_hist d acts) (md_partitioner d (utf8_encode key)))"
proof (induction acts rule: rev_induct)
  case (snoc a acts)
  then show ?case
    using mqc_log_step by (fastforce simp: mqc_put_log reached_log_def publish_def build_message_def Let_def)
qed simp

lemma mqc_acked_logged:
  assumes "list_all (mqc_regular d) acts" "mqc_acked acts key t"
  shows "\<exists>p. \<exists>e \<in> logged (md_parse d) key (mqc_log (mqc_hist d acts) p). vv_timestamp e = t"
proof -
  obtain v where put: "Put_request key v t Send_ok \<in> set acts" using assms(2) by (auto simp: mqc_acked_def)
  then have "mqc_regular d (Put_request key v t Send_ok)" using assms(1) unfolding list_all_iff by blast
  then have "rreq_entry \<lparr>rreq_key = key, rreq_value = v, rreq_timestamp = t, rreq_node_id = md_producer_id d\<rparr>
      \<in> logged (md_parse d) key (mqc_log (mqc_hist d acts) (md_partitioner d (utf8_encode key)))"
    by (intro loggedI [OF mqc_put_logged [OF put]]) simp_all
  then show ?thesis by (intro exI bexI) (simp_all add: rreq_entry_def)
qed

lemma mqc_current_holds:
  assumes inv: "mq_inv (md_parse d) (md_partitions d) key (mqc_view i s)" and current: "mqc_caught_up d s i key"
    and e: "e \<in> logged (md_parse d) key (mqc_log s p)"
  shows "holds (mf_store (mqc_followers s i)) key e"
proof -
  let ?o = "mf_position (mqc_followers s i) p"
  have "p < md_partitions d" using inv e by (auto simp: mq_inv_def Let_def mqc_view_def intro: ccontr)
  then have "logged (md_parse d) key (drop ?o (mqc_log s p)) = {}"
    using current by (fastforce simp: mqc_caught_up_def logged_def list_all_iff)
  then have "e \<in> logged (md_parse d) key (take ?o (mqc_log s p))"
    using e logged_simps(2) [of "md_parse d" key "take ?o (mqc_log s p)" "drop ?o (mqc_log s p)"] by simp
  then show ?thesis using inv by (auto simp: mq_inv_def Let_def mqc_view_def)
qed

lemma mqc_read_fresh:
  assumes later: "prefix acts acts'" and ok: "mqc_ok d acts'" and acked: "mqc_acked acts key t"
    and res: "res \<in> set (mqc_read_answers d acts acts' rq key)"
  shows "\<exists>resp. res = Http_ok resp \<and> \<not> flt (kres_timestamp resp) t"
proof -
  obtain k i where k: "length acts \<le> k" "k < length acts'" "acts' ! k = Get_request i key"
    "res = get_key (mf_store (mqc_followers (mqc_hist d (take k acts')) i)) key"
    using res by (auto simp: mqc_read_answers_def split: if_splits)
  let ?s = "mqc_hist d (take k acts')"
  have pre: "prefix acts (take k acts')" using later k(1) by (auto simp: prefix_def)
  have "mqc_current d ?s (acts' ! k)" using ok k(2) by (simp add: mqc_ok_def mqc_reads_current_def)
  then have current: "mqc_caught_up d ?s i key" by (simp add: k(3))
  have regular: "list_all (mqc_regular d) (take k acts')"
    using mqc_ok_prefix [OF take_is_prefix ok, of k] by (simp add: mqc_ok_def)
  note inv = mqc_inv [OF regular, of key i]
  obtain p e where e: "e \<in> logged (md_parse d) key (mqc_log ?s p)" "vv_timestamp e = t"
    using mqc_acked_logged [OF regular mqc_acked_later [OF pre acked]] by blast
  have "holds (mf_store (mqc_followers ?s i)) key e" by (rule mqc_current_holds [OF inv current e(1)])
  then show ?thesis
    using k(4) e(2) by (auto simp: holds_def get_key_def stamp_def less_eq_prod_def flt_def)
qed

lemma mqc_write_acked:
  assumes "res \<in> set (mqc_write_answers d acts acts' rq key)" "http_status res = 200"
  shows "\<exists>resp. res = Http_ok resp \<and> mqc_acked acts' key (pres_timestamp resp)"
proof -
  obtain k where k: "k < length acts'" "mqc_put_answer d (mqc_hist d (take k acts')) rq key (acts' ! k) = Some res"
    using assms(1) by (auto simp: mqc_write_answers_def List.map_filter_def)
  then obtain v now sent where put: "acts' ! k = Put_request key v now sent"
    "res = fst (mqc_put d (mqc_hist d (take k acts')) key v now sent)"
    by (cases "acts' ! k") (auto split: if_splits)
  then have "res = Http_ok \<lparr>pres_applied = True, pres_timestamp = now\<rparr>" "sent = Send_ok"
    using assms(2) by (auto simp: mqc_put_def producer_put_key_def http_error_def Let_def split: send_result.splits)
  then show ?thesis using put(1) nth_mem [OF k(1)] by (auto simp: mqc_acked_def)
qed

interpretation mqc_honest: honest_service "mqc_service d" prefix "mqc_ok d" mqc_acked "\<lambda>rq. True" "\<lambda>key. True" for d
proof
  fix acts acts' :: "mqc_action list" and key t rq status body
  assume "prefix acts acts'" "mqc_ok d acts'" "mqc_acked acts key t"
    "sv_read (mqc_service d) acts acts' rq key (Replied status body)" "status = 200 \<or> status = 404"
  then show "status = 200 \<and> (\<exists>t'. body = Inr t' \<and> \<not> flt t' t)"
    by (intro read_outcome_fresh [OF _ mqc_read_fresh]) (simp_all add: mqc_service_def)
next
  fix acts acts' :: "mqc_action list" and key rq reply
  assume "sv_write (mqc_service d) acts acts' rq key (Replied 200 reply)"
  then show "\<exists>b t. reply = Inr b \<and> wb_timestamp b = Inr t \<and> mqc_acked acts' key t"
    by (intro write_outcome_acked [OF _ mqc_write_acked]) (simp_all add: mqc_service_def)
next
  fix acts acts' :: "mqc_action list" and key t
  show "mqc_ok d acts" if "prefix acts acts'" "mqc_ok d acts'" using that by (rule mqc_ok_prefix)
  show "mqc_acked acts' key t" if "prefix acts acts'" "mqc_acked acts key t" using that by (rule mqc_acked_later)
  show "prefix acts (sv_step (mqc_service d) acts a)" for a by (simp add: mqc_service_def)
qed (auto intro: prefix_order.trans)

section \<open>What the worker's code makes of replies\<close>

lemma mq_begin_made:
  assumes "wc_begin (mq_code ports node_ids producer_node_id) sh item s = Inr (s', p, sh')"
  shows "ls_sot sh' = ls_sot sh \<and> (no_stale s \<longrightarrow> no_stale s') \<and>
    (\<forall>call. p = Some call \<longrightarrow> properly_made (\<lambda>rq. True) (ls_sot sh) call \<and> pending_key call = rp_key item)"
  using assms
  by (cases "rp_is_read item")
    (auto simp: mq_code_def mq_begin_request_def mq_begin_read_def mq_begin_write_def sot_snapshot_def Let_def
      no_stale_def bind_exn_Inr_iff split: option.splits prod.splits)

lemma mq_end_read_fair:
  "wc_end_read (mq_code ports node_ids producer_node_id) now s key node_id expected outcome lag = Inr s' \<Longrightarrow>
     fresh_reply expected outcome \<Longrightarrow> no_stale s \<Longrightarrow> no_stale s'"
  by (auto simp: mq_code_def mq_end_read_def fresh_reply_def no_stale_def bind_exn_Inr_iff Let_def
      split: http_outcome.splits if_splits)

lemma mq_end_write_records:
  "wc_end_write (mq_code ports node_ids producer_node_id) now s sot key node_id v reply = Inr (s', sot') \<Longrightarrow>
     (no_stale s \<longrightarrow> no_stale s') \<and>
     (sot' = sot \<or> (\<exists>b t. reply = Replied 200 (Inr b) \<and> wb_timestamp b = Inr t \<and> sot' = sot_record sot key v t))"
  by (auto simp: mq_code_def mq_end_write_def no_stale_def bind_exn_Inr_iff split: http_outcome.splits if_splits)

interpretation mqc_measured: measured_test "mqc_service d" prefix "mqc_ok d" mqc_acked "\<lambda>rq. True" "\<lambda>key. True"
    "mq_code ports node_ids producer_node_id"
  for d ports node_ids producer_node_id
  by unfold_locales (erule mq_begin_made | erule (2) mq_end_read_fair | erule mq_end_write_records)+

section \<open>Properties\<close>


text \<open>
  One worker writes a key, the second follower applies the message, its commit still under way, and the worker reads the key from it; the
  first follower has not read the topic yet.
\<close>

definition lag_deployment :: mq_deployment where
  "lag_deployment =
     \<lparr>md_dump = (\<lambda>m. ''a''),
      md_parse = (\<lambda>raw. if raw = ''a''
        then Some \<lparr>rreq_key = ''k'', rreq_value = 0, rreq_timestamp = Fin 5, rreq_node_id = ''producer''\<rparr> else None),
      md_partitioner = (\<lambda>k. 0), md_partitions = 1, md_producer_id = ''producer'', md_ports = [8201, 8202]\<rparr>"

definition lag_plan :: "request_plan list list" where
  "lag_plan = [[\<lparr>rp_is_read = False, rp_key = ''k'', rp_read_target_index = None\<rparr>,
     \<lparr>rp_is_read = True, rp_key = ''k'', rp_read_target_index = Some 1\<rparr>]]"

abbreviation lag_worker :: worker_code where
  "lag_worker \<equiv> mq_code (md_ports lag_deployment) [(8201, ''follower-1''), (8202, ''follower-2'')] ''producer''"

definition lag_history :: "mqc_action list" where
  "lag_history = [Put_request ''k'' 0 (Fin 5) Send_ok, Message_applied 1 0, Get_request 1 ''k'']"

definition lag_ends :: "load_event list" where
  "lag_ends =
     [Begin 0, End_write 0 (Fin 6) (Replied 200 (Inr \<lparr>wb_applied = True, wb_timestamp = Inr (Fin 5)\<rparr>)),
      Begin 0, End_read 0 (Fin 8) (Replied 200 (Inr (Fin 5))) (Httpx_failed Connect_error [])]"

definition lag_load :: "nat \<Rightarrow> load_state" where
  "lag_load n = foldl (load_step lag_worker) (load_start lag_plan) (take n lag_ends)"

definition lag_events :: "mqc_action measured_event list" where
  "lag_events = [Worker (lag_ends ! 0), Service (lag_history ! 0), Worker (lag_ends ! 1), Service (lag_history ! 1),
     Worker (lag_ends ! 2), Service (lag_history ! 2), Worker (lag_ends ! 3)]"

lemmas lag_eval = lag_load_def lag_ends_def lag_plan_def lag_deployment_def
  load_start_def start_worker_def shared_init_def pending_at_def
  mq_code_def mq_begin_request_def mq_begin_write_def mq_begin_read_def mq_end_write_def mq_end_read_def
  next_value_def py_item_def sot_record_def sot_snapshot_def flt_def Let_def

definition lag_write_request :: http_request where
  "lag_write_request = \<lparr>hr_method = ''PUT'', hr_url = PRODUCER_URL @ ''/kv/k'', hr_params = [], hr_json = Some 0\<rparr>"

definition lag_read_request :: http_request where
  "lag_read_request = \<lparr>hr_method = ''GET'', hr_url = mq_base_url 8202 @ ''/kv/k'', hr_params = [], hr_json = None\<rparr>"

lemma lag_load_calls:
  "pending_at (lag_load 0) 0 = None"
  "pending_at (lag_load (Suc 0)) 0 = Some (Pending_write lag_write_request ''k'' ''producer'' 0)"
  "pending_at (lag_load 2) 0 = None"
  "pending_at (lag_load 3) 0 =
     Some (Pending_read lag_read_request ''k'' ''follower-2'' \<lparr>src_value = 0, src_timestamp = Fin 5\<rparr>)"
  by (simp_all add: lag_eval lag_write_request_def lag_read_request_def)

lemma lag_load_steps:
  "load_start lag_plan = lag_load 0"
  "load_step lag_worker (lag_load 0) (lag_ends ! 0) = lag_load (Suc 0)"
  "load_step lag_worker (lag_load (Suc 0)) (lag_ends ! Suc 0) = lag_load 2"
  "load_step lag_worker (lag_load 2) (lag_ends ! 2) = lag_load 3"
  "load_step lag_worker (lag_load 3) (lag_ends ! 3) = lag_load 4"
  by (simp_all add: lag_load_def lag_ends_def del: load_step.simps)

lemmas lag_cluster_eval = mqc_hist_def mqc_init_def mqc_put_def producer_put_key_def build_message_def
  lag_history_def lag_deployment_def mq_eval

lemma lag_answers:
  "mqc_write_answers lag_deployment [] (take (Suc 0) lag_history) lag_write_request ''k'' =
     [Http_ok \<lparr>pres_applied = True, pres_timestamp = Fin 5\<rparr>]"
  "mqc_read_answers lag_deployment (take 2 lag_history) lag_history lag_read_request ''k'' =
     [Http_ok \<lparr>kres_key = ''k'', kres_value = 0, kres_timestamp = Fin 5, kres_node_id = ''producer''\<rparr>]"
  by (simp_all add: mqc_write_answers_def mqc_read_answers_def List.map_filter_def lag_write_request_def
      lag_read_request_def lag_cluster_eval get_key_def kv_get_def)

lemma mqc_service_sel:
  "sv_step (mqc_service d) acts a = acts @ [a]"
  "sv_read (mqc_service d) acts acts' rq key = read_outcome_possible (mqc_read_answers d acts acts' rq key)"
  "sv_write (mqc_service d) acts acts' rq key = write_outcome_possible (mqc_write_answers d acts acts' rq key)"
  by (simp_all add: mqc_service_def)

lemma lag_replies:
  "reply_possible (mqc_service lag_deployment) m (lag_ends ! 0)"
  "reply_possible (mqc_service lag_deployment) m (lag_ends ! 2)"
  "me_load m = lag_load (Suc 0) \<Longrightarrow> me_began m 0 = [] \<Longrightarrow> me_service m = take (Suc 0) lag_history \<Longrightarrow>
     reply_possible (mqc_service lag_deployment) m (lag_ends ! Suc 0)"
  "me_load m = lag_load 3 \<Longrightarrow> me_began m 0 = take 2 lag_history \<Longrightarrow> me_service m = lag_history \<Longrightarrow>
     reply_possible (mqc_service lag_deployment) m (lag_ends ! 3)"
  by (simp_all add: reply_possible_def lag_ends_def lag_load_calls lag_answers mqc_service_sel
      read_outcome_possible_def write_outcome_possible_def read_reply_def write_reply_def del: take_Suc_Cons)

lemma lag_begun:
  "begun \<lparr>me_service = acts, me_load = lag_load 0, me_began = began\<rparr> (lag_ends ! 0) = began(0 := acts)"
  "begun m (lag_ends ! Suc 0) = me_began m"
  "begun \<lparr>me_service = acts, me_load = lag_load 2, me_began = began\<rparr> (lag_ends ! 2) = began(0 := acts)"
  "begun m (lag_ends ! 3) = me_began m"
  by (simp_all add: begun_def lag_ends_def lag_load_calls)

definition lag_end :: "mqc_action list measured" where
  "lag_end = measured_run (mqc_service lag_deployment) lag_worker (measured_start [] lag_plan) lag_events"

lemma lag_end_eq:
  "lag_end = \<lparr>me_service = lag_history, me_load = lag_load 4, me_began = (\<lambda>i. [])(0 := take 2 lag_history)\<rparr>"
proof -
  have history: "[lag_history ! 0] = take (Suc 0) lag_history"
    "take (Suc 0) lag_history @ [lag_history ! Suc 0] = take 2 lag_history" "take 2 lag_history @ [lag_history ! 2] = lag_history"
    by (simp_all add: lag_history_def)
  show ?thesis
    unfolding lag_end_def lag_events_def
    by (simp add: measured_start_def lag_load_steps lag_replies lag_begun mqc_service_sel history
        del: load_step.simps)
qed


end
