(* ===== verification/KV_Entry.thy ===== *)
theory KV_Entry
  imports KV_Demos
begin

text \<open>
  The entry points: what \<open>argparse\<close> makes of a command line, the \<open>_parse_args\<close> and \<open>main\<close> of every
  node process and load test, and the configuration files the repository ships. A \<open>main\<close> is a function from
  the environment variables, the files and the command line to the process it starts: its identity,
  its configuration and its app, or the exception it ends with.
\<close>

section \<open>Command lines\<close>

text \<open>
  The parsers of this program register optional arguments only, each with one value, and \<open>-h\<close>. A parser
  is the list of its option strings in the order of registration. Every \<open>parser.error\<close> and the help
  text end in SystemExit.
\<close>

datatype arg_type = Str_arg | Int_arg | Float_arg | Help_arg

type_synonym arg_parser = "(string \<times> arg_type) list"

type_synonym environ = "string \<Rightarrow> string option"

datatype arg_token = Value | Known string "string option" | Unknown | Dashes

definition starts_with :: "string \<Rightarrow> string \<Rightarrow> bool" where
  "starts_with p s \<longleftrightarrow> take (length p) s = p"

text \<open>\<open>arg.split('=', 1)\<close> where there is a \<open>=\<close>.\<close>

definition split_eq :: "string \<Rightarrow> string \<times> string option" where
  "split_eq arg =
     (if CHR ''='' \<in> set arg
      then (takeWhile (\<lambda>c. c \<noteq> CHR ''='') arg, Some (tl (dropWhile (\<lambda>c. c \<noteq> CHR ''='') arg)))
      else (arg, None))"

text \<open>\<open>_get_option_tuples\<close>: the options an abbreviation may stand for.\<close>

definition option_tuples :: "arg_parser \<Rightarrow> string \<Rightarrow> (string \<times> string option) list" where
  "option_tuples spec arg =
     (if hd (tl arg) = CHR ''-''
      then let (p, explicit) = split_eq arg
           in map (\<lambda>(name, t). (name, explicit)) (filter (\<lambda>(name, t). starts_with p name) spec)
      else List.map_filter (\<lambda>(name, t).
             if name = take 2 arg then Some (name, Some (drop 2 arg))
             else if starts_with arg name then Some (name, None) else None) spec)"

text \<open>\<open>'^-\d+$|^-\d*\.\d+$'\<close>, on ASCII digits\<close>

definition is_digit :: "char \<Rightarrow> bool" where
  "is_digit c \<longleftrightarrow> py_digit c \<noteq> None"

definition negative_number :: "string \<Rightarrow> bool" where
  "negative_number arg \<longleftrightarrow>
     (case arg of
        [] \<Rightarrow> False
      | c # cs \<Rightarrow>
          let body = (if cs \<noteq> [] \<and> last cs = CHR 0x0A then butlast cs else cs);
              rest = dropWhile is_digit body
          in c = CHR ''-'' \<and>
             (if rest = [] then body \<noteq> []
              else hd rest = CHR ''.'' \<and> tl rest \<noteq> [] \<and> list_all is_digit (tl rest)))"

text \<open>\<open>_parse_optional\<close>: no option of this program looks like a negative number.\<close>

definition parse_optional :: "arg_parser \<Rightarrow> string \<Rightarrow> exn + arg_token" where
  "parse_optional spec arg =
     (if arg = [] \<or> hd arg \<noteq> CHR ''-'' then Inr Value
      else if map_of spec arg \<noteq> None then Inr (Known arg None)
      else if length arg = 1 then Inr Value
      else let (name, explicit) = split_eq arg
           in if explicit \<noteq> None \<and> map_of spec name \<noteq> None then Inr (Known name explicit)
              else case option_tuples spec arg of
                  [(name, explicit)] \<Rightarrow> Inr (Known name explicit)
                | _ # _ # _ \<Rightarrow> Inl (usage_error arg)
                | [] \<Rightarrow> if negative_number arg \<or> CHR '' '' \<in> set arg then Inr Value else Inr Unknown)"

text \<open>The classification of the arguments; after a \<open>--\<close> all of them are values.\<close>

fun classify_args :: "arg_parser \<Rightarrow> bool \<Rightarrow> string list \<Rightarrow> exn + (string \<times> arg_token) list" where
  "classify_args spec dashed [] = Inr []"
| "classify_args spec dashed (arg # args) =
     (if dashed then bind_exn (classify_args spec True args) (\<lambda>ts. Inr ((arg, Value) # ts))
      else if arg = ''--'' then bind_exn (classify_args spec True args) (\<lambda>ts. Inr ((arg, Dashes) # ts))
      else bind_exn (parse_optional spec arg) (\<lambda>t.
           bind_exn (classify_args spec False args) (\<lambda>ts. Inr ((arg, t) # ts))))"

text \<open>The \<open>type\<close> of an option applied to its value; \<open>float_of_str\<close> reads a float.\<close>

definition accepts_value :: "(string \<Rightarrow> pyfloat option) \<Rightarrow> arg_type \<Rightarrow> string \<Rightarrow> bool" where
  "accepts_value float_of_str t v \<longleftrightarrow>
     (case t of
        Str_arg \<Rightarrow> True
      | Int_arg \<Rightarrow> (case py_int_of_str v of Inl _ \<Rightarrow> False | Inr _ \<Rightarrow> True)
      | Float_arg \<Rightarrow> float_of_str v \<noteq> None
      | Help_arg \<Rightarrow> False)"

type_synonym namespace = "string \<Rightarrow> string option"

definition store_value ::
    "(string \<Rightarrow> pyfloat option) \<Rightarrow> arg_parser \<Rightarrow> string \<Rightarrow> string \<Rightarrow> namespace \<Rightarrow> exn + namespace" where
  "store_value float_of_str spec name v seen =
     (case map_of spec name of
        None \<Rightarrow> Inl (usage_error name)
      | Some t \<Rightarrow> if accepts_value float_of_str t v then Inr (seen(name \<mapsto> v)) else Inl (usage_error name))"

text \<open>
  The actions in order: an option takes its explicit value or the next argument, which must be a value; what
  is left over is kept as extra arguments.
\<close>

fun take_actions ::
    "(string \<Rightarrow> pyfloat option) \<Rightarrow> arg_parser \<Rightarrow> (string \<times> arg_token) list \<Rightarrow> namespace \<Rightarrow> bool \<Rightarrow>
     exn + namespace \<times> bool" where
  "take_actions float_of_str spec [] seen extras = Inr (seen, extras)"
| "take_actions float_of_str spec ((arg, t) # ts) seen extras =
     (case t of
        Known name (Some v) \<Rightarrow>
          (case store_value float_of_str spec name v seen of
             Inl e \<Rightarrow> Inl e
           | Inr seen' \<Rightarrow> take_actions float_of_str spec ts seen' extras)
      | Known name None \<Rightarrow>
          if map_of spec name = Some Help_arg then Inl (usage_error name)
          else (case ts of
                  (v, Value) # ts' \<Rightarrow>
                    (case store_value float_of_str spec name v seen of
                       Inl e \<Rightarrow> Inl e
                     | Inr seen' \<Rightarrow> take_actions float_of_str spec ts' seen' extras)
                | _ \<Rightarrow> Inl (usage_error name))
      | _ \<Rightarrow> take_actions float_of_str spec ts seen True)"

definition parse_args ::
    "(string \<Rightarrow> pyfloat option) \<Rightarrow> arg_parser \<Rightarrow> string list \<Rightarrow> exn + namespace" where
  "parse_args float_of_str spec argv =
     bind_exn (classify_args spec False argv) (\<lambda>ts.
     bind_exn (take_actions float_of_str spec ts Map.empty False) (\<lambda>(seen, extras).
       if extras then Inl (usage_error ''unrecognized arguments'') else Inr seen))"

definition help_options :: arg_parser where
  "help_options = [(''-h'', Help_arg), (''--help'', Help_arg)]"

text \<open>A stored integer, after \<open>type=int\<close> accepted it.\<close>

definition int_value :: "namespace \<Rightarrow> string \<Rightarrow> exn + int option" where
  "int_value seen name =
     (case seen name of None \<Rightarrow> Inr None | Some s \<Rightarrow> bind_exn (py_int_of_str s) (\<lambda>n. Inr (Some n)))"

section \<open>The parsers of the node processes\<close>

definition identity_options :: arg_parser where
  "identity_options = [(''--node-id'', Str_arg), (''--host'', Str_arg), (''--port'', Int_arg)]"

definition node_env_of :: "environ \<Rightarrow> node_env" where
  "node_env_of environ =
     \<lparr>env_node_id = environ ''NODE_ID'', env_host = environ ''HOST'', env_port = environ ''PORT''\<rparr>"

definition identity_flags_of :: "namespace \<Rightarrow> identity_flags" where
  "identity_flags_of seen =
     \<lparr>flag_node_id = seen ''--node-id'', flag_host = seen ''--host'', flag_port = seen ''--port''\<rparr>"

text \<open>
  The identity flags registered first, then the entry point's own: the defaults are read from the
  environment while the options are registered, so an unreadable one raises before anything is parsed.
\<close>

definition parse_node_args ::
    "(string \<Rightarrow> pyfloat option) \<Rightarrow> int \<Rightarrow> environ \<Rightarrow> exn + pyfloat \<Rightarrow> arg_parser \<Rightarrow> string list \<Rightarrow>
     exn + node_identity \<times> pyfloat \<times> namespace" where
  "parse_node_args float_of_str default_port environ delay_default options argv =
     bind_exn (port_default default_port (node_env_of environ)) (\<lambda>_.
     bind_exn delay_default (\<lambda>delay_ms.
     bind_exn (parse_args float_of_str (help_options @ identity_options @ options) argv) (\<lambda>seen.
     bind_exn (add_node_identity_args default_port (node_env_of environ) (identity_flags_of seen)) (\<lambda>ident.
       Inr (ident, delay_ms, seen)))))"

definition config_path :: "environ \<Rightarrow> string \<Rightarrow> string \<Rightarrow> namespace \<Rightarrow> string" where
  "config_path environ var dflt seen =
     (case seen ''--config'' of
        Some path \<Rightarrow> path
      | None \<Rightarrow> (case environ var of Some path \<Rightarrow> path | None \<Rightarrow> dflt))"

text \<open>The delay flags of the fault injection: \<open>float(os.environ.get(var, "0"))\<close> and the check of the value.\<close>

definition delay_env :: "(string \<Rightarrow> pyfloat option) \<Rightarrow> environ \<Rightarrow> string \<Rightarrow> exn + pyfloat" where
  "delay_env float_of_str environ var =
     (case environ var of
        None \<Rightarrow> Inr (Fin 0)
      | Some s \<Rightarrow> (case float_of_str s of None \<Rightarrow> Inl (ValueErr s) | Some x \<Rightarrow> Inr x))"

definition float_value :: "(string \<Rightarrow> pyfloat option) \<Rightarrow> namespace \<Rightarrow> string \<Rightarrow> exn + pyfloat option" where
  "float_value float_of_str seen name =
     (case seen name of
        None \<Rightarrow> Inr None
      | Some s \<Rightarrow> (case float_of_str s of None \<Rightarrow> Inl (usage_error name) | Some x \<Rightarrow> Inr (Some x)))"

definition delay_value ::
    "(string \<Rightarrow> pyfloat option) \<Rightarrow> pyfloat \<Rightarrow> namespace \<Rightarrow> string \<Rightarrow> exn + pyfloat" where
  "delay_value float_of_str dflt seen name =
     bind_exn (float_value float_of_str seen name) (\<lambda>given.
       let delay_ms = default_to dflt given
       in if flt delay_ms (Fin 0) then Inl (usage_error name) else Inr delay_ms)"

section \<open>The node processes\<close>

text \<open>
  What \<open>main\<close> hands to uvicorn: the app, made for this node id and configuration, and where it
  listens. \<open>read_yaml\<close> opens a file and parses it.
\<close>

record ('c, 'v) node_process =
  np_node_id :: string
  np_host :: string
  np_port :: int
  np_config :: 'c
  np_app :: "route list \<times> 'v kvstore"

record ('c, 'v) delayed_process = "('c, 'v) node_process" +
  np_delay_seconds :: pyfloat

definition lf_follower_parse_args ::
    "(string \<Rightarrow> pyfloat option) \<Rightarrow> environ \<Rightarrow> string list \<Rightarrow> exn + node_identity" where
  "lf_follower_parse_args float_of_str environ argv =
     bind_exn (parse_node_args float_of_str 8001 environ (Inr (Fin 0)) [] argv) (\<lambda>(ident, _, _). Inr ident)"

definition lf_follower_main ::
    "(string \<Rightarrow> pyfloat option) \<Rightarrow> route list \<Rightarrow> environ \<Rightarrow> string list \<Rightarrow> exn + (unit, 'v) node_process" where
  "lf_follower_main float_of_str builtin environ argv =
     bind_exn (lf_follower_parse_args float_of_str environ argv) (\<lambda>ident.
       Inr \<lparr>np_node_id = id_node_id ident, np_host = id_host ident, np_port = id_port ident, np_config = (),
         np_app = follower_build_app builtin\<rparr>)"

definition LEADER_CONFIG_PATH :: string where
  "LEADER_CONFIG_PATH = ''config/leader_follower_cluster.yaml''"

record leader_args =
  la_identity :: node_identity
  la_config :: string
  la_ack_required :: "int option"

definition leader_parse_args ::
    "(string \<Rightarrow> pyfloat option) \<Rightarrow> environ \<Rightarrow> string list \<Rightarrow> exn + leader_args" where
  "leader_parse_args float_of_str environ argv =
     bind_exn (parse_node_args float_of_str 8000 environ (Inr (Fin 0))
         [(''--config'', Str_arg), (''--ack-required'', Int_arg)] argv) (\<lambda>(ident, _, seen).
     bind_exn (int_value seen ''--ack-required'') (\<lambda>ack_required.
       Inr \<lparr>la_identity = ident, la_config = config_path environ ''CLUSTER_CONFIG'' LEADER_CONFIG_PATH seen,
         la_ack_required = ack_required\<rparr>))"

definition leader_main ::
    "(string \<Rightarrow> pyfloat option) \<Rightarrow> (string \<Rightarrow> exn + pyval) \<Rightarrow> route list \<Rightarrow> environ \<Rightarrow> string list \<Rightarrow>
     exn + (leader_config, 'v) node_process" where
  "leader_main float_of_str read_yaml builtin environ argv =
     bind_exn (leader_parse_args float_of_str environ argv) (\<lambda>args.
     bind_exn (read_yaml (la_config args)) (\<lambda>doc.
     bind_exn (leader_resolve_config float_of_str doc (la_ack_required args)) (\<lambda>config.
       Inr \<lparr>np_node_id = id_node_id (la_identity args), np_host = id_host (la_identity args),
         np_port = id_port (la_identity args), np_config = config, np_app = leader_build_app builtin\<rparr>)))"

definition CLUSTER_CONFIG_PATH :: string where
  "CLUSTER_CONFIG_PATH = ''config/leaderless_cluster.yaml''"

record ll_node_args =
  na_identity :: node_identity
  na_config :: string
  na_default_w :: "int option"
  na_default_r :: "int option"
  na_delay_ms :: pyfloat

definition ll_parse_args ::
    "(string \<Rightarrow> pyfloat option) \<Rightarrow> environ \<Rightarrow> string list \<Rightarrow> exn + ll_node_args" where
  "ll_parse_args float_of_str environ argv =
     bind_exn (parse_node_args float_of_str 8001 environ
         (delay_env float_of_str environ ''FAULT_INJECT_REPLICATE_DELAY_MS'')
         [(''--config'', Str_arg), (''--default-w'', Int_arg), (''--default-r'', Int_arg),
          (''--fault-inject-delay-ms'', Float_arg)] argv) (\<lambda>(ident, delay_default, seen).
     bind_exn (int_value seen ''--default-w'') (\<lambda>default_w.
     bind_exn (int_value seen ''--default-r'') (\<lambda>default_r.
     bind_exn (delay_value float_of_str delay_default seen ''--fault-inject-delay-ms'') (\<lambda>delay_ms.
       Inr \<lparr>na_identity = ident, na_config = config_path environ ''CLUSTER_CONFIG'' CLUSTER_CONFIG_PATH seen,
         na_default_w = default_w, na_default_r = default_r, na_delay_ms = delay_ms\<rparr>))))"

text \<open>\<open>delay_ms / 1000.0\<close>, exact.\<close>

definition ll_main ::
    "(string \<Rightarrow> pyfloat option) \<Rightarrow> (string \<Rightarrow> exn + pyval) \<Rightarrow> route list \<Rightarrow> environ \<Rightarrow> string list \<Rightarrow>
     exn + (cluster_config, 'v) delayed_process" where
  "ll_main float_of_str read_yaml builtin environ argv =
     bind_exn (ll_parse_args float_of_str environ argv) (\<lambda>args.
     bind_exn (read_yaml (na_config args)) (\<lambda>doc.
     bind_exn (cluster_resolve_config float_of_str doc (na_default_w args) (na_default_r args)) (\<lambda>config.
       let delay_seconds = fscale (1 / 1000) (na_delay_ms args)
       in Inr \<lparr>np_node_id = id_node_id (na_identity args), np_host = id_host (na_identity args),
            np_port = id_port (na_identity args), np_config = config,
            np_app = leaderless_build_app builtin delay_seconds, np_delay_seconds = delay_seconds\<rparr>)))"

definition MQ_DEFAULT_CONFIG_PATH :: string where
  "MQ_DEFAULT_CONFIG_PATH = ''config/mq_cluster.yaml''"

definition mq_producer_parse_args ::
    "(string \<Rightarrow> pyfloat option) \<Rightarrow> environ \<Rightarrow> string list \<Rightarrow> exn + node_identity \<times> string" where
  "mq_producer_parse_args float_of_str environ argv =
     bind_exn (parse_node_args float_of_str 8200 environ (Inr (Fin 0)) [(''--config'', Str_arg)] argv)
       (\<lambda>(ident, _, seen). Inr (ident, config_path environ ''MQ_CONFIG'' MQ_DEFAULT_CONFIG_PATH seen))"

text \<open>The producer keeps no store; \<open>repr\<close> prints the YAML values that are no strings.\<close>

definition mq_producer_main ::
    "(string \<Rightarrow> pyfloat option) \<Rightarrow> (pyval \<Rightarrow> string) \<Rightarrow> (string \<Rightarrow> exn + pyval) \<Rightarrow> route list \<Rightarrow> environ \<Rightarrow>
     string list \<Rightarrow> exn + (mq_config, unit) node_process" where
  "mq_producer_main float_of_str repr read_yaml builtin environ argv =
     bind_exn (mq_producer_parse_args float_of_str environ argv) (\<lambda>(ident, config_file).
     bind_exn (read_yaml config_file) (\<lambda>doc.
     bind_exn (mq_config_from_yaml repr doc) (\<lambda>config.
       Inr \<lparr>np_node_id = id_node_id ident, np_host = id_host ident, np_port = id_port ident, np_config = config,
         np_app = (producer_build_app builtin, kv_init)\<rparr>)))"

definition mq_follower_parse_args ::
    "(string \<Rightarrow> pyfloat option) \<Rightarrow> environ \<Rightarrow> string list \<Rightarrow> exn + node_identity \<times> string \<times> pyfloat" where
  "mq_follower_parse_args float_of_str environ argv =
     bind_exn (parse_node_args float_of_str 8201 environ
         (delay_env float_of_str environ ''FAULT_INJECT_CONSUME_DELAY_MS'')
         [(''--config'', Str_arg), (''--fault-inject-consume-delay-ms'', Float_arg)] argv)
       (\<lambda>(ident, delay_default, seen).
     bind_exn (delay_value float_of_str delay_default seen ''--fault-inject-consume-delay-ms'') (\<lambda>delay_ms.
       Inr (ident, config_path environ ''MQ_CONFIG'' MQ_DEFAULT_CONFIG_PATH seen, delay_ms)))"

definition mq_follower_main ::
    "(string \<Rightarrow> pyfloat option) \<Rightarrow> (pyval \<Rightarrow> string) \<Rightarrow> (string \<Rightarrow> exn + pyval) \<Rightarrow> route list \<Rightarrow> environ \<Rightarrow>
     string list \<Rightarrow> exn + (mq_config, 'v) delayed_process" where
  "mq_follower_main float_of_str repr read_yaml builtin environ argv =
     bind_exn (mq_follower_parse_args float_of_str environ argv) (\<lambda>(ident, config_file, delay_ms).
     bind_exn (read_yaml config_file) (\<lambda>doc.
     bind_exn (mq_config_from_yaml repr doc) (\<lambda>config.
       Inr \<lparr>np_node_id = id_node_id ident, np_host = id_host ident, np_port = id_port ident, np_config = config,
         np_app = mq_follower_build_app builtin, np_delay_seconds = fscale (1 / 1000) delay_ms\<rparr>)))"

section \<open>The load tests\<close>

definition load_seed :: "namespace \<Rightarrow> exn + int" where
  "load_seed seen =
     bind_exn (int_value seen ''--seed'') (\<lambda>s. Inr (case s of None \<Rightarrow> DEFAULT_SEED | Some n \<Rightarrow> n))"

definition lf_load_parse_args :: "(string \<Rightarrow> pyfloat option) \<Rightarrow> string list \<Rightarrow> exn + int" where
  "lf_load_parse_args float_of_str argv =
     bind_exn (parse_args float_of_str (help_options @ [(''--seed'', Int_arg)]) argv) load_seed"

definition ll_load_parse_args :: "(string \<Rightarrow> pyfloat option) \<Rightarrow> string list \<Rightarrow> exn + int" where
  "ll_load_parse_args float_of_str argv =
     bind_exn (parse_args float_of_str (help_options @ [(''--seed'', Int_arg)]) argv) load_seed"

definition mq_load_parse_args :: "(string \<Rightarrow> pyfloat option) \<Rightarrow> string list \<Rightarrow> exn + int \<times> int" where
  "mq_load_parse_args float_of_str argv =
     bind_exn (parse_args float_of_str (help_options @ [(''--seed'', Int_arg), (''--workers'', Int_arg)]) argv)
       (\<lambda>seen.
     bind_exn (load_seed seen) (\<lambda>seed.
     bind_exn (int_value seen ''--workers'') (\<lambda>workers.
       Inr (seed, case workers of None \<Rightarrow> NUM_WORKERS | Some n \<Rightarrow> n))))"

definition lf_load_main ::
    "(string \<Rightarrow> pyfloat option) \<Rightarrow> (pyval \<Rightarrow> string) \<Rightarrow> prng \<Rightarrow> exn + leader_config \<Rightarrow>
     (string \<Rightarrow> string http_outcome) \<Rightarrow> pyfloat \<Rightarrow> pyfloat \<Rightarrow> load_event list \<Rightarrow> string list \<Rightarrow>
     (exn + load_test_result) option" where
  "lf_load_main float_of_str fmt g loaded get start now evs argv =
     (case lf_load_parse_args float_of_str argv of
        Inl e \<Rightarrow> Some (Inl e)
      | Inr seed \<Rightarrow> lf_run_load_test fmt g loaded get seed start now evs)"

text \<open>Run from the command line, the leaderless test sends no quorum parameters.\<close>

definition ll_load_main ::
    "(string \<Rightarrow> pyfloat option) \<Rightarrow> (pyval \<Rightarrow> string) \<Rightarrow> prng \<Rightarrow> exn + cluster_config \<Rightarrow>
     (string \<Rightarrow> string http_outcome) \<Rightarrow> pyfloat \<Rightarrow> pyfloat \<Rightarrow> load_event list \<Rightarrow> string list \<Rightarrow>
     (exn + load_test_result) option" where
  "ll_load_main float_of_str fmt g loaded get start now evs argv =
     (case ll_load_parse_args float_of_str argv of
        Inl e \<Rightarrow> Some (Inl e)
      | Inr seed \<Rightarrow> ll_run_load_test fmt g loaded get None None seed start now evs)"

definition mq_load_main ::
    "(string \<Rightarrow> pyfloat option) \<Rightarrow> prng \<Rightarrow> (string \<Rightarrow> string http_outcome) \<Rightarrow> pyfloat \<Rightarrow> pyfloat \<Rightarrow>
     load_event list \<Rightarrow> string list \<Rightarrow> (exn + load_test_result) option" where
  "mq_load_main float_of_str g get start now evs argv =
     (case mq_load_parse_args float_of_str argv of
        Inl e \<Rightarrow> Some (Inl e)
      | Inr (seed, workers) \<Rightarrow> mq_run_load_test g get workers TOTAL_REQUESTS seed start now evs)"

text \<open>The arguments of the two demos, from the command line to the checked values.\<close>

definition boundary_args_of :: "(string \<Rightarrow> pyfloat option) \<Rightarrow> string list \<Rightarrow> exn + demo_args" where
  "boundary_args_of float_of_str argv =
     bind_exn (parse_args float_of_str (help_options @ [(''--delay-ms'', Float_arg), (''--delayed-node-count'', Int_arg)]) argv)
       (\<lambda>seen.
     bind_exn (float_value float_of_str seen ''--delay-ms'') (\<lambda>delay_ms.
     bind_exn (int_value seen ''--delayed-node-count'') (\<lambda>delayed_node_count.
       boundary_parse_args delay_ms delayed_node_count)))"

definition lag_args_of :: "(string \<Rightarrow> pyfloat option) \<Rightarrow> string list \<Rightarrow> exn + demo_args" where
  "lag_args_of float_of_str argv =
     bind_exn (parse_args float_of_str (help_options @
         [(''--delay-ms'', Float_arg), (''--delayed-follower-count'', Int_arg), (''--workers'', Int_arg)]) argv) (\<lambda>seen.
     bind_exn (float_value float_of_str seen ''--delay-ms'') (\<lambda>delay_ms.
     bind_exn (int_value seen ''--delayed-follower-count'') (\<lambda>delayed_follower_count.
     bind_exn (int_value seen ''--workers'') (\<lambda>workers.
       lag_parse_args delay_ms delayed_follower_count workers))))"

section \<open>The configuration files of the repository\<close>

definition yaml_nodes :: "int list \<Rightarrow> pyval" where
  "yaml_nodes ports = PList (map (\<lambda>p. PDict [(''host'', PStr ''127.0.0.1''), (''port'', PInt p)]) ports)"

definition leader_follower_cluster_yaml :: pyval where
  "leader_follower_cluster_yaml =
     PDict [(''followers'', yaml_nodes [8001, 8002, 8003, 8004]), (''ack_required'', PInt 2),
       (''timeout_seconds'', PFloat (Fin 2))]"

definition leaderless_cluster_yaml :: pyval where
  "leaderless_cluster_yaml =
     PDict [(''nodes'', yaml_nodes [8101, 8102, 8103, 8104, 8105]), (''default_w'', PInt 3),
       (''default_r'', PInt 3), (''timeout_seconds'', PFloat (Fin 2))]"

definition mq_cluster_yaml :: pyval where
  "mq_cluster_yaml =
     PDict [(''bootstrap_servers'', PStr ''localhost:9092''), (''topic'', PStr ''kv-replication-lab''),
       (''num_partitions'', PInt 4), (''consumer_group_prefix'', PStr ''kv-mq-follower'')]"

text \<open>The files seen from the root of the repository, where the harness starts every process.\<close>

definition shipped_files :: "string \<Rightarrow> exn + pyval" where
  "shipped_files path =
     (if path = LEADER_CONFIG_PATH then Inr leader_follower_cluster_yaml
      else if path = CLUSTER_CONFIG_PATH then Inr leaderless_cluster_yaml
      else if path = MQ_DEFAULT_CONFIG_PATH then Inr mq_cluster_yaml
      else Inl (OtherErr path))"

section \<open>Lemmas\<close>

text \<open>
  A command line written out: each option with its value as the next argument, or joined to it by
  a \<open>=\<close>. A value on its own must not look like an option.
\<close>

fun render_option :: "string \<times> string \<times> bool \<Rightarrow> string list" where
  "render_option (name, v, joined) = (if joined then [name @ ''='' @ v] else [name, v])"

fun option_tokens :: "string \<times> string \<times> bool \<Rightarrow> (string \<times> arg_token) list" where
  "option_tokens (name, v, joined) =
     (if joined then [(name @ ''='' @ v, Known name (Some v))] else [(name, Known name None), (v, Value)])"

definition parser_ok :: "arg_parser \<Rightarrow> bool" where
  "parser_ok spec \<longleftrightarrow>
     list_all (\<lambda>(name, t). name \<noteq> [] \<and> hd name = CHR ''-'' \<and> name \<noteq> ''--'' \<and> CHR ''='' \<notin> set name) spec"

fun option_ok :: "(string \<Rightarrow> pyfloat option) \<Rightarrow> arg_parser \<Rightarrow> string \<times> string \<times> bool \<Rightarrow> bool" where
  "option_ok float_of_str spec (name, v, joined) \<longleftrightarrow>
     (case map_of spec name of None \<Rightarrow> False | Some t \<Rightarrow> accepts_value float_of_str t v) \<and>
     (joined \<or> v \<noteq> ''--'' \<and> parse_optional spec v = Inr Value)"

lemma parser_okD:
  "parser_ok spec \<Longrightarrow> map_of spec name = Some t \<Longrightarrow>
    name \<noteq> [] \<and> hd name = CHR ''-'' \<and> name \<noteq> ''--'' \<and> CHR ''='' \<notin> set name"
  by (auto simp: parser_ok_def list_all_iff dest!: map_of_SomeD)

lemma split_eq_joined: "CHR ''='' \<notin> set name \<Longrightarrow> split_eq (name @ CHR ''='' # v) = (name, Some v)"
  by (simp add: split_eq_def takeWhile_append dropWhile_append)

lemma parse_optional_joined:
  assumes "parser_ok spec" "map_of spec name = Some t"
  shows "parse_optional spec (name @ ''='' @ v) = Inr (Known name (Some v))"
proof -
  note name = parser_okD [OF assms]
  have "map_of spec (name @ ''='' @ v) = None"
    using parser_okD [OF assms(1), of "name @ ''='' @ v"] by (cases "map_of spec (name @ ''='' @ v)") auto
  then show ?thesis
    using name assms(2) by (simp add: parse_optional_def split_eq_joined hd_append)
qed

lemma classify_option:
  assumes "parser_ok spec" "option_ok float_of_str spec opt"
  shows "classify_args spec False (render_option opt @ args) =
    bind_exn (classify_args spec False args) (\<lambda>ts. Inr (option_tokens opt @ ts))"
proof -
  obtain name v joined where opt: "opt = (name, v, joined)" by (cases opt)
  obtain t where t: "map_of spec name = Some t" using assms(2) by (auto simp: opt split: option.splits)
  note name = parser_okD [OF assms(1) t]
  have "parse_optional spec name = Inr (Known name None)" using name t by (simp add: parse_optional_def)
  moreover have "name @ ''='' @ v \<noteq> ''--''" using name by (cases name) (auto simp: append_eq_Cons_conv)
  moreover note parse_optional_joined [OF assms(1) t, of v]
  ultimately show ?thesis
    using assms(2) name by (cases joined; cases "classify_args spec False args") (simp_all add: opt)
qed

lemma take_option:
  assumes "option_ok float_of_str spec (name, v, joined)"
  shows "take_actions float_of_str spec (option_tokens (name, v, joined) @ ts) seen extras =
    take_actions float_of_str spec ts (seen(name \<mapsto> v)) extras"
  using assms by (auto simp: store_value_def accepts_value_def split: option.splits)

lemma parse_options:
  assumes "parser_ok spec" "list_all (option_ok float_of_str spec) opts"
  shows "\<exists>ts. classify_args spec False (concat (map render_option opts)) = Inr ts \<and>
    (\<forall>seen. take_actions float_of_str spec ts seen False =
       Inr (seen ++ map_of (rev (map (\<lambda>(name, v, _). (name, v)) opts)), False))"
  using assms(2)
proof (induction opts)
  case (Cons opt opts)
  then obtain ts where ts: "classify_args spec False (concat (map render_option opts)) = Inr ts"
      "\<And>seen. take_actions float_of_str spec ts seen False =
        Inr (seen ++ map_of (rev (map (\<lambda>(name, v, _). (name, v)) opts)), False)"
    by auto
  obtain name v joined where opt: "opt = (name, v, joined)" by (cases opt)
  have "classify_args spec False (concat (map render_option (opt # opts))) = Inr (option_tokens opt @ ts)"
    using classify_option [OF assms(1), of float_of_str opt] Cons.prems ts(1) by simp
  moreover have "take_actions float_of_str spec (option_tokens opt @ ts) seen False =
      Inr (seen ++ map_of (rev (map (\<lambda>(name, v, _). (name, v)) (opt # opts))), False)" for seen
    using take_option [of float_of_str spec name v joined ts seen False] Cons.prems ts(2)
    by (simp add: opt del: option_ok.simps)
  ultimately show ?case by blast
qed simp

text \<open>
  Command lines round-trip: for a parser whose options all begin with a dash, writing options and
  values out, each value as an argument of its own (when it does not look like an option itself) or
  joined by \<open>=\<close> (whatever it looks like), and parsing the result gives every option the last value written for it.
\<close>

lemma parse_args_options:
  assumes "parser_ok spec" "list_all (option_ok float_of_str spec) opts"
  shows "parse_args float_of_str spec (concat (map render_option opts)) =
    Inr (map_of (rev (map (\<lambda>(name, v, _). (name, v)) opts)))"
  using parse_options [OF assms] by (auto simp: parse_args_def)

text \<open>Values that do not look like options: what starts with no dash, and the integers that are not negative.\<close>

lemma parse_optional_plain [simp]: "hd v \<noteq> CHR ''-'' \<Longrightarrow> parse_optional spec v = Inr Value"
  by (simp add: parse_optional_def)

lemma hd_dec_of_nat: "hd (dec_of_nat n) \<noteq> CHR ''-''"
  using dec_of_nat_digits [of "hd (dec_of_nat n)" n] digit_char_not_sign by (metis dec_of_nat_nonempty list.set_sel(1))

lemma hd_py_str_of_int [simp]: "0 \<le> n \<Longrightarrow> hd (py_str_of_int n) \<noteq> CHR ''-''"
  by (simp add: py_str_of_int_def hd_dec_of_nat)

lemma accepts_int [simp]: "accepts_value float_of_str Int_arg (py_str_of_int n)"
  by (simp add: accepts_value_def)

lemma accepts_str [simp]: "accepts_value float_of_str Str_arg v"
  by (simp add: accepts_value_def)

lemma py_str_of_int_not_dashes [simp]: "0 \<le> n \<Longrightarrow> py_str_of_int n \<noteq> ''--''"
  using hd_py_str_of_int [of n] by (metis list.sel(1))

text \<open>The options every node process takes, with those of its own.\<close>

lemma parse_node_flags:
  assumes "hd node_id \<noteq> CHR ''-''" "0 \<le> port" "environ ''PORT'' = None"
    and "parser_ok (help_options @ identity_options @ options)"
    and "list_all (option_ok float_of_str (help_options @ identity_options @ options)) own"
    and "list_all (\<lambda>(name, v, joined). name \<notin> set [''--node-id'', ''--host'', ''--port'']) own"
  shows "parse_node_args float_of_str default_port environ (Inr d) options
      ([''--node-id'', node_id, ''--port'', py_str_of_int port] @ concat (map render_option own)) =
    Inr (\<lparr>id_node_id = node_id, id_host = (case environ ''HOST'' of None \<Rightarrow> ''0.0.0.0'' | Some h \<Rightarrow> h), id_port = port\<rparr>, d,
      map_of (rev ([(''--node-id'', node_id), (''--port'', py_str_of_int port)] @ map (\<lambda>(name, v, _). (name, v)) own)))"
proof -
  let ?opts = "[(''--node-id'', node_id, False), (''--port'', py_str_of_int port, False)] @ own"
  let ?spec = "help_options @ identity_options @ options"
  have none: "map_of (rev (map (\<lambda>(name, v, _). (name, v)) own)) name = None"
    if "name \<in> set [''--node-id'', ''--host'', ''--port'']" for name
    using that assms(6) by (force simp: map_of_eq_None_iff list_all_iff)
  have "list_all (option_ok float_of_str ?spec) ?opts"
    using assms(1,2,5) by (auto simp: help_options_def identity_options_def)
  from parse_args_options [OF assms(4) this]
  have "parse_args float_of_str ?spec ([''--node-id'', node_id, ''--port'', py_str_of_int port] @ concat (map render_option own)) =
      Inr (map_of (rev (map (\<lambda>(name, v, _). (name, v)) own) @ [(''--port'', py_str_of_int port), (''--node-id'', node_id)]))"
    by simp
  then show ?thesis
    using assms(3) none
    by (simp add: parse_node_args_def port_default_def node_env_of_def add_node_identity_args_def identity_flags_of_def
        map_add_def split: option.split)
qed

section \<open>The processes of the sweeps\<close>

text \<open>The variables that would override what the harness plans are not set.\<close>

definition sweep_environ :: "environ \<Rightarrow> bool" where
  "sweep_environ environ \<longleftrightarrow>
     list_all (\<lambda>var. environ var = None) [''PORT'', ''CLUSTER_CONFIG'', ''MQ_CONFIG'',
       ''FAULT_INJECT_REPLICATE_DELAY_MS'', ''FAULT_INJECT_CONSUME_DELAY_MS'']"

definition listen_host :: "environ \<Rightarrow> string" where
  "listen_host environ = (case environ ''HOST'' of None \<Rightarrow> ''0.0.0.0'' | Some h \<Rightarrow> h)"

definition local_node :: "int \<Rightarrow> node" where
  "local_node port = \<lparr>node_host = PStr ''127.0.0.1'', node_port = port\<rparr>"

definition shipped_leader :: "int \<Rightarrow> leader_config" where
  "shipped_leader ack_required =
     \<lparr>lc_followers = map (\<lambda>port. \<lparr>follower_host = PStr ''127.0.0.1'', follower_port = port\<rparr>) LEADER_FOLLOWER_FOLLOWER_PORTS, lc_ack_required = ack_required,
      lc_timeout_seconds = Fin 2\<rparr>"

definition shipped_cluster :: cluster_config where
  "shipped_cluster =
     \<lparr>cc_nodes = map local_node LEADERLESS_NODE_PORTS, cc_default_w = 3, cc_default_r = 3, cc_timeout_seconds = Fin 2\<rparr>"

definition shipped_queue :: mq_config where
  "shipped_queue =
     \<lparr>mq_bootstrap_servers = ''localhost:9092'', mq_topic = ''kv-replication-lab'', mq_num_partitions = 4,
      mq_consumer_group_prefix = ''kv-mq-follower''\<rparr>"

lemma config_paths:
  "shipped_files LEADER_CONFIG_PATH = Inr leader_follower_cluster_yaml"
  "shipped_files CLUSTER_CONFIG_PATH = Inr leaderless_cluster_yaml"
  "shipped_files MQ_DEFAULT_CONFIG_PATH = Inr mq_cluster_yaml"
  by (simp_all add: shipped_files_def LEADER_CONFIG_PATH_def CLUSTER_CONFIG_PATH_def MQ_DEFAULT_CONFIG_PATH_def)

lemma shipped_leader_loads:
  "0 \<le> a \<Longrightarrow> a \<le> 4 \<Longrightarrow>
    leader_resolve_config float_of_str leader_follower_cluster_yaml (Some a) = Inr (shipped_leader a)"
  by (simp add: leader_resolve_config_def leader_config_from_yaml_def leader_config_from_dict_def yaml_or_empty_def
      py_falsy_def leader_follower_cluster_yaml_def yaml_nodes_def py_dict_get_def py_iter_def follower_of_yaml_def
      py_dict_item_def with_ack_required_def validate_ack_required_def shipped_leader_def local_node_def
      LEADER_FOLLOWER_FOLLOWER_PORTS_def bind_exn_def require_in_range_def require_positive_def)

lemma shipped_cluster_loads:
  "cluster_resolve_config float_of_str leaderless_cluster_yaml None None = Inr shipped_cluster"
  by (simp add: cluster_resolve_config_def cluster_config_from_yaml_def cluster_config_from_dict_def yaml_or_empty_def
      py_falsy_def leaderless_cluster_yaml_def yaml_nodes_def py_dict_get_def py_iter_def node_of_yaml_def
      py_dict_item_def validate_quorum_def shipped_cluster_def local_node_def LEADERLESS_NODE_PORTS_def
      bind_exn_def require_in_range_def require_positive_def)

lemma shipped_queue_loads: "mq_config_from_yaml repr mq_cluster_yaml = Inr shipped_queue"
  by (simp add: mq_config_from_yaml_def mq_config_from_dict_def yaml_or_empty_def py_falsy_def mq_cluster_yaml_def
      py_dict_get_def require_nonempty_str_def py_strip_def py_isspace_def shipped_queue_def)

lemma lf_follower_process:
  assumes "sweep_environ environ" "0 \<le> port"
  shows "lf_follower_main float_of_str builtin environ (lf_follower_argv i port) =
    Inr \<lparr>np_node_id = ''follower'' @ num i, np_host = listen_host environ, np_port = port, np_config = (),
      np_app = follower_build_app builtin\<rparr>"
  using assms parse_node_flags [of "''follower'' @ num i" port environ "[]" float_of_str "[]" 8001 "Fin 0"]
  by (simp add: lf_follower_main_def lf_follower_parse_args_def lf_follower_argv_def sweep_environ_def listen_host_def
      parser_ok_def help_options_def identity_options_def)

lemma leader_process:
  assumes "sweep_environ environ" "0 \<le> a" "a \<le> 4"
  shows "leader_main float_of_str shipped_files builtin environ (lf_leader_argv a) =
    Inr \<lparr>np_node_id = ''leader'', np_host = listen_host environ, np_port = LEADER_FOLLOWER_LEADER_PORT,
      np_config = shipped_leader a, np_app = leader_build_app builtin\<rparr>"
  using assms parse_node_flags [of "''leader''" LEADER_FOLLOWER_LEADER_PORT environ
      "[(''--config'', Str_arg), (''--ack-required'', Int_arg)]" float_of_str
      "[(''--ack-required'', py_str_of_int a, False)]" 8000 "Fin 0"]
  by (simp add: leader_main_def leader_parse_args_def lf_leader_argv_def sweep_environ_def listen_host_def
      parser_ok_def help_options_def identity_options_def LEADER_FOLLOWER_LEADER_PORT_def int_value_def config_path_def
      config_paths shipped_leader_loads)

lemma ll_node_process:
  assumes "sweep_environ environ" "0 \<le> port"
  shows "ll_main float_of_str shipped_files builtin environ (ll_node_argv i port) =
    Inr \<lparr>np_node_id = ''node'' @ num i, np_host = listen_host environ, np_port = port, np_config = shipped_cluster,
      np_app = leaderless_build_app builtin (Fin 0), np_delay_seconds = Fin 0\<rparr>"
  using assms parse_node_flags [of "''node'' @ num i" port environ
      "[(''--config'', Str_arg), (''--default-w'', Int_arg), (''--default-r'', Int_arg),
          (''--fault-inject-delay-ms'', Float_arg)]" float_of_str "[]" 8001 "Fin 0"]
  by (simp add: ll_main_def ll_parse_args_def ll_node_argv_def sweep_environ_def listen_host_def
      parser_ok_def help_options_def identity_options_def int_value_def config_path_def delay_env_def delay_value_def float_value_def default_to_def
      config_paths shipped_cluster_loads Let_def)

lemma mq_follower_process:
  assumes "sweep_environ environ" "0 \<le> port"
  shows "mq_follower_main float_of_str repr shipped_files builtin environ (mq_follower_argv slug_text i port) =
    Inr \<lparr>np_node_id = ''follower'' @ num i @ ''_'' @ slug_text, np_host = listen_host environ, np_port = port,
      np_config = shipped_queue, np_app = mq_follower_build_app builtin, np_delay_seconds = Fin 0\<rparr>"
  using assms parse_node_flags [of "''follower'' @ num i @ ''_'' @ slug_text" port environ
      "[(''--config'', Str_arg), (''--fault-inject-consume-delay-ms'', Float_arg)]" float_of_str "[]" 8201 "Fin 0"]
  by (simp add: mq_follower_main_def mq_follower_parse_args_def mq_follower_argv_def sweep_environ_def listen_host_def
      parser_ok_def help_options_def identity_options_def config_path_def delay_env_def delay_value_def float_value_def default_to_def
      config_paths shipped_queue_loads)

lemma mq_producer_process:
  assumes "sweep_environ environ"
  shows "mq_producer_main float_of_str repr shipped_files builtin environ (mq_producer_argv slug_text) =
    Inr \<lparr>np_node_id = ''producer_'' @ slug_text, np_host = listen_host environ, np_port = PRODUCER_PORT,
      np_config = shipped_queue, np_app = (producer_build_app builtin, kv_init)\<rparr>"
  using assms parse_node_flags [of "''producer_'' @ slug_text" PRODUCER_PORT environ
      "[(''--config'', Str_arg)]" float_of_str "[]" 8200 "Fin 0"]
  by (simp add: mq_producer_main_def mq_producer_parse_args_def mq_producer_argv_def sweep_environ_def listen_host_def
      parser_ok_def help_options_def identity_options_def config_path_def PRODUCER_PORT_def
      config_paths shipped_queue_loads)

text \<open>A node of the demo, delayed or not; \<open>str_float\<close> prints a delay so that it reads back, with no sign.\<close>

lemma boundary_node_process:
  assumes "sweep_environ environ" "0 \<le> port" "\<not> flt (da_delay_ms args) (Fin 0)"
    and "float_of_str (str_float (da_delay_ms args)) = Some (da_delay_ms args)"
    and "hd (str_float (da_delay_ms args)) \<noteq> CHR ''-''"
  shows "\<exists>p. ll_main float_of_str shipped_files builtin environ (boundary_node_argv str_float args i port) = Inr p \<and>
    np_port p = port \<and> np_config p = shipped_cluster \<and>
    np_delay_seconds p = (if int i \<le> da_delayed_count args then fscale (1 / 1000) (da_delay_ms args) else Fin 0)"
proof (cases "int i \<le> da_delayed_count args")
  case True
  have "str_float (da_delay_ms args) \<noteq> ''--''" using assms(5) by auto
  then show ?thesis
    using True assms parse_node_flags [of "''node'' @ num i" port environ
      "[(''--config'', Str_arg), (''--default-w'', Int_arg), (''--default-r'', Int_arg),
          (''--fault-inject-delay-ms'', Float_arg)]" float_of_str
      "[(''--fault-inject-delay-ms'', str_float (da_delay_ms args), False)]" 8001 "Fin 0"]
    by (simp add: ll_main_def ll_parse_args_def boundary_node_argv_def sweep_environ_def
        parser_ok_def help_options_def identity_options_def int_value_def config_path_def delay_env_def delay_value_def float_value_def default_to_def
        accepts_value_def config_paths shipped_cluster_loads Let_def)
next
  case False
  then show ?thesis
    by (simp add: boundary_node_argv_def ll_node_process [OF assms(1,2), unfolded ll_node_argv_def, simplified])
qed

lemma map_exn_all: "(\<And>x. x \<in> set xs \<Longrightarrow> g x = Inr (f x)) \<Longrightarrow> map_exn g xs = Inr (map f xs)"
  by (induction xs) simp_all

lemma groups_distinct:
  "distinct (map (\<lambda>(workers, i, port :: int). consumer_group shipped_queue (''follower'' @ num i @ ''_'' @ slug (mq_label workers)))
     (List.product MQ_WORKER_SWEEP (enumerate 1 FOLLOWER_PORTS)))"
  by code_simp

lemma lag_follower_process:
  assumes "sweep_environ environ" "0 \<le> port" "\<not> flt (da_delay_ms args) (Fin 0)"
    and "float_of_str (str_float (da_delay_ms args)) = Some (da_delay_ms args)"
    and "hd (str_float (da_delay_ms args)) \<noteq> CHR ''-''"
  shows "\<exists>p. mq_follower_main float_of_str repr shipped_files builtin environ
      (lag_follower_argv str_float args delayed_ports i port) = Inr p \<and>
    np_port p = port \<and> np_config p = shipped_queue \<and>
    np_delay_seconds p = (if port \<in> set delayed_ports then fscale (1 / 1000) (da_delay_ms args) else Fin 0)"
proof (cases "port \<in> set delayed_ports")
  case True
  have "str_float (da_delay_ms args) \<noteq> ''--''" using assms(5) by auto
  then show ?thesis
    using True assms parse_node_flags [of "''follower'' @ num i @ ''_lagdemo''" port environ
      "[(''--config'', Str_arg), (''--fault-inject-consume-delay-ms'', Float_arg)]" float_of_str
      "[(''--fault-inject-consume-delay-ms'', str_float (da_delay_ms args), False)]" 8201 "Fin 0"]
    by (simp add: mq_follower_main_def mq_follower_parse_args_def lag_follower_argv_def sweep_environ_def
        parser_ok_def help_options_def identity_options_def config_path_def delay_env_def delay_value_def float_value_def default_to_def
        accepts_value_def config_paths shipped_queue_loads)
next
  case False
  then show ?thesis
    by (simp add: lag_follower_argv_def mq_follower_process [OF assms(1,2), of _ _ _ "''lagdemo''", unfolded mq_follower_argv_def, simplified])
qed

lemma delayed_port_iff:
  "(i, port) \<in> set (enumerate 1 FOLLOWER_PORTS) \<Longrightarrow> 0 \<le> da_delayed_count args \<Longrightarrow>
    port \<in> set (lag_delayed_ports args) \<longleftrightarrow> int i \<le> da_delayed_count args"
  by (auto simp: FOLLOWER_PORTS_def lag_delayed_ports_def take_Cons' split: if_splits)

lemma demo_args_checked:
  "boundary_args_of float_of_str argv = Inr args \<Longrightarrow> \<not> flt (da_delay_ms args) (Fin 0) \<and> 0 \<le> da_delayed_count args"
  "lag_args_of float_of_str argv = Inr args \<Longrightarrow> \<not> flt (da_delay_ms args) (Fin 0) \<and> 0 \<le> da_delayed_count args"
  by (auto simp: boundary_args_of_def lag_args_of_def boundary_parse_args_def lag_parse_args_def bind_exn_Inr_iff Let_def
      split: if_splits)

section \<open>Properties\<close>

text \<open>
  C27. The comparison measures what its labels say: with the repository's configuration files and no
  overriding environment variable, every process the two ranked sweeps spawn starts, on the port the harness
  waits for; the leader with the \<open>ack_required\<close> of its configuration and the spawned followers as its
  followers; every leaderless node in a cluster of exactly the spawned nodes, with the four others as its peers and no
  injected delay.
\<close>

theorem sweeps_spawn_planned_processes:
  assumes "sweep_environ environ"
  shows "(\<forall>a \<in> set ACK_REQUIRED_SWEEP.
      \<exists>p. leader_main float_of_str shipped_files builtin environ (lf_leader_argv a) = Inr p \<and>
        np_port p = LEADER_FOLLOWER_LEADER_PORT \<and> lc_ack_required (np_config p) = a \<and>
        map follower_port (lc_followers (np_config p)) = LEADER_FOLLOWER_FOLLOWER_PORTS) \<and>
    (\<forall>(i, port) \<in> set (enumerate 1 LEADER_FOLLOWER_FOLLOWER_PORTS).
      \<exists>p. lf_follower_main float_of_str builtin environ (lf_follower_argv i port) = Inr p \<and>
        np_port p = port \<and> np_node_id p = ''follower'' @ num i) \<and>
    (\<forall>(i, port) \<in> set (enumerate 1 LEADERLESS_NODE_PORTS).
      \<exists>p. ll_main float_of_str shipped_files builtin environ (ll_node_argv i port) = Inr p \<and>
        np_port p = port \<and> np_node_id p = ''node'' @ num i \<and> np_delay_seconds p = Fin 0 \<and>
        map node_port (cc_nodes (np_config p)) = LEADERLESS_NODE_PORTS \<and>
        length (peers_excluding (np_config p) port) = 4)"
proof (intro conjI)
  show "\<forall>a \<in> set ACK_REQUIRED_SWEEP.
      \<exists>p. leader_main float_of_str shipped_files builtin environ (lf_leader_argv a) = Inr p \<and>
        np_port p = LEADER_FOLLOWER_LEADER_PORT \<and> lc_ack_required (np_config p) = a \<and>
        map follower_port (lc_followers (np_config p)) = LEADER_FOLLOWER_FOLLOWER_PORTS"
  proof
    fix a
    assume "a \<in> set ACK_REQUIRED_SWEEP"
    then have "0 \<le> a" "a \<le> 4" by (auto simp: ACK_REQUIRED_SWEEP_def)
    then show "\<exists>p. leader_main float_of_str shipped_files builtin environ (lf_leader_argv a) = Inr p \<and>
        np_port p = LEADER_FOLLOWER_LEADER_PORT \<and> lc_ack_required (np_config p) = a \<and>
        map follower_port (lc_followers (np_config p)) = LEADER_FOLLOWER_FOLLOWER_PORTS"
      by (simp add: leader_process [OF assms] shipped_leader_def comp_def)
  qed
qed (auto simp: LEADER_FOLLOWER_FOLLOWER_PORTS_def LEADERLESS_NODE_PORTS_def lf_follower_process [OF assms]
    ll_node_process [OF assms] shipped_cluster_def local_node_def peers_excluding_def)

theorem sweeps_spawn_planned_processes_witness:
  "\<exists>p. ll_main (\<lambda>_. None) shipped_files [] (\<lambda>_. None) (ll_node_argv 1 8101) = Inr p \<and> np_port p = 8101"
  using sweeps_spawn_planned_processes [of "\<lambda>_. None" "\<lambda>_. None" "[]"]
  by (simp add: sweep_environ_def LEADERLESS_NODE_PORTS_def) blast

text \<open>
  C28. No follower of the message queue sweep inherits another's offsets: over all configurations of the
  sweep, the twelve followers it spawns join twelve different consumer groups.
\<close>

theorem mq_groups_never_reused:
  assumes "sweep_environ environ"
  shows "\<exists>groups. map_exn (\<lambda>(workers, i, port). bind_exn
        (mq_follower_main float_of_str repr shipped_files builtin environ (mq_follower_argv (slug (mq_label workers)) i port))
        (\<lambda>p :: (mq_config, 'v) delayed_process. Inr (consumer_group (np_config p) (np_node_id p))))
      (List.product MQ_WORKER_SWEEP (enumerate 1 FOLLOWER_PORTS)) = Inr groups \<and>
    length groups = 12 \<and> distinct groups"
proof -
  let ?cs = "List.product MQ_WORKER_SWEEP (enumerate 1 FOLLOWER_PORTS)"
  let ?group = "\<lambda>(workers, i, port :: int). consumer_group shipped_queue (''follower'' @ num i @ ''_'' @ slug (mq_label workers))"
  have "map_exn (\<lambda>(workers, i, port). bind_exn
        (mq_follower_main float_of_str repr shipped_files builtin environ (mq_follower_argv (slug (mq_label workers)) i port))
        (\<lambda>p :: (mq_config, 'v) delayed_process. Inr (consumer_group (np_config p) (np_node_id p)))) ?cs = Inr (map ?group ?cs)"
    by (rule map_exn_all) (auto simp: mq_follower_process [OF assms] FOLLOWER_PORTS_def)
  moreover have "length ?cs = 12" by (simp add: MQ_WORKER_SWEEP_def FOLLOWER_PORTS_def)
  ultimately show ?thesis using groups_distinct by simp
qed

theorem mq_groups_never_reused_witness:
  "\<exists>groups. map_exn (\<lambda>(workers, i, port). bind_exn
        (mq_follower_main (\<lambda>_. None) (\<lambda>_. []) shipped_files [] (\<lambda>_. None) (mq_follower_argv (slug (mq_label workers)) i port))
        (\<lambda>p. Inr (consumer_group (np_config p) (np_node_id p))))
      (List.product MQ_WORKER_SWEEP (enumerate 1 FOLLOWER_PORTS)) = Inr groups \<and>
    length groups = 12 \<and> distinct groups"
  by (rule mq_groups_never_reused) (simp add: sweep_environ_def)

text \<open>
  C29. A delay survives its way through two command lines: whatever delay and count a demo accepts on its own
  command line, the processes it spawns read back exactly that delay, in seconds, on the first so many of
  them and none on the others, each on its port and with the shipped configuration. \<open>str\<close> of such a float is
  assumed to read back as the float and, as it is not negative, to start with no sign.
\<close>

theorem demo_delays_read_back:
  assumes "sweep_environ environ"
    and "boundary_args_of float_of_str argv = Inr args" "lag_args_of float_of_str lag_argv = Inr lag_args"
    and "list_all (\<lambda>x. float_of_str (str_float x) = Some x \<and> hd (str_float x) \<noteq> CHR ''-'')
      [da_delay_ms args, da_delay_ms lag_args]"
  shows "(\<forall>(i, port) \<in> set (enumerate 1 LEADERLESS_NODE_PORTS).
      \<exists>p. ll_main float_of_str shipped_files builtin environ (boundary_node_argv str_float args i port) = Inr p \<and>
        np_port p = port \<and> np_config p = shipped_cluster \<and>
        np_delay_seconds p = (if int i \<le> da_delayed_count args then fscale (1 / 1000) (da_delay_ms args) else Fin 0)) \<and>
    (\<forall>(i, port) \<in> set (enumerate 1 FOLLOWER_PORTS).
      \<exists>p. mq_follower_main float_of_str repr shipped_files builtin environ
          (lag_follower_argv str_float lag_args (lag_delayed_ports lag_args) i port) = Inr p \<and>
        np_port p = port \<and> np_config p = shipped_queue \<and>
        np_delay_seconds p =
          (if int i \<le> da_delayed_count lag_args then fscale (1 / 1000) (da_delay_ms lag_args) else Fin 0))"
proof (intro conjI)
  note checked = demo_args_checked(1) [OF assms(2)] demo_args_checked(2) [OF assms(3)]
  have str: "float_of_str (str_float (da_delay_ms args)) = Some (da_delay_ms args)" "hd (str_float (da_delay_ms args)) \<noteq> CHR ''-''"
    "float_of_str (str_float (da_delay_ms lag_args)) = Some (da_delay_ms lag_args)" "hd (str_float (da_delay_ms lag_args)) \<noteq> CHR ''-''"
    using assms(4) by simp_all
  have ports: "0 \<le> port" if "(i, port) \<in> set (enumerate 1 LEADERLESS_NODE_PORTS) \<union> set (enumerate 1 FOLLOWER_PORTS)" for i port
    using that by (auto simp: LEADERLESS_NODE_PORTS_def FOLLOWER_PORTS_def)
  show "\<forall>(i, port) \<in> set (enumerate 1 LEADERLESS_NODE_PORTS).
      \<exists>p. ll_main float_of_str shipped_files builtin environ (boundary_node_argv str_float args i port) = Inr p \<and>
        np_port p = port \<and> np_config p = shipped_cluster \<and>
        np_delay_seconds p = (if int i \<le> da_delayed_count args then fscale (1 / 1000) (da_delay_ms args) else Fin 0)"
  proof (clarify)
    fix i port
    assume "(i, port) \<in> set (enumerate 1 LEADERLESS_NODE_PORTS)"
    then show "\<exists>p. ll_main float_of_str shipped_files builtin environ (boundary_node_argv str_float args i port) = Inr p \<and>
        np_port p = port \<and> np_config p = shipped_cluster \<and>
        np_delay_seconds p = (if int i \<le> da_delayed_count args then fscale (1 / 1000) (da_delay_ms args) else Fin 0)"
      by (intro boundary_node_process assms(1) str(1,2)) (use ports checked(1) in auto)
  qed
  show "\<forall>(i, port) \<in> set (enumerate 1 FOLLOWER_PORTS).
      \<exists>p. mq_follower_main float_of_str repr shipped_files builtin environ
          (lag_follower_argv str_float lag_args (lag_delayed_ports lag_args) i port) = Inr p \<and>
        np_port p = port \<and> np_config p = shipped_queue \<and>
        np_delay_seconds p =
          (if int i \<le> da_delayed_count lag_args then fscale (1 / 1000) (da_delay_ms lag_args) else Fin 0)"
  proof (clarify)
    fix i port
    assume ip: "(i, port) \<in> set (enumerate 1 FOLLOWER_PORTS)"
    show "\<exists>p. mq_follower_main float_of_str repr shipped_files builtin environ
          (lag_follower_argv str_float lag_args (lag_delayed_ports lag_args) i port) = Inr p \<and>
        np_port p = port \<and> np_config p = shipped_queue \<and>
        np_delay_seconds p =
          (if int i \<le> da_delayed_count lag_args then fscale (1 / 1000) (da_delay_ms lag_args) else Fin 0)"
      unfolding delayed_port_iff [OF ip conjunct2 [OF checked(2)], symmetric]
      by (intro lag_follower_process assms(1) str(3,4)) (use ports ip checked(2) in auto)
  qed
qed

theorem demo_delays_read_back_witness:
  "let str_float = (\<lambda>x. if x = Fin 800 then ''800.0'' else ''500.0'');
       float_of_str = (\<lambda>s. if s = ''800.0'' then Some (Fin 800) else if s = ''500.0'' then Some (Fin 500) else None);
       args = \<lparr>da_delay_ms = Fin 800, da_delayed_count = 4, da_workers = 0\<rparr>
   in \<exists>p. ll_main float_of_str shipped_files [] (\<lambda>_. None) (boundary_node_argv str_float args 4 8104) = Inr p \<and>
        np_delay_seconds p = Fin (4 / 5)"
proof -
  let ?str = "\<lambda>x. if x = Fin 800 then ''800.0'' else ''500.0''"
  let ?float = "\<lambda>s. if s = ''800.0'' then Some (Fin 800) else if s = ''500.0'' then Some (Fin 500) else None"
  let ?args = "\<lparr>da_delay_ms = Fin 800, da_delayed_count = 4, da_workers = 0\<rparr>"
  let ?lag_args = "\<lparr>da_delay_ms = Fin 500, da_delayed_count = 2, da_workers = 5\<rparr>"
  have "boundary_args_of ?float [] = Inr ?args" "lag_args_of ?float [] = Inr ?lag_args"
    by (simp_all add: boundary_args_of_def lag_args_of_def parse_args_def float_value_def int_value_def boundary_parse_args_def
        lag_parse_args_def default_to_def DEFAULT_DELAY_MS_def DEFAULT_DELAYED_NODE_COUNT_def MQ_DEFAULT_DELAY_MS_def
        DEFAULT_DELAYED_FOLLOWER_COUNT_def DEFAULT_WORKERS_def LEADERLESS_NODE_PORTS_def FOLLOWER_PORTS_def flt_def)
  then have "\<forall>(i, port) \<in> set (enumerate 1 LEADERLESS_NODE_PORTS).
      \<exists>p. ll_main ?float shipped_files [] (\<lambda>_. None) (boundary_node_argv ?str ?args i port) = Inr p \<and>
        np_port p = port \<and> np_config p = shipped_cluster \<and>
        np_delay_seconds p = (if int i \<le> da_delayed_count ?args then fscale (1 / 1000) (da_delay_ms ?args) else Fin 0)"
    by (intro conjunct1 [OF demo_delays_read_back [where lag_args = ?lag_args and lag_argv = "[]"]])
      (simp_all add: sweep_environ_def)
  moreover have "(4, 8104) \<in> set (enumerate 1 LEADERLESS_NODE_PORTS)" by (simp add: LEADERLESS_NODE_PORTS_def)
  ultimately show ?thesis by (fastforce simp: Let_def)
qed

text \<open>An injected delay is never negative, however it is given; otherwise the process does not start.\<close>

lemma ll_parse_args_checked:
  "ll_parse_args float_of_str environ argv = Inr args \<Longrightarrow> \<not> flt (na_delay_ms args) (Fin 0)"
  by (auto simp: ll_parse_args_def bind_exn_Inr_iff delay_value_def Let_def split: if_splits)

text \<open>A node started on a port the cluster does not list starts all the same, with every node of the cluster as a peer.\<close>

lemma mistyped_port_adds_a_copy:
  assumes "sweep_environ environ" "0 \<le> port" "port \<notin> set LEADERLESS_NODE_PORTS"
  shows "\<exists>p. ll_main float_of_str shipped_files builtin environ (ll_node_argv i port) = Inr p \<and>
    length (peers_excluding (np_config p) port) = length (cc_nodes (np_config p))"
proof -
  have "peers_excluding shipped_cluster port = cc_nodes shipped_cluster"
    using assms(3) by (auto simp: peers_excluding_def shipped_cluster_def local_node_def LEADERLESS_NODE_PORTS_def)
  then show ?thesis by (simp add: ll_node_process [OF assms(1,2)])
qed

end
