(* ===== verification/Spec2Isabelle.thy ===== *)
theory Spec2Isabelle
  imports KV_Cluster KV_Leader KV_Leaderless KV_Queue KV_LoadTest KV_LoadRuns KV_LeaderCluster KV_ResultsDoc KV_Harness KV_Smoke KV_Report KV_Summary KV_Demos KV_LoadCluster KV_LoadLeader KV_LoadQueue KV_Entry
begin

text \<open>
  \<^bold>\<open>kv-replication-lab, verified.\<close> The repository holds one key-value store replicated in three ways,
  and the load tests that compare them: a leader that fans writes out to followers
  (\<open>leader_follower/\<close>), a leaderless cluster with write and read quorums (\<open>leaderless/\<close>), and a producer
  that logs writes to Kafka for followers to consume (\<open>message_queue/\<close>). All of them share
  \<open>common/\<close>: the versioned value with its last-write-wins comparison, the store, the HTTP surface of a
  node. This development models the Python code under \<open>src/\<close> and proves what makes it correct.

  \<^bold>\<open>Theories and the code they model.\<close>
  \<^item> \<open>KV_Prelude\<close>: Python floats with NaN and infinities (\<open>pyfloat\<close>, with \<open>flt\<close>, \<open>fle\<close>, \<open>feq\<close> for the
    comparisons), exceptions as values (\<open>exn\<close>, sums \<open>exn + 'a\<close>), YAML values, \<open>int()\<close>, \<open>float()\<close>, \<open>str.strip()\<close>.
  \<^item> \<open>KV_Models\<close>: \<open>common/models.py\<close>. \<open>is_newer_than\<close> provides the interface \<open>lww_order\<close>.
  \<^item> \<open>KV_Storage\<close>: \<open>common/storage.py\<close>. An association list for the dict; every method is one atomic
    step, as the lock makes it. Interface \<open>replica_store\<close>; refinement of an abstract last-write-wins map.
  \<^item> \<open>KV_Config\<close>: \<open>common/config.py\<close>, \<open>common/cli.py\<close>, \<open>common/replication_client.py\<close>.
  \<^item> \<open>KV_Server\<close>: \<open>common/server.py\<close> and \<open>leader_follower/follower.py\<close>. The handlers as functions from a
    store to an answer and a store, the route table with \<open>replace_route\<close>.
  \<^item> \<open>KV_Calls\<close>: what both coordinators share, the calls to peers and the \<open>asyncio.wait\<close> loop over them.
    Interfaces \<open>absorber\<close> and \<open>counting_absorber\<close>.
  \<^item> \<open>KV_Leader\<close>: \<open>leader_follower/leader.py\<close>. Configuration, \<open>Replicator\<close>, PUT handler, and the
    semaphore of \<open>_send\<close> as a step machine.
  \<^item> \<open>KV_Leaderless\<close>: \<open>leaderless/node.py\<close>. Configuration, \<open>QuorumCoordinator\<close>, the handlers of a node.
  \<^item> \<open>KV_Cluster\<close>: a whole leaderless cluster as a transition system whose steps are the handlers'
    pieces between awaits, in any interleaving; deliveries may be lost, late, or never answered. What the
    network makes of the URL of a peer's read, into which the key goes unescaped, is the parameter \<open>url_routing\<close>.
  \<^item> \<open>KV_Queue\<close>: \<open>message_queue/\<close>. Configuration, topic management, producer, follower, and the run of
    producer, log and follower with restarts. A follower applies a message and then awaits its commit; the
    offsets of a lag report are each read at a moment of their own.
  \<^item> \<open>KV_LeaderCluster\<close>: the leader with its followers as a transition system: the writes of the leader,
    each delivery and each end of \<open>_send\<close>, and the passes of the PUT handler's waiting loop, in any order.
  \<^item> \<open>KV_LoadTest\<close>: \<open>experiments/_load_test_common.py\<close>. Request plans, statistics, the source of truth.
  \<^item> \<open>KV_LoadRuns\<close>: the three load tests. Workers interleave at their HTTP calls; interface
    \<open>load_worker\<close>, provided by each test's code.
  \<^item> \<open>KV_Comp\<close>: computations that pass a state and may raise, with \<open>try\<close>/\<open>except\<close>/\<open>finally\<close> as
    combinators and the rules the two theories below use.
  \<^item> \<open>KV_ResultsDoc\<close>: \<open>experiments/_results_doc.py\<close>, the marked sections of the results document.
  \<^item> \<open>KV_Harness\<close>: \<open>experiments/run_comparison.py\<close>. The node processes it spawns, waits for and stops,
    and the three sweeps over them; which processes and logs each leaves behind on every error path.
  \<^item> \<open>KV_Report\<close>: the reports of \<open>run_comparison.py\<close>, printed and written, and its \<open>main\<close>.
  \<^item> \<open>KV_Summary\<close>: the logs and the printed summary a load test ends with.
  \<^item> \<open>KV_Demos\<close>: \<open>leaderless_boundary_case_demo.py\<close> and \<open>mq_lag_demo.py\<close>, from the arguments to the
    section each writes.
  \<^item> \<open>KV_Measured\<close>: a load test and a service that run side by side, with the interfaces \<open>honest_service\<close>
    (a service keeps what it acknowledged) and \<open>fair_worker\<close> (a worker counts no fresh reply as stale).
  \<^item> \<open>KV_LoadCluster\<close>, \<open>KV_LoadLeader\<close>, \<open>KV_LoadQueue\<close>: each of the three load tests as the client of what it
    measures (\<open>KV_Cluster\<close>, \<open>KV_LeaderCluster\<close>, and the producer with its followers, each of which sees a run
    of \<open>KV_Queue\<close>), so that what a test reports follows from what the nodes guarantee.
  \<^item> \<open>KV_Smoke\<close>: \<open>experiments/kafka_smoke_test.py\<close> in full, against an append-only partitioned log.
  \<^item> \<open>KV_Entry\<close>: the \<open>_parse_args\<close> and \<open>main\<close> of every node process and load test over a model of
    \<open>argparse\<close>, the files under \<open>config/\<close>, and what the processes that the
    sweeps and demos spawn become.
  \<^item> This theory: properties that compare the coordinators.

  \<^bold>\<open>How state and operations correspond.\<close> A handler becomes a function whose arguments are its request,
  the store, the clock reading, and what the network did: the results of the calls to peers
  (\<open>call_result\<close>) and, for each round of \<open>asyncio.wait\<close>, the time left and the set of tasks that
  completed or the cancellation (\<open>wait_event\<close>). All of these are universally quantified in the theorems,
  so they cover every behaviour of network and scheduler. Errors are values: \<open>Http_error\<close> is an
  \<open>HTTPException\<close>, \<open>Http_crash\<close> an exception that escapes the handler.

  \<^bold>\<open>What the lemmas show.\<close> The store refines the abstract map and replicas converge; an acknowledged
  write reached the promised number of replicas in both strategies, and the acknowledgement
  decision is exact; a read quorum that overlaps the write quorum sees the write, the bound is sharp,
  and the cluster converges; the queue's lag is bounded by what is unread when it is asked for, and an acknowledged write is
  served once a reply reports no lag, by a follower that was not restarted; configurations are checked as documented; the load tests account for every request and
  report no staleness that did not happen, and none at all against a cluster with a strict quorum, a leader
  that requires every follower's ack, or queue followers that have no message of the key left to read; the
  programs that start processes stop them, but for the followers of a message queue whose start fails halfway.

  \<^bold>\<open>Fuel and bounds.\<close> The waiting loops of the coordinators terminate structurally (each round that
  continues has fewer pending tasks). \<open>reset_topic\<close> polls with fuel 31, enough for its timeout and
  interval under a clock that does not run backwards. The harness waits for a node with fuel 77
  (fifteen seconds in polls of 0.2 seconds, plus the first and last pass), and the smoke test consumes with
  \<open>smoke_fuel tick\<close>, one pass for each message and each \<open>tick\<close> of its timeout, where an empty \<open>getmany\<close> takes at
  least \<open>tick\<close>; each bound comes with a theorem that the loop ends within it.

  \<^bold>\<open>Not modelled.\<close> The start of uvicorn, progress messages and the text of log lines; HTTP, JSON and Kafka themselves, which are parameters; the rounding of float
  addition; the restart of leaderless and leader-follower processes, whose store starts empty.
\<close>

section \<open>The two coordinators compared\<close>

lemma replicate_outcome_send_task:
  "replicate_outcome r = map_sum id (\<lambda>b. (b, ())) (send_task False r)"
  by (auto simp: replicate_outcome_def send_task_def split: call_result.split sum.split option.split)

lemma count_acks_collect:
  "count_acks results ts (int (length vs)) =
     map_sum id (\<lambda>vs. int (length vs)) (collect (\<lambda>t. map_sum id (\<lambda>b. (b, ())) (results t)) ts vs)"
proof (induction ts arbitrary: vs)
  case (Cons t ts)
  show ?case
  proof (cases "results t")
    case (Inr b)
    with Cons.IH [of "if b then vs @ [()] else vs"] show ?thesis by (cases b) (simp_all add: add.commute)
  qed simp
qed simp

lemma replicate_write_replicator:
  assumes "length peers = length (lc_followers config)" "timeout_seconds = lc_timeout_seconds config"
    "needed = lc_ack_required config"
  shows "replicator_replicate config results env start =
    (let (acked, left) = replicate_write timeout_seconds peers (\<lambda>t. map_sum id (\<lambda>b. (b, ())) (results t))
       env start needed
     in (acked, case acked of Inl e \<Rightarrow> [] | Inr a \<Rightarrow> left))"
proof -
  let ?results = "\<lambda>t. map_sum id (\<lambda>b. (b, ())) (results t)"
  have "wait_loop (count_acks results) (\<lambda>acked. acked) env (fadd start timeout_seconds) needed 0
      [0..<length peers] 0 =
    map_prod (map_sum id (\<lambda>vs. int (length vs))) id
      (wait_loop (collect ?results) (\<lambda>vs. int (length vs)) env (fadd start timeout_seconds) needed 0
        [0..<length peers] [])"
    using wait_loop_simulates [of "count_acks results" "\<lambda>vs. int (length vs)" "collect ?results" "\<lambda>acked. acked"
        "\<lambda>vs. int (length vs)" env "fadd start timeout_seconds" needed 0 "[0..<length peers]" "[]"]
    by (simp add: count_acks_collect)
  then show ?thesis
    using assms
    by (auto simp: replicator_replicate_def replicate_write_def gather_def bind_exn_def Let_def
        case_prod_beta split: sum.split)
qed

text \<open>
  C16. One ack rule for both strategies: for the same peers' replies, the same timeout, the same
  number of acks needed and the same schedule, the leader's \<open>Replicator\<close> and the leaderless
  \<open>QuorumCoordinator\<close> return the same ack count, or raise the same exception, and leave the same
  calls in the background as long as none is raised.
\<close>

theorem coordinators_agree_on_acks:
  assumes "length peers = length (lc_followers config)"
  shows "fst (replicate_write (lc_timeout_seconds config) peers (\<lambda>t. replicate_outcome (replies t)) env start
      (lc_ack_required config)) =
    fst (replicator_replicate config (\<lambda>t. send_task False (replies t)) env start) \<and>
   (\<forall>acked. fst (replicator_replicate config (\<lambda>t. send_task False (replies t)) env start) = Inr acked \<longrightarrow>
     snd (replicate_write (lc_timeout_seconds config) peers (\<lambda>t. replicate_outcome (replies t)) env start
       (lc_ack_required config)) =
     snd (replicator_replicate config (\<lambda>t. send_task False (replies t)) env start))"
  unfolding replicate_write_replicator [OF assms refl refl] replicate_outcome_send_task
  by (auto simp: case_prod_beta Let_def)

theorem coordinators_agree_on_acks_witness:
  "fst (replicate_write (lc_timeout_seconds (example_leader 2)) [example_node 1, example_node 2]
      (\<lambda>t. replicate_outcome (Call_response 200 Body_not_json)) (\<lambda>i. (Fin 1, Completed [i])) (Fin 0)
      (lc_ack_required (example_leader 2))) =
    fst (replicator_replicate (example_leader 2) (\<lambda>t. send_task False (Call_response 200 Body_not_json))
      (\<lambda>i. (Fin 1, Completed [i])) (Fin 0))"
  using coordinators_agree_on_acks [of "[example_node 1, example_node 2]" "example_leader 2"
      "\<lambda>t. Call_response 200 Body_not_json" "\<lambda>i. (Fin 1, Completed [i])" "Fin 0"]
  by simp

text \<open>
  C39. What a client disconnect costs: when the awaiting handler is cancelled in its first wait, the
  leaderless write hands every peer's call to the background set before the cancellation goes on,
  while the leader's write, whose hand-over follows the loop, keeps no reference to any of its
  followers' calls. Both have stored the write locally by then.
\<close>

theorem cancelled_write_hand_over:
  assumes "env 0 = (t, Cancelled)" "\<not> fle (fsub (fadd start timeout) t) (Fin 0)"
    and "0 < lc_ack_required lconfig" "lc_followers lconfig \<noteq> []" "lc_timeout_seconds lconfig = timeout"
    and "1 < w_required_of config w" "w_required_of config w \<le> int (length (cc_nodes config))"
    and "peers_excluding config own_port \<noteq> []" "cc_timeout_seconds config = timeout"
  shows "put_key_coordinator node_id own_port config now results env start storage key body w =
      \<lparr>pco_response = Http_crash CancelledErr, pco_store = snd (kv_put storage key (preq_value body) now node_id),
        pco_payload = Some \<lparr>rreq_key = key, rreq_value = preq_value body, rreq_timestamp = now, rreq_node_id = node_id\<rparr>,
        pco_background = [0..<length (peers_excluding config own_port)]\<rparr> \<and>
    put_key_leader node_id lconfig now lresults env start storage key body =
      \<lparr>plo_response = Http_crash CancelledErr, plo_store = snd (kv_put storage key (preq_value body) now node_id),
        plo_payload = \<lparr>rreq_key = key, rreq_value = preq_value body, rreq_timestamp = now, rreq_node_id = node_id\<rparr>,
        plo_background = []\<rparr>"
proof -
  have "wait_loop absorb sz env (fadd start timeout) needed 0 pending acc = (Inl CancelledErr, pending)"
    if "pending \<noteq> []" "sz acc < needed" for absorb :: "nat list \<Rightarrow> 'z \<Rightarrow> exn + 'z" and sz needed pending acc
    using that assms(1,2) by (subst wait_loop.simps) (simp add: wait_round_def)
  note cancelled = this
  have "put_key_coordinator node_id own_port config now results env start storage key body w =
      \<lparr>pco_response = Http_crash CancelledErr, pco_store = snd (kv_put storage key (preq_value body) now node_id),
        pco_payload = Some \<lparr>rreq_key = key, rreq_value = preq_value body, rreq_timestamp = now, rreq_node_id = node_id\<rparr>,
        pco_background = [0..<length (peers_excluding config own_port)]\<rparr>"
    using assms(6-9)
    by (simp add: put_key_coordinator_valid replicate_write_def gather_def cancelled resolve_put_def)
  moreover have "put_key_leader node_id lconfig now lresults env start storage key body =
      \<lparr>plo_response = Http_crash CancelledErr, plo_store = snd (kv_put storage key (preq_value body) now node_id),
        plo_payload = \<lparr>rreq_key = key, rreq_value = preq_value body, rreq_timestamp = now, rreq_node_id = node_id\<rparr>,
        plo_background = []\<rparr>"
    using assms(3-5) by (simp add: put_key_leader_unfold replicator_replicate_def cancelled)
  ultimately show ?thesis by blast
qed

theorem cancelled_write_hand_over_witness:
  "pco_background (put_key_coordinator ''n1'' 8001 (example_cluster 3 1) (Fin 5) (\<lambda>t. Inr (True, ()))
      (\<lambda>i. (Fin 1, Cancelled)) (Fin 0) kv_init ''k'' \<lparr>preq_value = 7::nat\<rparr> None) = [0, 1] \<and>
   plo_background (put_key_leader ''n1'' (example_leader 2) (Fin 5) (\<lambda>t. Inr True)
      (\<lambda>i. (Fin 1, Cancelled)) (Fin 0) kv_init ''k'' \<lparr>preq_value = 7::nat\<rparr>) = []"
  using cancelled_write_hand_over [of "\<lambda>i. (Fin 1, Cancelled)" "Fin 1" "Fin 0" "Fin 2" "example_leader 2"
      "example_cluster 3 1" None 8001 "''n1''" "Fin 5" "\<lambda>t. Inr (True, ())" kv_init "''k''"
      "\<lparr>preq_value = 7::nat\<rparr>" "\<lambda>t. Inr True"]
  by (simp add: example_leader_def)

end
